(* ===== verification/Prelude.thy ===== *)
theory Prelude
  imports Main "HOL-Library.Char_ord" "HOL-Library.List_Lexorder" "HOL-Library.AList"
    "HOL-Library.Sublist" "HOL-Library.Multiset"
begin

text \<open>
  Shared ground of the development: the fact collections the component theories
  add to, Go strings as byte lists, and generic lemmas on lists and sorting.

  A Go \<open>string\<close> is a sequence of bytes, and so is an HOL \<open>string\<close> (a list of
  8-bit characters), so \<open>length\<close> is Go's \<open>len\<close> and the lexicographic order of
  \<open>List_Lexorder\<close> over the byte order of \<open>Char_ord\<close> is Go's string order,
  the order \<open>sort.Strings\<close> uses.
\<close>

named_theorems problem_simps
  \<open>membership facts of the problem lists the validators build\<close>

named_theorems record_defs
  \<open>definitions of concrete records, unfolded when a witness is evaluated\<close>

named_theorems gate_simps
  \<open>branch equations of the admission decision\<close>

type_synonym bytes = string

subsection \<open>Lists\<close>

text \<open>\<open>for i, v := range xs\<close> with the index the body reads.\<close>

definition indexed :: "'a list \<Rightarrow> (nat \<times> 'a) list" where
  "indexed xs = zip [0..<length xs] xs"

lemma map_snd_indexed [simp]: "map snd (indexed xs) = xs"
  by (simp add: indexed_def)

lemma set_indexed: "(i, x) \<in> set (indexed xs) \<longleftrightarrow> i < length xs \<and> x = xs ! i"
  unfolding indexed_def set_zip by force

lemma ex_indexed: "(\<exists>i. (i, x) \<in> set (indexed xs)) \<longleftrightarrow> x \<in> set xs"
  by (metis in_set_conv_nth set_indexed)

lemma ex_nth_iff: "(\<exists>i<length xs. P (xs ! i)) \<longleftrightarrow> (\<exists>x\<in>set xs. P x)"
  by (metis in_set_conv_nth)

lemma find_Some_iff_first:
  "List.find P xs = Some x \<longleftrightarrow> (\<exists>ys zs. xs = ys @ x # zs \<and> P x \<and> (\<forall>y\<in>set ys. \<not> P y))"
proof (induction xs)
  case (Cons a xs)
  show ?case
  proof (cases "P a")
    case True
    then show ?thesis by (auto simp: Cons_eq_append_conv)
  next
    case False
    then show ?thesis
      by (simp add: Cons Cons_eq_append_conv) (metis list.set_intros(1,2) set_ConsD)
  qed
qed simp

lemma find_None_set: "List.find P xs = None \<longleftrightarrow> (\<forall>x\<in>set xs. \<not> P x)"
  by (induction xs) auto

lemma sort_same_set:
  fixes xs ys :: "'a::linorder list"
  assumes "distinct xs" "distinct ys" "set xs = set ys"
  shows "sort xs = sort ys"
  using assms by (intro sorted_distinct_set_unique) auto

lemma sorted_filter_sort: "sorted (filter P (sort xs))"
  using sorted_filter [of "\<lambda>x. x" "sort xs" P] by simp

end
