(* ===== verification/GoMap.thy ===== *)
theory GoMap
  imports Prelude
begin

text \<open>
  Go maps with string keys. A Go map has no order of its own: \<open>range\<close> visits the
  keys in an order the language leaves open. The model is an association list with
  distinct keys whose list order stands for the order one run happened to see, so a
  result that is the same for every order is one that does not look at it.

  The interface the components use is the locale \<open>finite_map\<close>; what the clients need
  (building an index that keeps the first entry of a key, building a set, the sorted
  key list that makes a loop independent of the iteration order) is proved there once.
\<close>

type_synonym 'v gomap = "(string \<times> 'v) list"

definition m_empty :: "'v gomap" where
  "m_empty = []"

definition m_get :: "'v gomap \<Rightarrow> string \<Rightarrow> 'v option" where
  "m_get m k = map_of m k"

definition m_put :: "string \<Rightarrow> 'v \<Rightarrow> 'v gomap \<Rightarrow> 'v gomap" where
  "m_put k v m = AList.update k v m"

definition m_keys :: "'v gomap \<Rightarrow> string list" where
  "m_keys m = map fst m"

definition wf_map :: "'v gomap \<Rightarrow> bool" where
  "wf_map m \<longleftrightarrow> distinct (map fst m)"

text \<open>Reading an absent key gives the zero value of the element type.\<close>

definition m_str :: "string gomap \<Rightarrow> string \<Rightarrow> string" where
  "m_str m k = (case m_get m k of None \<Rightarrow> [] | Some v \<Rightarrow> v)"

definition m_flag :: "bool gomap \<Rightarrow> string \<Rightarrow> bool" where
  "m_flag m k = (m_get m k = Some True)"

text \<open>The keys of a map in \<open>sort.Strings\<close> order, however \<open>range\<close> visited them.\<close>

definition sorted_keys :: "'v gomap \<Rightarrow> string list" where
  "sorted_keys m = sort (m_keys m)"

locale finite_map =
  fixes empty :: 'm
    and get :: "'m \<Rightarrow> string \<Rightarrow> 'v option"
    and put :: "string \<Rightarrow> 'v \<Rightarrow> 'm \<Rightarrow> 'm"
    and keys :: "'m \<Rightarrow> string list"
    and invar :: "'m \<Rightarrow> bool"
  assumes get_empty: "get empty k = None"
    and get_put: "get (put k v m) k' = (if k' = k then Some v else get m k')"
    and set_keys: "set (keys m) = {k. get m k \<noteq> None}"
    and distinct_keys: "invar m \<Longrightarrow> distinct (keys m)"
    and invar_empty: "invar empty"
    and invar_put: "invar m \<Longrightarrow> invar (put k v m)"
begin

lemma get_fold_put_new:
  "get (fold (\<lambda>x m. if get m (key x) = None then put (key x) (val x) m else m) xs m0) k =
   (case get m0 k of
      Some v \<Rightarrow> Some v
    | None \<Rightarrow> map_option val (List.find (\<lambda>x. key x = k) xs))"
proof (induction xs arbitrary: m0)
  case Nil
  then show ?case by (simp split: option.split)
next
  case (Cons x xs)
  then show ?case by (simp add: get_put split: option.split)
qed

lemma get_fold_put:
  "get (fold (\<lambda>x. put (key x) (val x)) xs m0) k =
   (case List.find (\<lambda>x. key x = k) (rev xs) of
      Some x \<Rightarrow> Some (val x)
    | None \<Rightarrow> get m0 k)"
proof (induction xs rule: rev_induct)
  case (snoc x xs)
  then show ?case by (simp add: get_put)
qed (simp add: get_empty)

lemma invar_fold_put_new:
  "invar m0 \<Longrightarrow>
   invar (fold (\<lambda>x m. if get m (key x) = None then put (key x) (val x) m else m) xs m0)"
  by (induction xs arbitrary: m0) (auto intro: invar_put)

lemma invar_fold_put: "invar m0 \<Longrightarrow> invar (fold (\<lambda>x. put (key x) (val x)) xs m0)"
  by (induction xs arbitrary: m0) (auto intro: invar_put)

lemma keys_iff: "k \<in> set (keys m) \<longleftrightarrow> (\<exists>v. get m k = Some v)"
  by (simp add: set_keys)

lemma sort_keys_determined:
  assumes "invar m" "invar m'" "get m = get m'"
  shows "sort (keys m) = sort (keys m')"
  using assms by (intro sort_same_set distinct_keys) (auto simp: set_keys)

end

lemma map_of_update_eq: "map_of (AList.update k v m) k' = (if k' = k then Some v else map_of m k')"
  by (simp add: update_conv')

interpretation gm: finite_map m_empty m_get m_put m_keys wf_map
proof unfold_locales
  fix m :: "'a gomap"
  show "set (m_keys m) = {k. m_get m k \<noteq> None}"
    unfolding m_keys_def m_get_def using dom_map_of_conv_image_fst [of m] by auto
qed (simp_all add: m_empty_def m_get_def m_put_def m_keys_def wf_map_def
      map_of_update_eq distinct_update)

lemmas m_simps [simp] = gm.get_empty gm.get_put gm.invar_empty gm.invar_put

lemma m_get_empty_list [simp]: "m_get [] k = None"
  by (simp add: m_get_def)

lemma m_keys_Nil [simp]: "m_keys [] = []"
  by (simp add: m_keys_def)

lemma gomap_Nil_iff: "m = [] \<longleftrightarrow> (\<forall>k. m_get m k = None)"
proof -
  have "m = [] \<longleftrightarrow> set (m_keys m) = {}" by (simp add: m_keys_def)
  then show ?thesis by (auto simp: gm.set_keys)
qed

lemma set_sorted_keys: "k \<in> set (sorted_keys m) \<longleftrightarrow> (\<exists>v. m_get m k = Some v)"
  by (simp add: sorted_keys_def gm.keys_iff)

lemma sorted_sorted_keys [simp]: "sorted (sorted_keys m)"
  by (simp add: sorted_keys_def)

lemma distinct_sorted_keys [simp]: "wf_map m \<Longrightarrow> distinct (sorted_keys m)"
  by (simp add: sorted_keys_def gm.distinct_keys)

lemma sorted_keys_determined:
  "wf_map m \<Longrightarrow> wf_map m' \<Longrightarrow> m_get m = m_get m' \<Longrightarrow> sorted_keys m = sorted_keys m'"
  unfolding sorted_keys_def by (rule gm.sort_keys_determined)

lemma m_get_permuted:
  assumes "wf_map m" "mset m = mset m'"
  shows "m_get m = m_get m'" and "wf_map m'"
proof -
  have keys: "mset (map fst m) = mset (map fst m')"
    using assms(2) by (metis mset_map)
  then show wf: "wf_map m'"
    using assms(1) unfolding wf_map_def by (metis mset_eq_imp_distinct_iff)
  show "m_get m = m_get m'"
    using assms(1) wf mset_eq_setD [OF assms(2)] unfolding wf_map_def m_get_def fun_eq_iff
    by (metis map_of_eq_Some_iff not_Some_eq)
qed

end
