(* ===== verification/GoStrings.thy ===== *)
theory GoStrings
  imports Prelude
begin

text \<open>
  The string functions of the Go standard library that the program calls, on bytes:
  \<open>strings.TrimSpace\<close>, \<open>HasPrefix\<close>, \<open>HasSuffix\<close>, \<open>Contains\<close>, \<open>Cut\<close>, \<open>Join\<close>, UTF-8 decoding,
  and the verbs of \<open>fmt\<close> for strings and integers (\<open>%s\<close>, \<open>%q\<close>, \<open>%d\<close>).

  \<open>%q\<close> prints a rune as it is when \<open>strconv.IsPrint\<close> says so. Up to U+00FF that is written
  out here; above, it is a table of the Unicode database, which is not in this
  repository, so it is the argument \<open>uni\<close> of the functions that quote.
\<close>

subsection \<open>Prefixes, suffixes, substrings\<close>

fun has_prefix :: "string \<Rightarrow> string \<Rightarrow> bool" where
  "has_prefix s [] = True"
| "has_prefix [] (p # ps) = False"
| "has_prefix (c # s) (p # ps) = (c = p \<and> has_prefix s ps)"

definition has_suffix :: "string \<Rightarrow> string \<Rightarrow> bool" where
  "has_suffix s p = has_prefix (rev s) (rev p)"

fun contains :: "string \<Rightarrow> string \<Rightarrow> bool" where
  "contains [] sub = has_prefix [] sub"
| "contains (c # s) sub = (has_prefix (c # s) sub \<or> contains s sub)"

text \<open>\<open>strings.Cut\<close>: around the first separator byte, or all of it and nothing.\<close>

fun cut :: "string \<Rightarrow> char \<Rightarrow> string \<times> string" where
  "cut [] d = ([], [])"
| "cut (c # s) d = (if c = d then ([], s) else let (a, b) = cut s d in (c # a, b))"

fun join :: "string list \<Rightarrow> string \<Rightarrow> string" where
  "join [] sep = []"
| "join [x] sep = x"
| "join (x # y # ys) sep = x @ sep @ join (y # ys) sep"

lemma has_prefix_iff: "has_prefix s p \<longleftrightarrow> (\<exists>t. s = p @ t)"
  by (induction s p rule: has_prefix.induct) auto

lemma has_suffix_iff: "has_suffix s p \<longleftrightarrow> (\<exists>t. s = t @ p)"
  unfolding has_suffix_def has_prefix_iff
  by (metis rev_append rev_rev_ident)

lemma contains_iff: "contains s p \<longleftrightarrow> (\<exists>a b. s = a @ p @ b)"
proof (induction s)
  case (Cons c s)
  show ?case
  proof
    assume "contains (c # s) p"
    then consider "has_prefix (c # s) p" | "contains s p" by auto
    then show "\<exists>a b. c # s = a @ p @ b"
    proof cases
      case 1
      then show ?thesis by (metis append_Nil has_prefix_iff)
    next
      case 2
      then show ?thesis by (metis Cons append_Cons)
    qed
  next
    assume "\<exists>a b. c # s = a @ p @ b"
    then obtain a b where eq: "c # s = a @ p @ b" by blast
    show "contains (c # s) p"
    proof (cases a)
      case Nil
      with eq show ?thesis by (metis append_Nil contains.simps(2) has_prefix_iff)
    next
      case (Cons x xs)
      with eq have "\<exists>a b. s = a @ p @ b" by auto
      with Cons.IH show ?thesis by simp
    qed
  qed
qed (auto simp: has_prefix_iff)

lemma has_prefix_append [simp]: "has_prefix (p @ s) p"
  by (auto simp: has_prefix_iff)

lemma has_prefix_drop: "has_prefix s p \<Longrightarrow> s = p @ drop (length p) s"
  by (auto simp: has_prefix_iff)

subsection \<open>White space\<close>

text \<open>
  The UTF-8 encodings of the runes \<open>unicode.IsSpace\<close> accepts: tab, newline, vertical tab,
  form feed, carriage return, space, U+0085, U+00A0, U+1680, U+2000 to U+200A, U+2028,
  U+2029, U+202F, U+205F, U+3000. No encoding is a prefix of another, and decoding at
  either end of a string meets one of these runes exactly when the string starts or
  ends with its encoding, so trimming runes is trimming these byte sequences.
\<close>

definition space_runes :: "string list" where
  "space_runes =
     map (\<lambda>c. [c]) [CHR 0x09, CHR 0x0A, CHR 0x0B, CHR 0x0C, CHR 0x0D, CHR '' ''] @
     [[CHR 0xC2, CHR 0x85], [CHR 0xC2, CHR 0xA0], [CHR 0xE1, CHR 0x9A, CHR 0x80]] @
     map (\<lambda>c. [CHR 0xE2, CHR 0x80, c])
       [CHR 0x80, CHR 0x81, CHR 0x82, CHR 0x83, CHR 0x84, CHR 0x85, CHR 0x86, CHR 0x87,
        CHR 0x88, CHR 0x89, CHR 0x8A, CHR 0xA8, CHR 0xA9, CHR 0xAF] @
     [[CHR 0xE2, CHR 0x81, CHR 0x9F], [CHR 0xE3, CHR 0x80, CHR 0x80]]"

definition leading_space :: "string \<Rightarrow> nat" where
  "leading_space s =
     (case List.find (has_prefix s) space_runes of None \<Rightarrow> 0 | Some r \<Rightarrow> length r)"

definition trailing_space :: "string \<Rightarrow> nat" where
  "trailing_space s =
     (case List.find (has_suffix s) space_runes of None \<Rightarrow> 0 | Some r \<Rightarrow> length r)"

function trim_left :: "string \<Rightarrow> string" where
  "trim_left s =
     (if s = [] \<or> leading_space s = 0 then s else trim_left (drop (leading_space s) s))"
  by pat_completeness auto
termination
  by (relation "measure length") auto

function trim_right :: "string \<Rightarrow> string" where
  "trim_right s =
     (if s = [] \<or> trailing_space s = 0 then s
      else trim_right (take (length s - trailing_space s) s))"
  by pat_completeness auto
termination
  by (relation "measure length") (auto simp: min_def simp flip: length_greater_0_conv)

declare trim_left.simps [simp del] trim_right.simps [simp del]

text \<open>\<open>strings.TrimSpace\<close>.\<close>

definition trim_space :: "string \<Rightarrow> string" where
  "trim_space s = trim_right (trim_left s)"

lemma space_runes_nonempty: "r \<in> set space_runes \<Longrightarrow> r \<noteq> []"
  by (auto simp: space_runes_def)

lemma find_length_0:
  assumes "\<And>r. r \<in> set rs \<Longrightarrow> r \<noteq> []"
  shows "(case List.find P rs of None \<Rightarrow> 0 | Some r \<Rightarrow> length r) = 0 \<longleftrightarrow> (\<forall>r\<in>set rs. \<not> P r)"
  using assms by (induction rs) auto

lemma leading_space_0:
  "leading_space s = 0 \<longleftrightarrow> (\<forall>r\<in>set space_runes. \<not> has_prefix s r)"
  unfolding leading_space_def by (rule find_length_0) (rule space_runes_nonempty)

lemma trailing_space_0:
  "trailing_space s = 0 \<longleftrightarrow> (\<forall>r\<in>set space_runes. \<not> has_suffix s r)"
  unfolding trailing_space_def by (rule find_length_0) (rule space_runes_nonempty)

lemma leading_space_Nil [simp]: "leading_space [] = 0"
  unfolding leading_space_0 using space_runes_nonempty by (auto simp: has_prefix_iff)

lemma trailing_space_Nil [simp]: "trailing_space [] = 0"
  unfolding trailing_space_0 using space_runes_nonempty by (auto simp: has_suffix_iff)

lemma leading_trim_left: "leading_space (trim_left s) = 0"
  by (induction s rule: trim_left.induct) (subst trim_left.simps, auto)

lemma trailing_trim_right: "trailing_space (trim_right s) = 0"
  by (induction s rule: trim_right.induct) (subst trim_right.simps, auto)

lemma trim_right_prefix: "\<exists>t. s = trim_right s @ t"
proof (induction s rule: trim_right.induct)
  case (1 s)
  show ?case
  proof (cases "s = [] \<or> trailing_space s = 0")
    case True
    then show ?thesis by (subst trim_right.simps) auto
  next
    case False
    let ?n = "length s - trailing_space s"
    from 1 False obtain t where "take ?n s = trim_right (take ?n s) @ t" by blast
    then have "s = trim_right (take ?n s) @ (t @ drop ?n s)"
      by (metis append.assoc append_take_drop_id)
    with False show ?thesis by (subst trim_right.simps) auto
  qed
qed

lemma trim_left_suffix: "\<exists>t. s = t @ trim_left s"
proof (induction s rule: trim_left.induct)
  case (1 s)
  show ?case
  proof (cases "s = [] \<or> leading_space s = 0")
    case True
    then show ?thesis by (subst trim_left.simps) auto
  next
    case False
    with 1 obtain t where
      "drop (leading_space s) s = t @ trim_left (drop (leading_space s) s)" by blast
    then have "s = (take (leading_space s) s @ t) @ trim_left (drop (leading_space s) s)"
      by (metis append.assoc append_take_drop_id)
    with False show ?thesis by (subst trim_left.simps) metis
  qed
qed

lemma leading_space_prefix_mono: "leading_space (s @ t) = 0 \<Longrightarrow> leading_space s = 0"
  unfolding leading_space_0 by (auto simp: has_prefix_iff)

lemma leading_trim_space: "leading_space (trim_space s) = 0"
  using leading_trim_left [of s] trim_right_prefix [of "trim_left s"] leading_space_prefix_mono
  unfolding trim_space_def by metis

lemma trim_space_fixed:
  assumes "leading_space s = 0" "trailing_space s = 0"
  shows "trim_space s = s"
  using assms unfolding trim_space_def
  by (subst trim_left.simps) (simp add: trim_right.simps [of s])

text \<open>Trimming twice is trimming once.\<close>

lemma trim_space_idem [simp]: "trim_space (trim_space s) = trim_space s"
  by (rule trim_space_fixed)
    (simp_all add: leading_trim_space, simp add: trim_space_def trailing_trim_right)

lemma trim_space_Nil [simp]: "trim_space [] = []"
  by (rule trim_space_fixed) simp_all

lemma trim_space_infix: "\<exists>a b. s = a @ trim_space s @ b"
  using trim_left_suffix [of s] trim_right_prefix [of "trim_left s"]
  unfolding trim_space_def by metis

subsection \<open>UTF-8\<close>

definition byte_of :: "char \<Rightarrow> nat" where
  "byte_of c = of_char c"

definition is_cont :: "char \<Rightarrow> bool" where
  "is_cont c \<longleftrightarrow> 0x80 \<le> byte_of c \<and> byte_of c \<le> 0xBF"

definition rune_error :: nat where
  "rune_error = 0xFFFD"

text \<open>
  \<open>utf8.DecodeRuneInString\<close>: the first rune and its width in bytes; an ill-formed or cut
  sequence is \<open>rune_error\<close> of width 1, the empty string \<open>rune_error\<close> of width 0.
\<close>

definition decode_rune2 :: "nat \<Rightarrow> string \<Rightarrow> nat \<times> nat" where
  "decode_rune2 b s =
     (case s of
        c1 # _ \<Rightarrow>
          if is_cont c1 then ((b - 0xC0) * 0x40 + (byte_of c1 - 0x80), 2) else (rune_error, 1)
      | _ \<Rightarrow> (rune_error, 1))"

definition decode_rune3 :: "nat \<Rightarrow> string \<Rightarrow> nat \<times> nat" where
  "decode_rune3 b s =
     (case s of
        c1 # c2 # _ \<Rightarrow>
          if is_cont c1 \<and> is_cont c2 \<and> (b = 0xE0 \<longrightarrow> 0xA0 \<le> byte_of c1) \<and>
             (b = 0xED \<longrightarrow> byte_of c1 \<le> 0x9F)
          then (((b - 0xE0) * 0x40 + (byte_of c1 - 0x80)) * 0x40 + (byte_of c2 - 0x80), 3)
          else (rune_error, 1)
      | _ \<Rightarrow> (rune_error, 1))"

definition decode_rune4 :: "nat \<Rightarrow> string \<Rightarrow> nat \<times> nat" where
  "decode_rune4 b s =
     (case s of
        c1 # c2 # c3 # _ \<Rightarrow>
          if is_cont c1 \<and> is_cont c2 \<and> is_cont c3 \<and> (b = 0xF0 \<longrightarrow> 0x90 \<le> byte_of c1) \<and>
             (b = 0xF4 \<longrightarrow> byte_of c1 \<le> 0x8F)
          then ((((b - 0xF0) * 0x40 + (byte_of c1 - 0x80)) * 0x40 + (byte_of c2 - 0x80)) * 0x40 +
                (byte_of c3 - 0x80), 4)
          else (rune_error, 1)
      | _ \<Rightarrow> (rune_error, 1))"

definition decode_rune :: "string \<Rightarrow> nat \<times> nat" where
  "decode_rune s =
     (case s of
        [] \<Rightarrow> (rune_error, 0)
      | c # s' \<Rightarrow>
          let b = byte_of c in
          if b < 0x80 then (b, 1)
          else if 0xC2 \<le> b \<and> b \<le> 0xDF then decode_rune2 b s'
          else if 0xE0 \<le> b \<and> b \<le> 0xEF then decode_rune3 b s'
          else if 0xF0 \<le> b \<and> b \<le> 0xF4 then decode_rune4 b s'
          else (rune_error, 1))"

lemma decode_rune_width: "s \<noteq> [] \<Longrightarrow> 1 \<le> snd (decode_rune s) \<and> snd (decode_rune s) \<le> length s"
  by (cases s)
    (auto simp: decode_rune_def decode_rune2_def decode_rune3_def decode_rune4_def Let_def
      split: list.split)

subsection \<open>Formatting verbs\<close>

text \<open>\<open>%d\<close> of a non-negative and of a signed integer.\<close>

fun show_nat :: "nat \<Rightarrow> string" where
  "show_nat n =
     (if n < 10 then [char_of (48 + n)] else show_nat (n div 10) @ [char_of (48 + n mod 10)])"

declare show_nat.simps [simp del]

definition show_int :: "int \<Rightarrow> string" where
  "show_int i = (if i < 0 then ''-'' @ show_nat (nat (- i)) else show_nat (nat i))"

definition hex_digit :: "nat \<Rightarrow> char" where
  "hex_digit n = ''0123456789abcdef'' ! (n mod 16)"

fun hex_pad :: "nat \<Rightarrow> nat \<Rightarrow> string" where
  "hex_pad 0 n = []"
| "hex_pad (Suc w) n = hex_pad w (n div 16) @ [hex_digit n]"

text \<open>\<open>strconv.IsPrint\<close>; the argument \<open>uni\<close> is its table above U+00FF.\<close>

definition is_print :: "(nat \<Rightarrow> bool) \<Rightarrow> nat \<Rightarrow> bool" where
  "is_print uni r =
     (if r \<le> 0xFF
      then (0x20 \<le> r \<and> r < 0x7F) \<or> (0xA1 \<le> r \<and> r \<noteq> 0xAD)
      else uni r)"

text \<open>One rune inside double quotes; \<open>raw\<close> are the bytes it was decoded from.\<close>

definition quote_rune :: "(nat \<Rightarrow> bool) \<Rightarrow> nat \<Rightarrow> string \<Rightarrow> string" where
  "quote_rune uni r raw =
     (if r = 0x22 \<or> r = 0x5C then CHR 0x5C # raw
      else if is_print uni r then raw
      else if r = 7 then [CHR 0x5C, CHR ''a'']
      else if r = 8 then [CHR 0x5C, CHR ''b'']
      else if r = 12 then [CHR 0x5C, CHR ''f'']
      else if r = 10 then [CHR 0x5C, CHR ''n'']
      else if r = 13 then [CHR 0x5C, CHR ''r'']
      else if r = 9 then [CHR 0x5C, CHR ''t'']
      else if r = 11 then [CHR 0x5C, CHR ''v'']
      else if r < 0x20 \<or> r = 0x7F then [CHR 0x5C, CHR ''x''] @ hex_pad 2 r
      else if r < 0x10000 then [CHR 0x5C, CHR ''u''] @ hex_pad 4 r
      else [CHR 0x5C, CHR ''U''] @ hex_pad 8 r)"

function quote_body :: "(nat \<Rightarrow> bool) \<Rightarrow> string \<Rightarrow> string" where
  "quote_body uni s =
     (if s = [] then []
      else let (r, w) = decode_rune s in
        (if w = 1 \<and> r = rune_error
         then [CHR 0x5C, CHR ''x''] @ hex_pad 2 (byte_of (hd s)) @ quote_body uni (tl s)
         else quote_rune uni r (take w s) @ quote_body uni (drop w s)))"
  by pat_completeness auto
termination
proof (relation "measure (\<lambda>(uni, s). length s)", goal_cases)
  case (3 uni s x r w)
  then show ?case using decode_rune_width [of s] by (metis case_prod_conv diff_less in_measure
      length_drop length_greater_0_conv less_le_trans prod.sel(2) zero_less_one)
qed auto

declare quote_body.simps [simp del]

text \<open>\<open>%q\<close>.\<close>

definition go_quote :: "(nat \<Rightarrow> bool) \<Rightarrow> string \<Rightarrow> string" where
  "go_quote uni s = [CHR 0x22] @ quote_body uni s @ [CHR 0x22]"

lemma go_quote_ascii:
  "go_quote uni ''a\<newline>b'' = [CHR 0x22, CHR ''a'', CHR 0x5C, CHR ''n'', CHR ''b'', CHR 0x22]"
  by (simp add: go_quote_def quote_body.simps decode_rune_def byte_of_def quote_rune_def
      is_print_def rune_error_def)

end
