(* ===== verification/Float64.thy ===== *)
theory Float64
  imports GoStrings Complex_Main
begin

text \<open>
  Go's \<open>float64\<close>: the finite values as the rational numbers they are, the two infinities
  and NaN, with the comparisons of IEEE 754 (every comparison with NaN is false). The two
  zeros compare equal and are one value here. Rounding a rational to \<open>float64\<close> is
  \<open>strconv.ParseFloat\<close>'s rounding, to nearest with ties to even; \<open>%g\<close> prints the shortest
  decimal that rounds back.
\<close>

datatype float64 = Fin rat | PosInf | NegInf | NaN

instantiation float64 :: zero
begin
definition zero_float64 :: float64 where
  "zero_float64 = Fin 0"
instance ..
end

text \<open>\<open>a < b\<close> on \<open>float64\<close>.\<close>

fun f64_less :: "float64 \<Rightarrow> float64 \<Rightarrow> bool" where
  "f64_less (Fin a) (Fin b) = (a < b)"
| "f64_less (Fin a) PosInf = True"
| "f64_less NegInf (Fin b) = True"
| "f64_less NegInf PosInf = True"
| "f64_less _ _ = False"

lemma f64_less_irrefl [simp]: "\<not> f64_less x x"
  by (cases x) auto

lemma f64_less_trans: "f64_less x y \<Longrightarrow> f64_less y z \<Longrightarrow> f64_less x z"
  by (cases x; cases y; cases z) auto

lemma f64_less_NaN [simp]: "\<not> f64_less NaN x" "\<not> f64_less x NaN"
  by (cases x; simp)+

lemma f64_not_less_total:
  "x \<noteq> NaN \<Longrightarrow> y \<noteq> NaN \<Longrightarrow> \<not> f64_less x y \<Longrightarrow> x \<noteq> y \<Longrightarrow> f64_less y x"
  by (cases x; cases y) auto

subsection \<open>Rounding\<close>

definition round_half_even :: "rat \<Rightarrow> int" where
  "round_half_even q =
     (let f = \<lfloor>q\<rfloor>; r = q - of_int f in
      if r < 1 / 2 then f else if 1 / 2 < r then f + 1 else if even f then f else f + 1)"

text \<open>The exponent \<open>e\<close> with \<open>b\<^sup>e \<le> x < b\<^sup>e\<^sup>+\<^sup>1\<close>, for a positive \<open>x\<close>.\<close>

definition pow_rat :: "int \<Rightarrow> int \<Rightarrow> rat" where
  "pow_rat b e = (if 0 \<le> e then of_int (b ^ nat e) else 1 / of_int (b ^ nat (- e)))"

function digit_count :: "int \<Rightarrow> int \<Rightarrow> nat" where
  "digit_count b n = (if n < b \<or> b \<le> 1 then 1 else Suc (digit_count b (n div b)))"
  by pat_completeness auto
termination
proof (relation "measure (\<lambda>(b, n). nat n)", goal_cases)
  case (2 b n)
  then have "n div b < n" by (simp add: int_div_less_self)
  with 2 show ?case by simp
qed simp

declare digit_count.simps [simp del]

definition floor_log_rat :: "int \<Rightarrow> rat \<Rightarrow> int" where
  "floor_log_rat b x =
     (let (n, d) = quotient_of x; k = int (digit_count b n) - int (digit_count b d) in
      if pow_rat b k \<le> x then k else k - 1)"

text \<open>The nearest \<open>float64\<close>: 53 bits of significand, smallest exponent \<open>-1074\<close>.\<close>

definition round_pos :: "rat \<Rightarrow> float64" where
  "round_pos x =
     (let e = max (floor_log_rat 2 x - 52) (- 1074);
          v = of_int (round_half_even (x / pow_rat 2 e)) * pow_rat 2 e in
      if pow_rat 2 1024 \<le> v then PosInf else Fin v)"

definition f64_of_rat :: "rat \<Rightarrow> float64" where
  "f64_of_rat x =
     (if x = 0 then Fin 0
      else if 0 < x then round_pos x
      else case round_pos (- x) of Fin v \<Rightarrow> Fin (- v) | _ \<Rightarrow> NegInf)"

subsection \<open>Shortest decimals and \<open>%g\<close>\<close>

text \<open>
  \<open>k\<close> digits \<open>c\<close> and the exponent \<open>p\<close> with \<open>x\<close> near \<open>c / 10\<^sup>p\<close>: the nearest of the two
  neighbours that rounds back to \<open>x\<close>, if one does.
\<close>

definition shortest_at :: "rat \<Rightarrow> int \<Rightarrow> (int \<times> int) option" where
  "shortest_at x k =
     (let p = k - 1 - floor_log_rat 10 x;
          q = x * pow_rat 10 p;
          lo = \<lfloor>q\<rfloor>; hi = lo + 1;
          back = (\<lambda>c. round_pos (of_int c / pow_rat 10 p) = Fin x);
          near = (if q - of_int lo \<le> of_int hi - q then lo else hi);
          far = (if near = lo then hi else lo) in
      if back near then Some (near, p) else if back far then Some (far, p) else None)"

fun shortest_from :: "rat \<Rightarrow> int list \<Rightarrow> int \<times> int" where
  "shortest_from x [] = (0, 0)"
| "shortest_from x (k # ks) =
     (case shortest_at x k of Some r \<Rightarrow> r | None \<Rightarrow> shortest_from x ks)"

definition strip_zeros :: "string \<Rightarrow> string" where
  "strip_zeros s = rev (dropWhile (\<lambda>c. c = CHR ''0'') (rev s))"

text \<open>The digits and the position of the decimal point: \<open>0.d\<^sub>1d\<^sub>2\<dots> * 10\<^sup>d\<^sup>p\<close>.\<close>

definition shortest_digits :: "rat \<Rightarrow> string \<times> int" where
  "shortest_digits x =
     (let (c, p) = shortest_from x [1 .. 17]; ds = show_nat (nat c) in
      (strip_zeros ds, int (length ds) - p))"

definition zeros :: "nat \<Rightarrow> string" where
  "zeros n = replicate n (CHR ''0'')"

text \<open>\<open>%e\<close> with the shortest digits, and \<open>%f\<close>.\<close>

definition format_e :: "string \<Rightarrow> int \<Rightarrow> string" where
  "format_e ds dp =
     (let x = dp - 1; ax = show_nat (nat \<bar>x\<bar>) in
      take 1 ds @ (if length ds > 1 then ''.'' @ drop 1 ds else []) @ ''e'' @
      (if x < 0 then ''-'' else ''+'') @ (if length ax < 2 then ''0'' @ ax else ax))"

definition format_f :: "string \<Rightarrow> int \<Rightarrow> string" where
  "format_f ds dp =
     (if dp \<le> 0 then ''0.'' @ zeros (nat (- dp)) @ ds
      else if int (length ds) \<le> dp then ds @ zeros (nat dp - length ds)
      else take (nat dp) ds @ ''.'' @ drop (nat dp) ds)"

text \<open>\<open>%g\<close>: the exponent form below \<open>1e-4\<close> and from \<open>1e6\<close> on.\<close>

definition format_g_pos :: "rat \<Rightarrow> string" where
  "format_g_pos x =
     (let (ds, dp) = shortest_digits x in
      if dp - 1 < - 4 \<or> 6 \<le> dp - 1 then format_e ds dp else format_f ds dp)"

fun format_g :: "float64 \<Rightarrow> string" where
  "format_g (Fin x) =
     (if x = 0 then ''0'' else if x < 0 then ''-'' @ format_g_pos (- x) else format_g_pos x)"
| "format_g PosInf = ''+Inf''"
| "format_g NegInf = ''-Inf''"
| "format_g NaN = ''NaN''"


end
