(* ===== verification/Sha256.thy ===== *)
theory Sha256
  imports Prelude "HOL-Library.Word"
begin

unbundle bit_operations_syntax

text \<open>
  \<open>crypto/sha256.Sum256\<close> and \<open>encoding/hex.EncodeToString\<close> of the Go standard library, the two
  calls of \<open>digest\<close> in \<open>attestation/statement.go\<close>: the hash function of FIPS 180-4 on 32-bit
  words, whose \<open>+\<close> wraps, and lower-case hexadecimal. Everything computes, so a digest
  recorded in the repository is recomputed by the kernel (\<open>code_simp\<close>).
\<close>

type_synonym u32 = "32 word"

subsection \<open>The compression function\<close>

text \<open>
  One constant per prime from 2 to 311: the first 32 bits of the fractional part of its cube
  root, named by the primes they belong to.
\<close>

definition cbrt_2_19 :: "u32 list" where
  "cbrt_2_19 = [0x428a2f98, 0x71374491, 0xb5c0fbcf, 0xe9b5dba5,
     0x3956c25b, 0x59f111f1, 0x923f82a4, 0xab1c5ed5]"

definition cbrt_23_53 :: "u32 list" where
  "cbrt_23_53 = [0xd807aa98, 0x12835b01, 0x243185be, 0x550c7dc3,
     0x72be5d74, 0x80deb1fe, 0x9bdc06a7, 0xc19bf174]"

definition cbrt_59_89 :: "u32 list" where
  "cbrt_59_89 = [0xe49b69c1, 0xefbe4786, 0x0fc19dc6, 0x240ca1cc,
     0x2de92c6f, 0x4a7484aa, 0x5cb0a9dc, 0x76f988da]"

definition cbrt_97_131 :: "u32 list" where
  "cbrt_97_131 = [0x983e5152, 0xa831c66d, 0xb00327c8, 0xbf597fc7,
     0xc6e00bf3, 0xd5a79147, 0x06ca6351, 0x14292967]"

definition cbrt_137_173 :: "u32 list" where
  "cbrt_137_173 = [0x27b70a85, 0x2e1b2138, 0x4d2c6dfc, 0x53380d13,
     0x650a7354, 0x766a0abb, 0x81c2c92e, 0x92722c85]"

definition cbrt_179_223 :: "u32 list" where
  "cbrt_179_223 = [0xa2bfe8a1, 0xa81a664b, 0xc24b8b70, 0xc76c51a3,
     0xd192e819, 0xd6990624, 0xf40e3585, 0x106aa070]"

definition cbrt_227_263 :: "u32 list" where
  "cbrt_227_263 = [0x19a4c116, 0x1e376c08, 0x2748774c, 0x34b0bcb5,
     0x391c0cb3, 0x4ed8aa4a, 0x5b9cca4f, 0x682e6ff3]"

definition cbrt_269_311 :: "u32 list" where
  "cbrt_269_311 = [0x748f82ee, 0x78a5636f, 0x84c87814, 0x8cc70208,
     0x90befffa, 0xa4506ceb, 0xbef9a3f7, 0xc67178f2]"

definition round_constants :: "u32 list" where
  "round_constants =
     cbrt_2_19 @ cbrt_23_53 @ cbrt_59_89 @ cbrt_97_131 @
     cbrt_137_173 @ cbrt_179_223 @ cbrt_227_263 @ cbrt_269_311"

definition rotr :: "nat \<Rightarrow> u32 \<Rightarrow> u32" where
  "rotr n x = drop_bit n x OR push_bit (32 - n) x"

definition big_sigma0 :: "u32 \<Rightarrow> u32" where
  "big_sigma0 x = rotr 2 x XOR rotr 13 x XOR rotr 22 x"

definition big_sigma1 :: "u32 \<Rightarrow> u32" where
  "big_sigma1 x = rotr 6 x XOR rotr 11 x XOR rotr 25 x"

definition small_sigma0 :: "u32 \<Rightarrow> u32" where
  "small_sigma0 x = rotr 7 x XOR rotr 18 x XOR drop_bit 3 x"

definition small_sigma1 :: "u32 \<Rightarrow> u32" where
  "small_sigma1 x = rotr 17 x XOR rotr 19 x XOR drop_bit 10 x"

definition sha_ch :: "u32 \<Rightarrow> u32 \<Rightarrow> u32 \<Rightarrow> u32" where
  "sha_ch e f g = (e AND f) XOR (NOT e AND g)"

definition sha_maj :: "u32 \<Rightarrow> u32 \<Rightarrow> u32 \<Rightarrow> u32" where
  "sha_maj a b c = (a AND b) XOR (a AND c) XOR (b AND c)"

datatype hstate = HState u32 u32 u32 u32 u32 u32 u32 u32

text \<open>The sixteen most recent words of the message schedule.\<close>

datatype window = Window u32 u32 u32 u32 u32 u32 u32 u32 u32 u32 u32 u32 u32 u32 u32 u32

fun shift_state :: "u32 \<Rightarrow> u32 \<Rightarrow> hstate \<Rightarrow> hstate" where
  "shift_state t1 t2 (HState a b c d e f g h) = HState (t1 + t2) a b c (d + t1) e f g"

fun sha_round :: "u32 \<Rightarrow> u32 \<Rightarrow> hstate \<Rightarrow> hstate" where
  "sha_round k w (HState a b c d e f g h) =
     shift_state (h + big_sigma1 e + sha_ch e f g + k + w) (big_sigma0 a + sha_maj a b c)
       (HState a b c d e f g h)"

fun sha_rounds :: "u32 list \<Rightarrow> window \<Rightarrow> hstate \<Rightarrow> hstate" where
  "sha_rounds [] w st = st"
| "sha_rounds (k # ks) (Window w0 w1 w2 w3 w4 w5 w6 w7 w8 w9 w10 w11 w12 w13 w14 w15) st =
     sha_rounds ks
       (Window w1 w2 w3 w4 w5 w6 w7 w8 w9 w10 w11 w12 w13 w14 w15
          (small_sigma1 w14 + w9 + small_sigma0 w1 + w0))
       (sha_round k w0 st)"

fun add_state :: "hstate \<Rightarrow> hstate \<Rightarrow> hstate" where
  "add_state (HState a b c d e f g h) (HState a' b' c' d' e' f' g' h') =
     HState (a + a') (b + b') (c + c') (d + d') (e + e') (f + f') (g + g') (h + h')"

definition compress :: "hstate \<Rightarrow> window \<Rightarrow> hstate" where
  "compress st w = add_state st (sha_rounds round_constants w st)"

definition initial_state :: hstate where
  "initial_state =
     HState 0x6a09e667 0xbb67ae85 0x3c6ef372 0xa54ff53a 0x510e527f 0x9b05688c 0x1f83d9ab 0x5be0cd19"

subsection \<open>Padding and the digest\<close>

text \<open>
  The message, a byte 0x80, zero bytes up to 56 modulo 64, and the length in bits as a
  big-endian 64-bit integer.
\<close>

definition be64 :: "nat \<Rightarrow> bytes" where
  "be64 n = map (\<lambda>i. char_of (n div 256 ^ i mod 256)) [7, 6, 5, 4, 3, 2, 1, 0]"

definition pad :: "bytes \<Rightarrow> bytes" where
  "pad m = m @ [CHR 0x80] @ replicate ((119 - length m mod 64) mod 64) (CHR 0x00) @
     be64 (8 * length m mod 2 ^ 64)"

definition be_word :: "char \<Rightarrow> char \<Rightarrow> char \<Rightarrow> char \<Rightarrow> u32" where
  "be_word a b c d =
     of_nat (((of_char a * 256 + of_char b) * 256 + of_char c) * 256 + of_char d)"

fun words_of :: "bytes \<Rightarrow> u32 list" where
  "words_of (a # b # c # d # rest) = be_word a b c d # words_of rest"
| "words_of _ = []"

definition window_of :: "u32 list \<Rightarrow> window" where
  "window_of ws =
     Window (ws ! 0) (ws ! 1) (ws ! 2) (ws ! 3) (ws ! 4) (ws ! 5) (ws ! 6) (ws ! 7)
       (ws ! 8) (ws ! 9) (ws ! 10) (ws ! 11) (ws ! 12) (ws ! 13) (ws ! 14) (ws ! 15)"

primrec windows :: "nat \<Rightarrow> u32 list \<Rightarrow> window list" where
  "windows 0 ws = []"
| "windows (Suc n) ws = window_of (take 16 ws) # windows n (drop 16 ws)"

fun hash_blocks :: "hstate \<Rightarrow> window list \<Rightarrow> hstate" where
  "hash_blocks st [] = st"
| "hash_blocks st (w # ws) = hash_blocks (compress st w) ws"

definition word_bytes :: "u32 \<Rightarrow> bytes" where
  "word_bytes w = map (\<lambda>i. char_of (unat w div 256 ^ i mod 256)) [3, 2, 1, 0]"

fun state_bytes :: "hstate \<Rightarrow> bytes" where
  "state_bytes (HState a b c d e f g h) =
     concat (map word_bytes [a, b, c, d, e, f, g, h])"

definition sum256 :: "bytes \<Rightarrow> bytes" where
  "sum256 m =
     state_bytes (hash_blocks initial_state
       (windows (length (pad m) div 64) (words_of (pad m))))"

subsection \<open>Hexadecimal\<close>

definition hex_digits :: string where
  "hex_digits = ''0123456789abcdef''"

definition hex_byte :: "char \<Rightarrow> string" where
  "hex_byte c = [hex_digits ! (of_char c div 16), hex_digits ! (of_char c mod 16)]"

definition encode_hex :: "bytes \<Rightarrow> string" where
  "encode_hex bs = concat (map hex_byte bs)"

subsection \<open>Facts\<close>

lemma length_be64 [simp]: "length (be64 n) = 8"
  by (simp add: be64_def)

text \<open>Padding fills whole blocks of 64 bytes.\<close>

lemma length_pad: "64 dvd length (pad m)"
proof -
  define q r where "q = length m div 64" and "r = length m mod 64"
  have len: "length m = 64 * q + r" and r: "r < 64"
    by (simp_all add: q_def r_def)
  have "(119 - r) mod 64 = (if r \<le> 55 then 55 - r else 119 - r)"
  proof (cases "r \<le> 55")
    case True
    then have "119 - r = 64 + (55 - r)" by simp
    then have "(119 - r) mod 64 = (55 - r) mod 64" by (simp only: mod_add_self1)
    with True show ?thesis by simp
  qed (use r in simp)
  then have "length (pad m) = 64 * (q + (if r \<le> 55 then 1 else 2))"
    using len r by (simp add: pad_def r_def [symmetric])
  then show ?thesis by simp
qed

lemma length_word_bytes [simp]: "length (word_bytes w) = 4"
  by (simp add: word_bytes_def)

lemma length_state_bytes [simp]: "length (state_bytes st) = 32"
  by (cases st) simp

lemma length_sum256 [simp]: "length (sum256 m) = 32"
  by (simp add: sum256_def)

lemma length_encode_hex [simp]: "length (encode_hex bs) = 2 * length bs"
  by (induction bs) (auto simp: encode_hex_def hex_byte_def)

lemma of_char_256: "of_char c < (256 :: nat)"
  using nat_of_char_less_256 [of c] by simp

lemma hex_digit_in: "i < 16 \<Longrightarrow> hex_digits ! i \<in> set hex_digits"
  by (rule nth_mem) (simp add: hex_digits_def)

lemma encode_hex_digits: "set (encode_hex bs) \<subseteq> set hex_digits"
proof (induction bs)
  case (Cons c bs)
  have "(of_char c :: nat) div 16 < 16" "(of_char c :: nat) mod 16 < 16"
    using of_char_256 [of c] by (simp_all add: div_less_iff_less_mult)
  with Cons show ?case
    by (auto simp: encode_hex_def hex_byte_def hex_digit_in)
qed (simp add: encode_hex_def)

lemma distinct_hex_digits: "distinct hex_digits"
  by (simp add: hex_digits_def)

lemma hex_byte_inj: "hex_byte c = hex_byte d \<longleftrightarrow> c = d"
proof
  assume eq: "hex_byte c = hex_byte d"
  have len: "length hex_digits = 16" by (simp add: hex_digits_def)
  have b: "(of_char c :: nat) div 16 < 16" "(of_char d :: nat) div 16 < 16"
    using of_char_256 [of c] of_char_256 [of d] by (simp_all add: div_less_iff_less_mult)
  from eq have "hex_digits ! (of_char c div 16) = hex_digits ! (of_char d div 16)"
    and "hex_digits ! (of_char c mod 16) = hex_digits ! (of_char d mod 16)"
    by (simp_all add: hex_byte_def)
  with b have "(of_char c :: nat) div 16 = of_char d div 16"
    and "(of_char c :: nat) mod 16 = of_char d mod 16"
    by (simp_all add: nth_eq_iff_index_eq [OF distinct_hex_digits] len)
  then have "(of_char c :: nat) = of_char d" by (metis div_mult_mod_eq)
  then show "c = d" by simp
qed simp

text \<open>Hexadecimal loses nothing: equal encodings are encodings of equal bytes.\<close>

lemma encode_hex_inj: "encode_hex xs = encode_hex ys \<longleftrightarrow> xs = ys"
proof
  have len: "length xs = length ys" if "encode_hex xs = encode_hex ys" for xs ys
    using that length_encode_hex by (metis mult_cancel1 zero_neq_numeral)
  assume "encode_hex xs = encode_hex ys"
  with len have "length xs = length ys" by blast
  then show "xs = ys" using \<open>encode_hex xs = encode_hex ys\<close>
  proof (induction xs ys rule: list_induct2)
    case (Cons x xs y ys)
    then have "hex_byte x @ encode_hex xs = hex_byte y @ encode_hex ys"
      by (simp add: encode_hex_def)
    then have "hex_byte x = hex_byte y" "encode_hex xs = encode_hex ys"
      by (auto simp: hex_byte_def)
    with Cons.IH show ?case by (simp add: hex_byte_inj)
  qed simp
qed simp

subsection \<open>Evaluation\<close>

text \<open>The rotations with their multipliers written out, which the simplifier evaluates faster.\<close>

lemma big_sigma0_code [code]:
  "big_sigma0 x = (drop_bit 2 x OR x * 0x40000000) XOR (drop_bit 13 x OR x * 0x80000) XOR
     (drop_bit 22 x OR x * 0x400)"
  by (simp add: big_sigma0_def rotr_def push_bit_eq_mult mult.commute)

lemma big_sigma1_code [code]:
  "big_sigma1 x = (drop_bit 6 x OR x * 0x4000000) XOR (drop_bit 11 x OR x * 0x200000) XOR
     (drop_bit 25 x OR x * 0x80)"
  by (simp add: big_sigma1_def rotr_def push_bit_eq_mult mult.commute)

lemma small_sigma0_code [code]:
  "small_sigma0 x = (drop_bit 7 x OR x * 0x2000000) XOR (drop_bit 18 x OR x * 0x4000) XOR
     drop_bit 3 x"
  by (simp add: small_sigma0_def rotr_def push_bit_eq_mult mult.commute)

lemma small_sigma1_code [code]:
  "small_sigma1 x = (drop_bit 17 x OR x * 0x8000) XOR (drop_bit 19 x OR x * 0x2000) XOR
     drop_bit 10 x"
  by (simp add: small_sigma1_def rotr_def push_bit_eq_mult mult.commute)

lemma replicate_numeral_step:
  "replicate (numeral k) x = x # replicate (pred_numeral k) x"
  by (simp add: numeral_eq_Suc)

lemmas padding_eval = pad_def be64_def be_word_def replicate_numeral_step

lemmas hex_eval = encode_hex_def word_bytes_def hex_byte_def hex_digits_def

text \<open>A message of one block: evaluate its words, then the compression, then the digits.\<close>

lemma sum256_one_block:
  assumes "length (pad m) div 64 = 1" "words_of (pad m) = ws"
    "hash_blocks initial_state (windows 1 ws) = st"
  shows "sum256 m = state_bytes st"
  using assms by (simp add: sum256_def)

text \<open>The published digest of the message \<open>abc\<close>.\<close>

lemma abc_block:
  "hash_blocks initial_state
     (windows 1 [0x61626380, 0, 0, 0, 0, 0, 0, 0, 0, 0, 0, 0, 0, 0, 0, 24]) =
   HState 0xba7816bf 0x8f01cfea 0x414140de 0x5dae2223 0xb00361a3 0x96177a9c 0xb410ff61 0xf20015ad"
  by code_simp

lemma sum256_abc:
  "encode_hex (sum256 ''abc'') =
     ''ba7816bf8f01cfea414140de5dae2223b00361a396177a9cb410ff61f20015ad''"
proof -
  have "words_of (pad ''abc'') = [0x61626380, 0, 0, 0, 0, 0, 0, 0, 0, 0, 0, 0, 0, 0, 0, 24]"
    by (simp add: padding_eval)
  from sum256_one_block [OF _ this abc_block] show ?thesis
    by (simp add: hex_eval pad_def)
qed

end
