(* ===== verification/Attestation.thy ===== *)
theory Attestation
  imports GoMap Float64 Sha256
begin

text \<open>
  The statement types of \<open>attestation/statement.go\<close>, the subject a producer writes, and the
  digest that ties a statement to its target.

  A Go struct is a record, with its fields in the source's order. A pointer that may be
  nil (\<open>*Score\<close>, \<open>*Plan\<close>, \<open>*ServerIdentity\<close>) is an \<open>option\<close>; a slice is a list, so a nil
  and an empty slice are the same value, which no operation modelled here tells apart;
  a map is a \<open>gomap\<close>. Go's \<open>int\<close> is \<open>int\<close>: nothing here comes near 64 bits (the only
  arithmetic counts list elements).
\<close>

definition StatementType :: string where
  "StatementType = ''https://in-toto.io/Statement/v1''"

definition PredicateType :: string where
  "PredicateType = ''https://scoutmcp.io/attestation/mcp-evaluation/v1''"

definition SubjectKindDescriptor :: string where
  "SubjectKindDescriptor = ''mcp-target-descriptor''"

subsection \<open>Data\<close>

record Subject =
  sName :: string
  sDigest :: "string gomap"

record ServerIdentity =
  siName :: string
  siVersion :: string
  siProtocol :: string

record Target =
  tTransport :: string
  tEndpoint :: string
  tServer :: "ServerIdentity option"

record Basis =
  SpecRevision :: string
  Rubric :: string
  CheckInventory :: string

record Instrument =
  iName :: string
  iVersion :: string
  iSchemaVersion :: int

record Verdict =
  vID :: string
  vPhase :: string
  vStatus :: string
  vSeverity :: string
  vEvidence :: "string list"
  vDoc :: string

record Counts =
  nPass :: int
  nWarn :: int
  nFail :: int
  nSkip :: int
  nInfo :: int

record Score =
  scTotal :: float64
  scGrade :: string
  scAssessed :: int
  scOf :: int
  scBy :: "float64 gomap"

text \<open>
  \<open>time.Time\<close> as far as the program looks at it: the instant, in seconds and nanoseconds
  from 1 January of the year 1, 00:00:00 UTC, and the offset it is shown in. \<open>IsZero\<close> is
  about the instant.
\<close>

record Time =
  tmSec :: int
  tmNsec :: int
  tmOffset :: int

definition is_zero_time :: "Time \<Rightarrow> bool" where
  "is_zero_time t \<longleftrightarrow> tmSec t = 0 \<and> tmNsec t = 0"

text \<open>
  \<open>json.RawMessage\<close> keeps a JSON value undecoded; the bytes are a string here. No operation
  modelled here reads them.
\<close>

record Plan =
  plSpec :: bytes
  plCredentials :: string
  plByValue :: "string list"
  plOS :: string
  plArch :: string
  plKernel :: string

record Evaluation =
  SubjectKind :: string
  EvTarget :: Target
  JudgedAgainst :: Basis
  EvInstrument :: Instrument
  RanAt :: Time
  Took :: string
  Verdicts :: "Verdict list"
  EvCounts :: Counts
  EvScore :: "Score option"
  Blocked :: string
  TraceID :: string
  EvPlan :: "Plan option"

record Statement =
  stType :: string
  stSubject :: "Subject list"
  stPredicateType :: string
  Predicate :: Evaluation

subsection \<open>The subject of a target\<close>

definition descriptor :: "Target \<Rightarrow> string" where
  "descriptor t = tTransport t @ ''\<newline>'' @ trim_space (tEndpoint t)"

definition digest :: "string \<Rightarrow> string" where
  "digest s = encode_hex (sum256 s)"

definition SubjectFor :: "Target \<Rightarrow> Subject" where
  "SubjectFor t =
     \<lparr>sName = tEndpoint t, sDigest = m_put ''sha256'' (digest (descriptor t)) m_empty\<rparr>"

text \<open>The descriptor of the two fields \<open>Covers\<close> is asked about.\<close>

definition descriptor_of :: "string \<Rightarrow> string \<Rightarrow> string" where
  "descriptor_of tr ep = descriptor \<lparr>tTransport = tr, tEndpoint = ep, tServer = None\<rparr>"

definition subject_digest :: "Subject \<Rightarrow> string" where
  "subject_digest s = m_str (sDigest s) ''sha256''"

subsection \<open>Facts\<close>

lemma length_digest [simp]: "length (digest s) = 64"
  by (simp add: digest_def)

lemma digest_nonempty [simp]: "digest s \<noteq> []"
  using length_digest [of s] by (metis list.size(3) zero_neq_numeral)

lemma digest_hex: "set (digest s) \<subseteq> set ''0123456789abcdef''"
  using encode_hex_digits [of "sum256 s"] by (simp add: digest_def hex_digits_def)

lemma digest_eq_iff: "digest s = digest s' \<longleftrightarrow> sum256 s = sum256 s'"
  by (simp add: digest_def encode_hex_inj)

lemma descriptor_eq: "descriptor t = descriptor_of (tTransport t) (tEndpoint t)"
  by (simp add: descriptor_of_def descriptor_def)

lemma subject_digest_SubjectFor [simp]: "subject_digest (SubjectFor t) = digest (descriptor t)"
  by (simp add: subject_digest_def SubjectFor_def m_str_def)

lemma append_newline_inj:
  assumes "CHR 0x0A \<notin> set a" "CHR 0x0A \<notin> set a'" "a @ CHR 0x0A # b = a' @ CHR 0x0A # b'"
  shows "a = a' \<and> b = b'"
  using assms
proof (induction a arbitrary: a')
  case Nil
  then show ?case by (cases a') auto
next
  case (Cons x a)
  then show ?case by (cases a') auto
qed

lemma descriptor_of_inj:
  assumes "CHR 0x0A \<notin> set tr" "CHR 0x0A \<notin> set tr'"
  shows "descriptor_of tr ep = descriptor_of tr' ep' \<longleftrightarrow>
         tr = tr' \<and> trim_space ep = trim_space ep'"
  using append_newline_inj [OF assms] by (auto simp: descriptor_of_def descriptor_def)

end
