(* ===== verification/Validate.thy ===== *)
theory Validate
  imports Attestation
begin

text \<open>
  \<open>Statement.Validate\<close>, \<open>VerdictFor\<close> and \<open>Covers\<close> of \<open>attestation/verify.go\<close>. \<open>Validate\<close> collects a
  list of problems through its closure \<open>note\<close> and turns a non-empty list into one error.
  A problem is a constructor with the arguments of its format string; \<open>problem_text\<close> is
  the string \<open>note\<close> appends.
\<close>

datatype problem =
    BadType string
  | BadPredicateType string
  | SubjectUnnamed
  | SubjectMisnamed string string
  | NoDigest
  | DigestMismatch
  | NoSubject
  | ManySubjects nat
  | BadSubjectKind string
  | NoEndpoint
  | NoTransport
  | UnknownTransport string
  | InstrumentUnidentified
  | NoRunTime
  | NoVerdicts
  | NoCheckInventory
  | ScoreWithoutRubric
  | VerdictWithoutID nat
  | VerdictBadStatus string string
  | CountsDisagree Counts Counts

subsection \<open>The checks, in the order of the code\<close>

definition check_types :: "Statement \<Rightarrow> problem list" where
  "check_types s =
     (if stType s \<noteq> StatementType then [BadType (stType s)] else []) @
     (if stPredicateType s \<noteq> PredicateType then [BadPredicateType (stPredicateType s)] else [])"

definition check_subject :: "Statement \<Rightarrow> problem list" where
  "check_subject s =
     (case stSubject s of
        [sub] \<Rightarrow>
          (let want = trim_space (tEndpoint (EvTarget (Predicate s))) in
             if trim_space (sName sub) = [] then [SubjectUnnamed]
             else if trim_space (sName sub) \<noteq> want then [SubjectMisnamed (sName sub) want]
             else []) @
          (let got = subject_digest sub in
             if got = [] then [NoDigest]
             else if got \<noteq> digest (descriptor (EvTarget (Predicate s))) then [DigestMismatch]
             else [])
      | [] \<Rightarrow> [NoSubject]
      | subs \<Rightarrow> [ManySubjects (length subs)])"

definition check_target :: "Evaluation \<Rightarrow> problem list" where
  "check_target p =
     (if SubjectKind p \<noteq> SubjectKindDescriptor then [BadSubjectKind (SubjectKind p)] else []) @
     (if trim_space (tEndpoint (EvTarget p)) = [] then [NoEndpoint] else []) @
     (let tr = tTransport (EvTarget p) in
        if tr = ''http'' \<or> tr = ''stdio'' then []
        else if tr = [] then [NoTransport]
        else [UnknownTransport tr])"

definition check_run :: "Evaluation \<Rightarrow> problem list" where
  "check_run p =
     (if iName (EvInstrument p) = [] \<or> iVersion (EvInstrument p) = []
      then [InstrumentUnidentified] else []) @
     (if is_zero_time (RanAt p) then [NoRunTime] else []) @
     (if Verdicts p = [] then [NoVerdicts] else [])"

definition check_basis :: "Evaluation \<Rightarrow> problem list" where
  "check_basis p =
     (if CheckInventory (JudgedAgainst p) = [] then [NoCheckInventory] else []) @
     (if EvScore p \<noteq> None \<and> Rubric (JudgedAgainst p) = [] then [ScoreWithoutRubric] else [])"

text \<open>
  The loop over the verdicts: it carries the counts and the problems. A verdict without an
  id is reported and skipped by \<open>continue\<close>, so it is not counted.
\<close>

definition zero_counts :: Counts where
  "zero_counts = \<lparr>nPass = 0, nWarn = 0, nFail = 0, nSkip = 0, nInfo = 0\<rparr>"

definition count_verdict :: "nat \<times> Verdict \<Rightarrow> Counts \<times> problem list \<Rightarrow> Counts \<times> problem list" where
  "count_verdict iv acc =
     (case iv of (i, v) \<Rightarrow> case acc of (c, ps) \<Rightarrow>
       if vID v = [] then (c, ps @ [VerdictWithoutID i])
       else if vStatus v = ''pass'' then (c\<lparr>nPass := nPass c + 1\<rparr>, ps)
       else if vStatus v = ''warn'' then (c\<lparr>nWarn := nWarn c + 1\<rparr>, ps)
       else if vStatus v = ''fail'' then (c\<lparr>nFail := nFail c + 1\<rparr>, ps)
       else if vStatus v = ''skip'' then (c\<lparr>nSkip := nSkip c + 1\<rparr>, ps)
       else if vStatus v = ''info'' then (c\<lparr>nInfo := nInfo c + 1\<rparr>, ps)
       else (c, ps @ [VerdictBadStatus (vID v) (vStatus v)]))"

definition count_verdicts :: "Verdict list \<Rightarrow> Counts \<times> problem list" where
  "count_verdicts vs = fold count_verdict (indexed vs) (zero_counts, [])"

definition check_verdicts :: "Evaluation \<Rightarrow> problem list" where
  "check_verdicts p =
     (case count_verdicts (Verdicts p) of (counted, ps) \<Rightarrow>
       ps @ (if Verdicts p \<noteq> [] \<and> counted \<noteq> EvCounts p
             then [CountsDisagree (EvCounts p) counted] else []))"

text \<open>The problems \<open>Validate\<close> collects; the error is nil exactly when there are none.\<close>

definition problems :: "Statement \<Rightarrow> problem list" where
  "problems s =
     check_types s @ check_subject s @ check_target (Predicate s) @ check_run (Predicate s) @
     check_basis (Predicate s) @ check_verdicts (Predicate s)"

definition Validate :: "Statement \<Rightarrow> problem list option" where
  "Validate s = (let ps = problems s in if ps = [] then None else Some ps)"

subsection \<open>The error text\<close>

definition counts_text :: "Counts \<Rightarrow> string" where
  "counts_text c =
     ''{Pass:'' @ show_int (nPass c) @ '' Warn:'' @ show_int (nWarn c) @ '' Fail:'' @
     show_int (nFail c) @ '' Skip:'' @ show_int (nSkip c) @ '' Info:'' @ show_int (nInfo c) @ ''}''"

definition em_dash :: string where
  "em_dash = [CHR 0xE2, CHR 0x80, CHR 0x94]"

fun problem_text :: "(nat \<Rightarrow> bool) \<Rightarrow> problem \<Rightarrow> string" where
  "problem_text u (BadType t) = ''_type is '' @ go_quote u t @ '', want '' @ go_quote u StatementType"
| "problem_text u (BadPredicateType t) =
     ''predicateType is '' @ go_quote u t @ '', want '' @ go_quote u PredicateType"
| "problem_text u SubjectUnnamed = ''the subject has no name''"
| "problem_text u (SubjectMisnamed n w) =
     ''the subject is named '' @ go_quote u n @ '' but the predicate is about '' @ go_quote u w"
| "problem_text u NoDigest = ''the subject has no sha256 digest''"
| "problem_text u DigestMismatch =
     ''the subject digest does not cover the target it names: a statement whose predicate was edited after the fact''"
| "problem_text u NoSubject = ''no subject: the statement is about nothing''"
| "problem_text u (ManySubjects n) =
     show_nat n @ '' subjects: a scout evaluation is about one server''"
| "problem_text u (BadSubjectKind k) =
     ''subjectKind is '' @ go_quote u k @ '', want '' @ go_quote u SubjectKindDescriptor @ '' '' @ em_dash @
     '' a reader would otherwise take the digest for an artifact hash''"
| "problem_text u NoEndpoint = ''the target has no endpoint''"
| "problem_text u NoTransport =
     ''the target has no transport, and an HTTP run and a stdio run do not contain the same checks''"
| "problem_text u (UnknownTransport t) = ''unknown transport '' @ go_quote u t"
| "problem_text u InstrumentUnidentified = ''the instrument is not identified''"
| "problem_text u NoRunTime =
     ''no run time: a verdict about a live service is a verdict about a moment''"
| "problem_text u NoVerdicts = ''no verdicts''"
| "problem_text u NoCheckInventory =
     ''judgedAgainst.checkInventory is empty: the ids cannot be resolved to a catalogue''"
| "problem_text u ScoreWithoutRubric =
     ''a score with no rubric version, which is a number nothing can be compared to''"
| "problem_text u (VerdictWithoutID i) = ''verdict '' @ show_nat i @ '' has no id''"
| "problem_text u (VerdictBadStatus i st) = ''verdict '' @ i @ '' has status '' @ go_quote u st"
| "problem_text u (CountsDisagree says are) =
     ''the counts disagree with the verdicts: says '' @ counts_text says @ '', the verdicts are '' @
     counts_text are"

definition problems_text :: "(nat \<Rightarrow> bool) \<Rightarrow> problem list \<Rightarrow> string" where
  "problems_text u ps = ''attestation: '' @ join (map (problem_text u) ps) ''; ''"

subsection \<open>\<open>VerdictFor\<close> and \<open>Covers\<close>\<close>

text \<open>The error carries the id it was asked for, wrapped around \<open>ErrNoSuchCheck\<close>.\<close>

datatype lookup_error = ErrNoSuchCheck string

definition VerdictFor :: "Statement \<Rightarrow> string \<Rightarrow> lookup_error + Verdict" where
  "VerdictFor s i =
     (case List.find (\<lambda>v. vID v = i) (Verdicts (Predicate s)) of
        Some v \<Rightarrow> Inr v
      | None \<Rightarrow> Inl (ErrNoSuchCheck i))"

definition lookup_error_text :: "lookup_error \<Rightarrow> string" where
  "lookup_error_text e =
     (case e of ErrNoSuchCheck i \<Rightarrow>
       ''attestation: the statement carries no verdict for that check: '' @ i)"

definition Covers :: "Statement \<Rightarrow> string \<Rightarrow> string \<Rightarrow> bool" where
  "Covers s tr ep =
     (case stSubject s of
        [sub] \<Rightarrow> subject_digest sub = digest (descriptor_of tr ep)
      | _ \<Rightarrow> False)"

subsection \<open>What a valid statement is\<close>

text \<open>
  The specification, one clause per guarantee of the format: the two type URIs, one subject
  that names the target's endpoint and whose digest is the digest of the target's
  descriptor, a known transport, an identified instrument, a moment, the check inventory, a
  rubric behind any score, identified verdicts of the five statuses, and counts that are
  the number of verdicts of each status.
\<close>

definition statuses :: "string list" where
  "statuses = [''pass'', ''warn'', ''fail'', ''skip'', ''info'']"

definition tally :: "Verdict list \<Rightarrow> string \<Rightarrow> int" where
  "tally vs st = int (count_list (map vStatus vs) st)"

definition counts_of :: "Verdict list \<Rightarrow> Counts" where
  "counts_of vs =
     \<lparr>nPass = tally vs ''pass'', nWarn = tally vs ''warn'', nFail = tally vs ''fail'',
      nSkip = tally vs ''skip'', nInfo = tally vs ''info''\<rparr>"

definition subject_ok :: "Statement \<Rightarrow> bool" where
  "subject_ok s \<longleftrightarrow>
     (\<exists>sub. stSubject s = [sub] \<and>
       trim_space (sName sub) = trim_space (tEndpoint (EvTarget (Predicate s))) \<and>
       subject_digest sub = digest (descriptor (EvTarget (Predicate s))))"

definition verdict_ok :: "Verdict \<Rightarrow> bool" where
  "verdict_ok v \<longleftrightarrow> vID v \<noteq> [] \<and> vStatus v \<in> set statuses"

definition evaluation_ok :: "Evaluation \<Rightarrow> bool" where
  "evaluation_ok p \<longleftrightarrow>
     SubjectKind p = SubjectKindDescriptor \<and>
     trim_space (tEndpoint (EvTarget p)) \<noteq> [] \<and>
     tTransport (EvTarget p) \<in> {''http'', ''stdio''} \<and>
     iName (EvInstrument p) \<noteq> [] \<and> iVersion (EvInstrument p) \<noteq> [] \<and>
     \<not> is_zero_time (RanAt p) \<and>
     Verdicts p \<noteq> [] \<and> list_all verdict_ok (Verdicts p) \<and>
     EvCounts p = counts_of (Verdicts p) \<and>
     CheckInventory (JudgedAgainst p) \<noteq> [] \<and>
     (EvScore p = None \<or> Rubric (JudgedAgainst p) \<noteq> [])"

definition interpretable :: "Statement \<Rightarrow> bool" where
  "interpretable s \<longleftrightarrow>
     stType s = StatementType \<and> stPredicateType s = PredicateType \<and> subject_ok s \<and>
     evaluation_ok (Predicate s)"

subsection \<open>What a problem means\<close>

text \<open>
  \<open>defect s p\<close>: the statement has the defect the problem names. It is written without the
  order of the checks or the loop, so that \<open>problems\<close> can be compared with it.
\<close>

definition one_subject :: "Statement \<Rightarrow> (Subject \<Rightarrow> bool) \<Rightarrow> bool" where
  "one_subject s P \<longleftrightarrow> (\<exists>sub. stSubject s = [sub] \<and> P sub)"

definition counted_verdicts :: "Verdict list \<Rightarrow> Verdict list" where
  "counted_verdicts vs = filter (\<lambda>v. vID v \<noteq> []) vs"

fun defect :: "Statement \<Rightarrow> problem \<Rightarrow> bool" where
  "defect s (BadType t) = (t = stType s \<and> t \<noteq> StatementType)"
| "defect s (BadPredicateType t) = (t = stPredicateType s \<and> t \<noteq> PredicateType)"
| "defect s SubjectUnnamed = one_subject s (\<lambda>sub. trim_space (sName sub) = [])"
| "defect s (SubjectMisnamed n w) =
     (w = trim_space (tEndpoint (EvTarget (Predicate s))) \<and>
      one_subject s (\<lambda>sub. n = sName sub \<and> trim_space n \<noteq> [] \<and> trim_space n \<noteq> w))"
| "defect s NoDigest = one_subject s (\<lambda>sub. subject_digest sub = [])"
| "defect s DigestMismatch =
     one_subject s (\<lambda>sub. subject_digest sub \<noteq> [] \<and>
       subject_digest sub \<noteq> digest (descriptor (EvTarget (Predicate s))))"
| "defect s NoSubject = (stSubject s = [])"
| "defect s (ManySubjects n) = (n = length (stSubject s) \<and> 1 < n)"
| "defect s (BadSubjectKind k) = (k = SubjectKind (Predicate s) \<and> k \<noteq> SubjectKindDescriptor)"
| "defect s NoEndpoint = (trim_space (tEndpoint (EvTarget (Predicate s))) = [])"
| "defect s NoTransport = (tTransport (EvTarget (Predicate s)) = [])"
| "defect s (UnknownTransport t) =
     (t = tTransport (EvTarget (Predicate s)) \<and> t \<notin> {[], ''http'', ''stdio''})"
| "defect s InstrumentUnidentified =
     ([] \<in> {iName (EvInstrument (Predicate s)), iVersion (EvInstrument (Predicate s))})"
| "defect s NoRunTime = is_zero_time (RanAt (Predicate s))"
| "defect s NoVerdicts = (Verdicts (Predicate s) = [])"
| "defect s NoCheckInventory = (CheckInventory (JudgedAgainst (Predicate s)) = [])"
| "defect s ScoreWithoutRubric =
     (EvScore (Predicate s) \<noteq> None \<and> Rubric (JudgedAgainst (Predicate s)) = [])"
| "defect s (VerdictWithoutID i) =
     (i < length (Verdicts (Predicate s)) \<and> vID (Verdicts (Predicate s) ! i) = [])"
| "defect s (VerdictBadStatus i st) =
     (i \<noteq> [] \<and> st \<notin> set statuses \<and>
      (\<exists>v\<in>set (Verdicts (Predicate s)). vID v = i \<and> vStatus v = st))"
| "defect s (CountsDisagree says are) =
     (Verdicts (Predicate s) \<noteq> [] \<and> says = EvCounts (Predicate s) \<and>
      are = counts_of (counted_verdicts (Verdicts (Predicate s))) \<and> says \<noteq> are)"

subsection \<open>The verdict loop\<close>

definition add_counts :: "Counts \<Rightarrow> Counts \<Rightarrow> Counts" where
  "add_counts a b =
     \<lparr>nPass = nPass a + nPass b, nWarn = nWarn a + nWarn b, nFail = nFail a + nFail b,
      nSkip = nSkip a + nSkip b, nInfo = nInfo a + nInfo b\<rparr>"

definition verdict_problems :: "nat \<times> Verdict \<Rightarrow> problem list" where
  "verdict_problems iv =
     (if vID (snd iv) = [] then [VerdictWithoutID (fst iv)]
      else if vStatus (snd iv) \<in> set statuses then []
      else [VerdictBadStatus (vID (snd iv)) (vStatus (snd iv))])"

lemma tally_Cons [simp]: "tally (v # vs) st = (if vStatus v = st then 1 else 0) + tally vs st"
  by (simp add: tally_def)

lemma tally_Nil [simp]: "tally [] st = 0"
  by (simp add: tally_def)

lemma counts_of_Nil [simp]: "counts_of [] = zero_counts"
  by (simp add: counts_of_def zero_counts_def)

lemma count_verdict_eq:
  "count_verdict iv (c, ps) =
   (add_counts c (counts_of (counted_verdicts [snd iv])), ps @ verdict_problems iv)"
  by (cases iv) (simp add: count_verdict_def verdict_problems_def counted_verdicts_def
      add_counts_def counts_of_def zero_counts_def statuses_def)

lemma counts_of_counted_Cons:
  "add_counts c (counts_of (counted_verdicts (v # vs))) =
   add_counts (add_counts c (counts_of (counted_verdicts [v]))) (counts_of (counted_verdicts vs))"
  by (simp add: counted_verdicts_def add_counts_def counts_of_def zero_counts_def)

lemma fold_count_verdict:
  "fold count_verdict ivs (c, ps) =
   (add_counts c (counts_of (counted_verdicts (map snd ivs))),
    ps @ concat (map verdict_problems ivs))"
proof (induction ivs arbitrary: c ps)
  case Nil
  then show ?case
    by (simp add: counted_verdicts_def add_counts_def zero_counts_def)
next
  case (Cons iv ivs)
  show ?case
    by (simp add: count_verdict_eq Cons counts_of_counted_Cons [of c "snd iv" "map snd ivs"])
qed

lemma count_verdicts_eq:
  "count_verdicts vs =
   (counts_of (counted_verdicts vs), concat (map verdict_problems (indexed vs)))"
  by (simp add: count_verdicts_def fold_count_verdict add_counts_def zero_counts_def)

lemma verdict_problems_member:
  "p \<in> set (concat (map verdict_problems (indexed vs))) \<longleftrightarrow>
   (\<exists>i < length vs. p \<in> set (verdict_problems (i, vs ! i)))"
  by (auto simp: set_indexed)

lemma counted_verdicts_ok: "list_all verdict_ok vs \<Longrightarrow> counted_verdicts vs = vs"
  by (auto simp: counted_verdicts_def verdict_ok_def list_all_iff intro!: filter_True)

subsection \<open>Which problem comes from which check\<close>

lemma check_subject_single:
  "stSubject s = [sub] \<Longrightarrow>
   check_subject s =
     (if trim_space (sName sub) = [] then [SubjectUnnamed]
      else if trim_space (sName sub) \<noteq> trim_space (tEndpoint (EvTarget (Predicate s)))
      then [SubjectMisnamed (sName sub) (trim_space (tEndpoint (EvTarget (Predicate s))))]
      else []) @
     (if subject_digest sub = [] then [NoDigest]
      else if subject_digest sub \<noteq> digest (descriptor (EvTarget (Predicate s)))
      then [DigestMismatch] else [])"
  by (simp add: check_subject_def Let_def)

lemma check_subject_many:
  "stSubject s = sub # sub' # subs \<Longrightarrow> check_subject s = [ManySubjects (length (stSubject s))]"
  by (simp add: check_subject_def)

lemma check_subject_none: "stSubject s = [] \<Longrightarrow> check_subject s = [NoSubject]"
  by (simp add: check_subject_def)

lemma check_verdicts_eq:
  "check_verdicts p =
   concat (map verdict_problems (indexed (Verdicts p))) @
   (if Verdicts p \<noteq> [] \<and> counts_of (counted_verdicts (Verdicts p)) \<noteq> EvCounts p
    then [CountsDisagree (EvCounts p) (counts_of (counted_verdicts (Verdicts p)))] else [])"
  by (simp add: check_verdicts_def count_verdicts_eq)

end
