(* ===== verification/Fixture.thy ===== *)
theory Fixture
  imports Validate
begin

text \<open>
  The statement of \<open>attestation/testdata/statement.json\<close> as a value, and the digests of its
  target and of two neighbours (the same address with a trailing slash; the same
  address over stdio), each recomputed by the kernel. The witnesses of the properties
  are stated on these values.
\<close>

definition fixture_endpoint :: string where
  "fixture_endpoint = ''https://mcp.example.com/mcp''"

definition fixture_target :: Target where
  "fixture_target = \<lparr>tTransport = ''http'', tEndpoint = fixture_endpoint, tServer = None\<rparr>"

definition fixture_verdicts :: "Verdict list" where
  "fixture_verdicts =
     [\<lparr>vID = ''auth.unauthenticated_tools'', vPhase = ''auth'', vStatus = ''pass'',
       vSeverity = [], vEvidence = [], vDoc = []\<rparr>,
      \<lparr>vID = ''protocol.origin'', vPhase = ''protocol'', vStatus = ''fail'',
       vSeverity = ''major'', vEvidence = [''req#12''], vDoc = []\<rparr>]"

definition fixture_evaluation :: Evaluation where
  "fixture_evaluation =
     \<lparr>SubjectKind = ''mcp-target-descriptor'', EvTarget = fixture_target,
      JudgedAgainst = \<lparr>SpecRevision = ''2026-07-28'', Rubric = ''1'', CheckInventory = ''1''\<rparr>,
      EvInstrument = \<lparr>iName = ''scout'', iVersion = ''0.0.3'', iSchemaVersion = 1\<rparr>,
      RanAt = \<lparr>tmSec = 63925675200, tmNsec = 0, tmOffset = 0\<rparr>, Took = ''3.2s'',
      Verdicts = fixture_verdicts,
      EvCounts = \<lparr>nPass = 1, nWarn = 0, nFail = 1, nSkip = 0, nInfo = 0\<rparr>,
      EvScore = Some \<lparr>scTotal = Fin 88, scGrade = ''B'', scAssessed = 6, scOf = 6, scBy = []\<rparr>,
      Blocked = [], TraceID = [], EvPlan = None\<rparr>"

definition fixture_digest :: string where
  "fixture_digest = ''a386a033799c95c21f3d01b2f0efcf71b95b1ef2a420908ce34e3c1eb41a2325''"

definition fixture :: Statement where
  "fixture =
     \<lparr>stType = ''https://in-toto.io/Statement/v1'',
      stSubject = [\<lparr>sName = fixture_endpoint, sDigest = [(''sha256'', fixture_digest)]\<rparr>],
      stPredicateType = ''https://scoutmcp.io/attestation/mcp-evaluation/v1'',
      Predicate = fixture_evaluation\<rparr>"

lemmas fixture_defs [record_defs] =
  fixture_def fixture_evaluation_def fixture_target_def fixture_verdicts_def
  fixture_endpoint_def fixture_digest_def

subsection \<open>The digests, recomputed\<close>

lemma space_free:
  assumes "s \<noteq> []" "hd s \<in> set ''abcdefghijklmnopqrstuvwxyz''"
    "last s \<in> set ''abcdefghijklmnopqrstuvwxyz/''"
  shows "trim_space s = s"
proof (rule trim_space_fixed)
  obtain c t where s: "s = c # t" using assms(1) by (cases s) auto
  have "\<not> has_prefix s r" if "r \<in> set space_runes" for r
    using that assms(2) unfolding s space_runes_def by auto
  then show "leading_space s = 0" by (simp add: leading_space_0)
  obtain u d where s': "s = u @ [d]" using assms(1) by (cases s rule: rev_cases) auto
  have "\<not> has_suffix s r" if "r \<in> set space_runes" for r
    using that assms(3) unfolding s' space_runes_def has_suffix_def by auto
  then show "trailing_space s = 0" by (simp add: trailing_space_0)
qed

lemma trim_fixture_endpoint [simp]: "trim_space fixture_endpoint = fixture_endpoint"
  by (rule space_free) (simp_all add: fixture_endpoint_def)

lemma trim_fixture_slash [simp]:
  "trim_space (fixture_endpoint @ ''/'') = fixture_endpoint @ ''/''"
  by (rule space_free) (simp_all add: fixture_endpoint_def)

lemma http_block:
  "hash_blocks initial_state
     (windows 1 [0x68747470, 0x0a687474, 0x70733a2f, 0x2f6d6370, 0x2e657861, 0x6d706c65,
       0x2e636f6d, 0x2f6d6370, 0x80000000, 0, 0, 0, 0, 0, 0, 0x100]) =
   HState 0xa386a033 0x799c95c2 0x1f3d01b2 0xf0efcf71 0xb95b1ef2 0xa420908c 0xe34e3c1e 0xb41a2325"
  by code_simp

lemma slash_block:
  "hash_blocks initial_state
     (windows 1 [0x68747470, 0x0a687474, 0x70733a2f, 0x2f6d6370, 0x2e657861, 0x6d706c65,
       0x2e636f6d, 0x2f6d6370, 0x2f800000, 0, 0, 0, 0, 0, 0, 0x108]) =
   HState 0x5758a886 0x4affa198 0x84bc840a 0xb4db4677 0x25d21eda 0x089a1dff 0x2260f395 0xbb3390d8"
  by code_simp

lemma stdio_block:
  "hash_blocks initial_state
     (windows 1 [0x73746469, 0x6f0a6874, 0x7470733a, 0x2f2f6d63, 0x702e6578, 0x616d706c,
       0x652e636f, 0x6d2f6d63, 0x70800000, 0, 0, 0, 0, 0, 0, 0x108]) =
   HState 0x28ebd234 0xf2f0ba74 0x6f43f401 0xae1f3b28 0xe80fea93 0x74689569 0xcc7bc961 0xc9d57931"
  by code_simp

lemma digest_fixture: "digest (descriptor_of ''http'' fixture_endpoint) = fixture_digest"
proof -
  let ?d = "descriptor_of ''http'' fixture_endpoint"
  have d: "?d = ''http\<newline>https://mcp.example.com/mcp''"
    by (simp add: descriptor_of_def descriptor_def) (simp add: fixture_endpoint_def)
  have "length (pad ?d) div 64 = 1" by (simp add: d pad_def)
  moreover have "words_of (pad ?d) =
    [0x68747470, 0x0a687474, 0x70733a2f, 0x2f6d6370, 0x2e657861, 0x6d706c65,
     0x2e636f6d, 0x2f6d6370, 0x80000000, 0, 0, 0, 0, 0, 0, 0x100]"
    unfolding d by (simp add: padding_eval)
  ultimately show ?thesis
    using sum256_one_block [OF _ _ http_block]
    by (simp add: digest_def fixture_digest_def hex_eval)
qed

lemma digest_slash:
  "digest (descriptor_of ''http'' (fixture_endpoint @ ''/'')) =
   ''5758a8864affa19884bc840ab4db467725d21eda089a1dff2260f395bb3390d8''"
proof -
  let ?d = "descriptor_of ''http'' (fixture_endpoint @ ''/'')"
  have d: "?d = ''http\<newline>https://mcp.example.com/mcp/''"
    by (simp add: descriptor_of_def descriptor_def) (simp add: fixture_endpoint_def)
  have "length (pad ?d) div 64 = 1" by (simp add: d pad_def)
  moreover have "words_of (pad ?d) =
    [0x68747470, 0x0a687474, 0x70733a2f, 0x2f6d6370, 0x2e657861, 0x6d706c65,
     0x2e636f6d, 0x2f6d6370, 0x2f800000, 0, 0, 0, 0, 0, 0, 0x108]"
    unfolding d by (simp add: padding_eval)
  ultimately show ?thesis
    using sum256_one_block [OF _ _ slash_block] by (simp add: digest_def hex_eval)
qed

lemma digest_stdio:
  "digest (descriptor_of ''stdio'' fixture_endpoint) =
   ''28ebd234f2f0ba746f43f401ae1f3b28e80fea9374689569cc7bc961c9d57931''"
proof -
  let ?d = "descriptor_of ''stdio'' fixture_endpoint"
  have d: "?d = ''stdio\<newline>https://mcp.example.com/mcp''"
    by (simp add: descriptor_of_def descriptor_def) (simp add: fixture_endpoint_def)
  have "length (pad ?d) div 64 = 1" by (simp add: d pad_def)
  moreover have "words_of (pad ?d) =
    [0x73746469, 0x6f0a6874, 0x7470733a, 0x2f2f6d63, 0x702e6578, 0x616d706c,
     0x652e636f, 0x6d2f6d63, 0x70800000, 0, 0, 0, 0, 0, 0, 0x108]"
    unfolding d by (simp add: padding_eval)
  ultimately show ?thesis
    using sum256_one_block [OF _ _ stdio_block] by (simp add: digest_def hex_eval)
qed

end
