(* ===== verification/ValidateProps.thy ===== *)
theory ValidateProps
  imports Fixture
begin

text \<open>
  What \<open>Validate\<close>, \<open>Covers\<close>, \<open>VerdictFor\<close> and \<open>SubjectFor\<close> guarantee: the problem list is exactly
  the list of defects, an error-free statement is an interpretable one, a valid statement
  covers its own target and no other, and a rewritten target is found out.
\<close>

subsection \<open>Problem lists are exact\<close>

lemma in_check_types [problem_simps]:
  "p \<in> set (check_types s) \<longleftrightarrow>
   (p = BadType (stType s) \<and> stType s \<noteq> StatementType) \<or>
   (p = BadPredicateType (stPredicateType s) \<and> stPredicateType s \<noteq> PredicateType)"
  by (auto simp: check_types_def)

lemma in_check_target [problem_simps]:
  "p \<in> set (check_target e) \<longleftrightarrow>
   (p = BadSubjectKind (SubjectKind e) \<and> SubjectKind e \<noteq> SubjectKindDescriptor) \<or>
   (p = NoEndpoint \<and> trim_space (tEndpoint (EvTarget e)) = []) \<or>
   (p = NoTransport \<and> tTransport (EvTarget e) = []) \<or>
   (p = UnknownTransport (tTransport (EvTarget e)) \<and>
    tTransport (EvTarget e) \<notin> {[], ''http'', ''stdio''})"
  by (auto simp: check_target_def Let_def)

lemma in_check_run [problem_simps]:
  "p \<in> set (check_run e) \<longleftrightarrow>
   (p = InstrumentUnidentified \<and> [] \<in> {iName (EvInstrument e), iVersion (EvInstrument e)}) \<or>
   (p = NoRunTime \<and> is_zero_time (RanAt e)) \<or>
   (p = NoVerdicts \<and> Verdicts e = [])"
  by (auto simp: check_run_def)

lemma in_check_basis [problem_simps]:
  "p \<in> set (check_basis e) \<longleftrightarrow>
   (p = NoCheckInventory \<and> CheckInventory (JudgedAgainst e) = []) \<or>
   (p = ScoreWithoutRubric \<and> EvScore e \<noteq> None \<and> Rubric (JudgedAgainst e) = [])"
  by (auto simp: check_basis_def)

lemma in_check_verdicts [problem_simps]:
  "p \<in> set (check_verdicts e) \<longleftrightarrow>
   (\<exists>i < length (Verdicts e). p \<in> set (verdict_problems (i, Verdicts e ! i))) \<or>
   (p = CountsDisagree (EvCounts e) (counts_of (counted_verdicts (Verdicts e))) \<and>
    Verdicts e \<noteq> [] \<and> counts_of (counted_verdicts (Verdicts e)) \<noteq> EvCounts e)"
  by (auto simp: check_verdicts_eq verdict_problems_member simp del: set_concat)

lemma in_check_subject [problem_simps]:
  "p \<in> set (check_subject s) \<longleftrightarrow>
   (case stSubject s of
      [] \<Rightarrow> p = NoSubject
    | [sub] \<Rightarrow>
        (p = SubjectUnnamed \<and> trim_space (sName sub) = []) \<or>
        (p = SubjectMisnamed (sName sub) (trim_space (tEndpoint (EvTarget (Predicate s)))) \<and>
         trim_space (sName sub) \<noteq> [] \<and>
         trim_space (sName sub) \<noteq> trim_space (tEndpoint (EvTarget (Predicate s)))) \<or>
        (p = NoDigest \<and> subject_digest sub = []) \<or>
        (p = DigestMismatch \<and> subject_digest sub \<noteq> [] \<and>
         subject_digest sub \<noteq> digest (descriptor (EvTarget (Predicate s))))
    | _ # _ # _ \<Rightarrow> p = ManySubjects (length (stSubject s)))"
  by (auto simp: check_subject_def Let_def split: list.splits)

lemma in_problems:
  "p \<in> set (problems s) \<longleftrightarrow>
   p \<in> set (check_types s) \<or> p \<in> set (check_subject s) \<or> p \<in> set (check_target (Predicate s)) \<or>
   p \<in> set (check_run (Predicate s)) \<or> p \<in> set (check_basis (Predicate s)) \<or>
   p \<in> set (check_verdicts (Predicate s))"
  by (auto simp: problems_def)

lemma verdict_problem_iff:
  "p \<in> set (verdict_problems (i, v)) \<longleftrightarrow>
   (p = VerdictWithoutID i \<and> vID v = []) \<or>
   (p = VerdictBadStatus (vID v) (vStatus v) \<and> vID v \<noteq> [] \<and> vStatus v \<notin> set statuses)"
  by (auto simp: verdict_problems_def)

text \<open>
  C26. \<open>Validate\<close> reports every way a statement is not interpretable and invents none: a
  problem is in its list exactly when the statement has the defect that problem names.
\<close>

theorem problems_exact: "p \<in> set (problems s) \<longleftrightarrow> defect s p"
proof (cases p)
  case (VerdictBadStatus i st)
  then show ?thesis
    using ex_nth_iff [of "Verdicts (Predicate s)" "\<lambda>v. vID v = i \<and> vStatus v = st"]
    by (auto simp: in_problems problem_simps verdict_problem_iff split: list.splits)
next
  case (ManySubjects n)
  then show ?thesis
    by (auto simp: in_problems problem_simps verdict_problem_iff split: list.splits)
qed (auto simp: in_problems problem_simps verdict_problem_iff one_subject_def
      split: list.splits)

subsection \<open>Valid means interpretable\<close>

lemma problems_Nil_iff: "problems s = [] \<longleftrightarrow> (\<forall>p. p \<notin> set (problems s))"
  by (metis list.set_intros(1) neq_Nil_conv empty_iff empty_set)

lemma Validate_None_iff: "Validate s = None \<longleftrightarrow> problems s = []"
  by (simp add: Validate_def Let_def)

lemma append_Nil_iff_all:
  "problems s = [] \<longleftrightarrow>
   check_types s = [] \<and> check_subject s = [] \<and> check_target (Predicate s) = [] \<and>
   check_run (Predicate s) = [] \<and> check_basis (Predicate s) = [] \<and>
   check_verdicts (Predicate s) = []"
  by (simp add: problems_def)

lemma check_types_Nil:
  "check_types s = [] \<longleftrightarrow> stType s = StatementType \<and> stPredicateType s = PredicateType"
  by (simp add: check_types_def)

lemma check_target_Nil:
  "check_target e = [] \<longleftrightarrow>
   SubjectKind e = SubjectKindDescriptor \<and> trim_space (tEndpoint (EvTarget e)) \<noteq> [] \<and>
   tTransport (EvTarget e) \<in> {''http'', ''stdio''}"
  by (auto simp: check_target_def Let_def)

lemma check_run_Nil:
  "check_run e = [] \<longleftrightarrow>
   iName (EvInstrument e) \<noteq> [] \<and> iVersion (EvInstrument e) \<noteq> [] \<and>
   \<not> is_zero_time (RanAt e) \<and> Verdicts e \<noteq> []"
  by (simp add: check_run_def)

lemma check_basis_Nil:
  "check_basis e = [] \<longleftrightarrow>
   CheckInventory (JudgedAgainst e) \<noteq> [] \<and>
   (EvScore e = None \<or> Rubric (JudgedAgainst e) \<noteq> [])"
  by (auto simp: check_basis_def)

lemma verdict_problems_Nil: "verdict_problems iv = [] \<longleftrightarrow> verdict_ok (snd iv)"
  by (simp add: verdict_problems_def verdict_ok_def)

lemma check_verdicts_Nil:
  "Verdicts e \<noteq> [] \<Longrightarrow>
   check_verdicts e = [] \<longleftrightarrow>
   list_all verdict_ok (Verdicts e) \<and> EvCounts e = counts_of (Verdicts e)"
proof -
  assume ne: "Verdicts e \<noteq> []"
  have "(\<forall>iv\<in>set (indexed (Verdicts e)). verdict_problems iv = []) \<longleftrightarrow>
        list_all verdict_ok (Verdicts e)"
    unfolding verdict_problems_Nil list_all_iff
    using map_snd_indexed [of "Verdicts e"] by (metis (no_types, lifting) image_iff set_map)
  with ne show ?thesis
    by (auto simp: check_verdicts_eq counted_verdicts_ok)
qed

lemma check_subject_Nil:
  "trim_space (tEndpoint (EvTarget (Predicate s))) \<noteq> [] \<Longrightarrow>
   check_subject s = [] \<longleftrightarrow> subject_ok s"
  by (auto simp: check_subject_def subject_ok_def Let_def split: list.splits)

lemmas checks_Nil =
  Validate_None_iff append_Nil_iff_all check_types_Nil check_target_Nil check_run_Nil
  check_basis_Nil check_verdicts_Nil check_subject_Nil

lemma interpretable_of_Validate: "Validate s = None \<Longrightarrow> interpretable s"
  by (auto simp: checks_Nil interpretable_def evaluation_ok_def)

lemma Validate_of_interpretable: "interpretable s \<Longrightarrow> Validate s = None"
  by (auto simp: checks_Nil interpretable_def evaluation_ok_def)

text \<open>
  C25. A statement validates exactly when it is interpretable: the specification lists the
  guarantees of the format, and no statement that lacks one of them gets through.
\<close>

theorem Validate_iff_interpretable: "Validate s = None \<longleftrightarrow> interpretable s"
  using interpretable_of_Validate Validate_of_interpretable by blast

lemma subject_digest_fixture:
  "subject_digest \<lparr>sName = n, sDigest = [(''sha256'', d)]\<rparr> = d"
  by (simp add: subject_digest_def m_str_def m_get_def)

lemma descriptor_fixture_target:
  "descriptor fixture_target = descriptor_of ''http'' fixture_endpoint"
  by (simp add: fixture_target_def descriptor_of_def descriptor_def)

lemma interpretable_fixture: "interpretable fixture"
proof -
  have "subject_ok fixture"
    by (simp add: subject_ok_def fixture_def fixture_evaluation_def subject_digest_fixture
        descriptor_fixture_target digest_fixture) (simp add: fixture_target_def)
  moreover have "evaluation_ok fixture_evaluation"
    using trim_fixture_endpoint
    by (simp add: evaluation_ok_def fixture_evaluation_def fixture_target_def
        SubjectKindDescriptor_def is_zero_time_def fixture_verdicts_def verdict_ok_def
        statuses_def counts_of_def) (simp add: fixture_endpoint_def)
  ultimately show ?thesis
    by (simp add: interpretable_def fixture_def StatementType_def PredicateType_def)
qed

lemma Validate_fixture: "Validate fixture = None"
  by (rule Validate_of_interpretable) (rule interpretable_fixture)

subsection \<open>A valid statement covers its own target and no other\<close>

lemma Covers_single:
  "stSubject s = [sub] \<Longrightarrow>
   Covers s tr ep \<longleftrightarrow> subject_digest sub = digest (descriptor_of tr ep)"
  by (simp add: Covers_def)

lemma Covers_valid:
  "Validate s = None \<Longrightarrow>
   Covers s tr ep \<longleftrightarrow>
   digest (descriptor (EvTarget (Predicate s))) = digest (descriptor_of tr ep)"
  using interpretable_of_Validate [of s]
  by (auto simp: interpretable_def subject_ok_def Covers_single)

text \<open>What \<open>Validate\<close> accepts, \<open>Covers\<close> confirms for the target the statement names.\<close>

theorem valid_covers_own_target:
  assumes "Validate s = None"
  shows "Covers s (tTransport (EvTarget (Predicate s))) (tEndpoint (EvTarget (Predicate s)))"
  using Covers_valid [OF assms] by (simp add: descriptor_eq)

theorem valid_covers_own_target_witness:
  "Covers fixture ''http'' ''https://mcp.example.com/mcp''"
  using valid_covers_own_target [OF Validate_fixture]
  by (simp add: fixture_def fixture_evaluation_def fixture_target_def fixture_endpoint_def)

text \<open>
  C27. For a transport without a newline, a valid statement covers exactly the targets with
  its transport and, up to surrounding white space, its endpoint, given that SHA-256
  does not collide on the two descriptors at hand. A transport with a newline could take over
  the beginning of an endpoint. This is what the code does: the white space is trimmed though
  the documents hash the endpoint as it is, and a trailing slash makes another target though
  the comment of \<open>Covers\<close> suggests otherwise (\<open>covers_trailing_slash\<close>).
\<close>

theorem covers_exactly_the_target:
  assumes "Validate s = None" and "CHR 0x0A \<notin> set tr"
    and "sum256 (descriptor (EvTarget (Predicate s))) = sum256 (descriptor_of tr ep) \<Longrightarrow>
         descriptor (EvTarget (Predicate s)) = descriptor_of tr ep"
  shows "Covers s tr ep \<longleftrightarrow>
         tr = tTransport (EvTarget (Predicate s)) \<and>
         trim_space ep = trim_space (tEndpoint (EvTarget (Predicate s)))"
proof -
  from interpretable_of_Validate [OF assms(1)]
  have nl: "CHR 0x0A \<notin> set (tTransport (EvTarget (Predicate s)))"
    by (auto simp: interpretable_def evaluation_ok_def)
  have "Covers s tr ep \<longleftrightarrow> descriptor (EvTarget (Predicate s)) = descriptor_of tr ep"
    using Covers_valid [OF assms(1)] assms(3) by (auto simp: digest_eq_iff)
  then show ?thesis
    by (auto simp: descriptor_eq descriptor_of_inj [OF nl assms(2)])
qed

lemma sum256_of_digest: "sum256 a = sum256 b \<Longrightarrow> digest a = digest b"
  by (simp add: digest_def)

theorem covers_exactly_the_target_witness:
  "\<not> Covers fixture ''stdio'' fixture_endpoint"
proof -
  have t: "EvTarget (Predicate fixture) = fixture_target"
    by (simp add: fixture_def fixture_evaluation_def)
  have "digest (descriptor fixture_target) \<noteq> digest (descriptor_of ''stdio'' fixture_endpoint)"
    unfolding descriptor_fixture_target digest_fixture digest_stdio
    by (simp add: fixture_digest_def)
  then have "sum256 (descriptor (EvTarget (Predicate fixture))) =
        sum256 (descriptor_of ''stdio'' fixture_endpoint) \<Longrightarrow>
      descriptor (EvTarget (Predicate fixture)) = descriptor_of ''stdio'' fixture_endpoint"
    unfolding t by (blast dest: sum256_of_digest)
  from covers_exactly_the_target [OF Validate_fixture _ this] show ?thesis
    by (simp add: t) (simp add: fixture_target_def)
qed

text \<open>
  The subject cannot be kept while the target is rewritten: two valid statements with the
  same subject are about the same endpoint, whatever SHA-256 does, because the name is
  checked too; and about the same transport unless SHA-256 collides on the two descriptors.
\<close>

theorem same_subject_same_target:
  assumes "Validate s = None" "Validate s' = None" "stSubject s = stSubject s'"
  defines "t \<equiv> EvTarget (Predicate s)" and "t' \<equiv> EvTarget (Predicate s')"
  shows "trim_space (tEndpoint t) = trim_space (tEndpoint t') \<and>
    (tTransport t = tTransport t' \<or>
     descriptor t \<noteq> descriptor t' \<and> sum256 (descriptor t) = sum256 (descriptor t'))"
proof -
  note ok = interpretable_of_Validate [OF assms(1)] interpretable_of_Validate [OF assms(2)]
  then have ep: "trim_space (tEndpoint t) = trim_space (tEndpoint t')"
    and dg: "sum256 (descriptor t) = sum256 (descriptor t')"
    using assms(3) by (auto simp: interpretable_def subject_ok_def t_def t'_def digest_eq_iff)
  from ok have "CHR 0x0A \<notin> set (tTransport t)" "CHR 0x0A \<notin> set (tTransport t')"
    by (auto simp: interpretable_def evaluation_ok_def t_def t'_def)
  with ep dg show ?thesis by (auto simp: descriptor_eq descriptor_of_inj)
qed

lemma Validate_fixture_took: "Validate (fixture\<lparr>Predicate := fixture_evaluation\<lparr>Took := x\<rparr>\<rparr>) = None"
proof (rule Validate_of_interpretable)
  have "interpretable fixture" by (rule interpretable_fixture)
  moreover have "fixture_endpoint \<noteq> []" by (simp add: fixture_endpoint_def)
  ultimately show "interpretable (fixture\<lparr>Predicate := fixture_evaluation\<lparr>Took := x\<rparr>\<rparr>)"
    by (simp add: interpretable_def subject_ok_def evaluation_ok_def fixture_def)
qed

theorem same_subject_same_target_witness:
  "trim_space (tEndpoint (EvTarget (Predicate fixture))) =
   trim_space (tEndpoint (EvTarget (Predicate (fixture\<lparr>Predicate := fixture_evaluation\<lparr>Took := ''9s''\<rparr>\<rparr>))))"
  using same_subject_same_target [OF Validate_fixture Validate_fixture_took [of "''9s''"]] by simp

text \<open>
  A producer that takes its subject from \<open>SubjectFor\<close> passes the subject checks exactly
  when the target has an endpoint to name, and such a statement covers the target.
\<close>

theorem SubjectFor_is_accepted:
  "stSubject s = [SubjectFor (EvTarget (Predicate s))] \<Longrightarrow>
   (check_subject s = [] \<longleftrightarrow> trim_space (tEndpoint (EvTarget (Predicate s))) \<noteq> []) \<and>
   Covers s (tTransport (EvTarget (Predicate s))) (tEndpoint (EvTarget (Predicate s)))"
  by (simp add: check_subject_single Covers_single descriptor_eq)
    (simp add: SubjectFor_def)

theorem SubjectFor_is_accepted_witness:
  "check_subject (fixture\<lparr>stSubject := [SubjectFor fixture_target]\<rparr>) = []"
proof -
  have t: "EvTarget (Predicate fixture) = fixture_target"
    by (simp add: fixture_def fixture_evaluation_def)
  have "trim_space (tEndpoint fixture_target) \<noteq> []"
    by (simp add: fixture_target_def) (simp add: fixture_endpoint_def)
  then show ?thesis
    using SubjectFor_is_accepted [of "fixture\<lparr>stSubject := [SubjectFor fixture_target]\<rparr>"]
    by (simp add: t)
qed

definition trim_endpoint :: "Statement \<Rightarrow> Statement" where
  "trim_endpoint s =
     s\<lparr>Predicate := (Predicate s)\<lparr>EvTarget := (EvTarget (Predicate s))
       \<lparr>tEndpoint := trim_space (tEndpoint (EvTarget (Predicate s)))\<rparr>\<rparr>\<rparr>"

lemma trim_endpoint_sel [simp]:
  "stType (trim_endpoint s) = stType s"
  "stSubject (trim_endpoint s) = stSubject s"
  "stPredicateType (trim_endpoint s) = stPredicateType s"
  "check_run (Predicate (trim_endpoint s)) = check_run (Predicate s)"
  "check_basis (Predicate (trim_endpoint s)) = check_basis (Predicate s)"
  "check_verdicts (Predicate (trim_endpoint s)) = check_verdicts (Predicate s)"
  "SubjectKind (Predicate (trim_endpoint s)) = SubjectKind (Predicate s)"
  "tEndpoint (EvTarget (Predicate (trim_endpoint s))) =
     trim_space (tEndpoint (EvTarget (Predicate s)))"
  "tTransport (EvTarget (Predicate (trim_endpoint s))) = tTransport (EvTarget (Predicate s))"
  "descriptor (EvTarget (Predicate (trim_endpoint s))) = descriptor (EvTarget (Predicate s))"
  by (simp_all add: trim_endpoint_def check_run_def check_basis_def check_verdicts_eq
      descriptor_def)

text \<open>
  White space around the endpoint is not part of what a statement is about: trimming the
  target's endpoint changes neither the descriptor nor the outcome of \<open>Validate\<close>.
\<close>

theorem Validate_ignores_outer_space:
  "Validate (trim_endpoint s) = Validate s"
proof -
  have "check_types (trim_endpoint s) = check_types s"
    "check_subject (trim_endpoint s) = check_subject s"
    "check_target (Predicate (trim_endpoint s)) = check_target (Predicate s)"
    by (simp_all add: check_types_def check_subject_def check_target_def Let_def split: list.split)
  then show ?thesis by (simp add: Validate_def problems_def)
qed

text \<open>
  \<open>Covers\<close> tells a trailing slash apart: the repository's own sample statement covers its
  endpoint and does not cover the same address with a slash at the end.
\<close>

theorem covers_trailing_slash:
  "Covers fixture ''http'' fixture_endpoint \<and> \<not> Covers fixture ''http'' (fixture_endpoint @ ''/'')"
proof -
  have sub: "stSubject fixture = [\<lparr>sName = fixture_endpoint, sDigest = [(''sha256'', fixture_digest)]\<rparr>]"
    by (simp add: fixture_def)
  have "fixture_digest \<noteq> digest (descriptor_of ''http'' (fixture_endpoint @ ''/''))"
    unfolding digest_slash by (simp add: fixture_digest_def)
  then show ?thesis
    by (simp add: Covers_single [OF sub] subject_digest_fixture digest_fixture)
qed

subsection \<open>Looking a verdict up\<close>

text \<open>
  \<open>VerdictFor\<close> returns the first verdict with the id, and its error means that no verdict
  has it: "not measured" is never confused with a measured outcome.
\<close>

theorem VerdictFor_first:
  "case VerdictFor s i of
     Inr v \<Rightarrow> \<exists>us ws. Verdicts (Predicate s) = us @ v # ws \<and> vID v = i \<and> i \<notin> vID ` set us
   | Inl e \<Rightarrow> e = ErrNoSuchCheck i \<and> i \<notin> vID ` set (Verdicts (Predicate s))"
proof (cases "List.find (\<lambda>v. vID v = i) (Verdicts (Predicate s))")
  case None
  then have "i \<notin> vID ` set (Verdicts (Predicate s))" by (auto simp: find_None_set)
  with None show ?thesis by (simp add: VerdictFor_def)
next
  case (Some v)
  then obtain us ws where "Verdicts (Predicate s) = us @ v # ws" "vID v = i"
    "\<forall>u\<in>set us. vID u \<noteq> i"
    by (auto simp: find_Some_iff_first)
  moreover from this have "i \<notin> vID ` set us" by auto
  ultimately have "\<exists>us ws. Verdicts (Predicate s) = us @ v # ws \<and> vID v = i \<and> i \<notin> vID ` set us"
    by blast
  with Some show ?thesis by (simp add: VerdictFor_def)
qed

end
