(* ===== verification/Diff.thy ===== *)
theory Diff
  imports Validate
begin

text \<open>
  \<open>attestation/diff.go\<close>: how a later statement about a target differs from an earlier one.
  \<open>Compare\<close> indexes both verdict lists by id, visits every id of either in sorted order and
  puts it into at most one of five lists.

  The facts about the loop go through \<open>classify\<close>, a table from the two outcomes of a check
  to the list it belongs to: each list of the result is the sorted ids of its class.
\<close>

subsection \<open>The code\<close>

record Change =
  chID :: string
  chFrom :: string
  chTo :: string
  chFromSeverity :: string
  chToSeverity :: string

record Delta =
  Comparable :: bool
  Regressed :: "Change list"
  Improved :: "Change list"
  SeverityChanged :: "Change list"
  Unassessed :: "Change list"
  Added :: "Change list"
  ScoreFrom :: "float64 option"
  ScoreTo :: "float64 option"

definition Regression :: "Delta \<Rightarrow> bool" where
  "Regression d \<longleftrightarrow> length (Regressed d) > 0"

definition rank_map :: "nat gomap" where
  "rank_map = [(''pass'', 1), (''info'', 1), (''warn'', 2), (''fail'', 3)]"

text \<open>\<open>rank[s]\<close>: zero for a status the map does not hold, such as \<open>skip\<close>.\<close>

definition rank :: "string \<Rightarrow> nat" where
  "rank s = (case m_get rank_map s of None \<Rightarrow> 0 | Some n \<Rightarrow> n)"

definition zero_verdict :: Verdict where
  "zero_verdict =
     \<lparr>vID = [], vPhase = [], vStatus = [], vSeverity = [], vEvidence = [], vDoc = []\<rparr>"

definition verdictIndex :: "Statement \<Rightarrow> Verdict gomap" where
  "verdictIndex s =
     fold (\<lambda>v out. if m_get out (vID v) = None then m_put (vID v) v out else out)
       (Verdicts (Predicate s)) m_empty"

text \<open>The ids of both indices, in the order the two \<open>range\<close> loops append them.\<close>

definition compare_ids :: "Verdict gomap \<Rightarrow> Verdict gomap \<Rightarrow> string list" where
  "compare_ids b a = m_keys b @ filter (\<lambda>i. m_get b i = None) (m_keys a)"

definition verdict_at :: "Verdict gomap \<Rightarrow> string \<Rightarrow> Verdict" where
  "verdict_at m i = (case m_get m i of None \<Rightarrow> zero_verdict | Some v \<Rightarrow> v)"

definition change_at :: "Verdict gomap \<Rightarrow> Verdict gomap \<Rightarrow> string \<Rightarrow> Change" where
  "change_at b a i =
     \<lparr>chID = i, chFrom = vStatus (verdict_at b i), chTo = vStatus (verdict_at a i),
      chFromSeverity = vSeverity (verdict_at b i), chToSeverity = vSeverity (verdict_at a i)\<rparr>"

definition compare_step :: "Verdict gomap \<Rightarrow> Verdict gomap \<Rightarrow> string \<Rightarrow> Delta \<Rightarrow> Delta" where
  "compare_step b a i d =
     (let was = verdict_at b i; now = verdict_at a i;
          inBefore = (m_get b i \<noteq> None); inAfter = (m_get a i \<noteq> None);
          c = change_at b a i;
          wasRanked = rank (vStatus was) > 0; nowRanked = rank (vStatus now) > 0 in
      if \<not> inBefore \<or> \<not> wasRanked then
        (if nowRanked then d\<lparr>Added := Added d @ [c]\<rparr> else d)
      else if \<not> inAfter \<or> \<not> nowRanked then d\<lparr>Unassessed := Unassessed d @ [c]\<rparr>
      else if rank (vStatus now) > rank (vStatus was) then d\<lparr>Regressed := Regressed d @ [c]\<rparr>
      else if rank (vStatus now) < rank (vStatus was) then d\<lparr>Improved := Improved d @ [c]\<rparr>
      else if vStatus was = ''fail'' \<and> vSeverity was \<noteq> vSeverity now
      then d\<lparr>SeverityChanged := SeverityChanged d @ [c]\<rparr>
      else d)"

definition empty_delta :: "bool \<Rightarrow> Delta" where
  "empty_delta cmp =
     \<lparr>Comparable = cmp, Regressed = [], Improved = [], SeverityChanged = [], Unassessed = [],
      Added = [], ScoreFrom = None, ScoreTo = None\<rparr>"

definition comparable :: "Statement \<Rightarrow> Statement \<Rightarrow> bool" where
  "comparable before after \<longleftrightarrow>
     Rubric (JudgedAgainst (Predicate before)) = Rubric (JudgedAgainst (Predicate after)) \<and>
     CheckInventory (JudgedAgainst (Predicate before)) =
       CheckInventory (JudgedAgainst (Predicate after))"

definition Compare :: "Statement \<Rightarrow> Statement \<Rightarrow> Delta" where
  "Compare before after =
     (let b = verdictIndex before; a = verdictIndex after;
          d = fold (compare_step b a) (sort (compare_ids b a))
                (empty_delta (comparable before after)) in
      case (EvScore (Predicate before), EvScore (Predicate after)) of
        (Some from, Some to) \<Rightarrow>
          if Comparable d then d\<lparr>ScoreFrom := Some (scTotal from), ScoreTo := Some (scTotal to)\<rparr>
          else d
      | _ \<Rightarrow> d)"

subsection \<open>The index\<close>

text \<open>The outcome of a check: its first verdict, the one \<open>VerdictFor\<close> returns.\<close>

definition outcome :: "Statement \<Rightarrow> string \<Rightarrow> Verdict option" where
  "outcome s i = List.find (\<lambda>v. vID v = i) (Verdicts (Predicate s))"

lemma verdictIndex_get [simp]: "m_get (verdictIndex s) i = outcome s i"
  using gm.get_fold_put_new [of vID "\<lambda>v. v" "Verdicts (Predicate s)" m_empty i]
  by (simp add: verdictIndex_def outcome_def option.map_ident)

lemma wf_verdictIndex [simp]: "wf_map (verdictIndex s)"
  using gm.invar_fold_put_new [OF gm.invar_empty, of vID "\<lambda>v. v" "Verdicts (Predicate s)"]
  by (simp add: verdictIndex_def)

lemma VerdictFor_outcome:
  "VerdictFor s i = (case outcome s i of Some v \<Rightarrow> Inr v | None \<Rightarrow> Inl (ErrNoSuchCheck i))"
  by (simp add: VerdictFor_def outcome_def)

lemma outcome_id: "outcome s i = Some v \<Longrightarrow> vID v = i"
  by (simp add: outcome_def find_Some_iff_first) blast

lemma outcome_None_iff: "outcome s i = None \<longleftrightarrow> i \<notin> vID ` set (Verdicts (Predicate s))"
  by (auto simp: outcome_def find_None_set)

definition delta_ids :: "Statement \<Rightarrow> Statement \<Rightarrow> string list" where
  "delta_ids before after = sort (compare_ids (verdictIndex before) (verdictIndex after))"

lemma distinct_compare_ids: "wf_map b \<Longrightarrow> wf_map a \<Longrightarrow> distinct (compare_ids b a)"
  by (auto simp: compare_ids_def gm.distinct_keys gm.keys_iff)

lemma set_compare_ids: "i \<in> set (compare_ids b a) \<longleftrightarrow> m_get b i \<noteq> None \<or> m_get a i \<noteq> None"
  by (auto simp: compare_ids_def gm.keys_iff)

lemma set_delta_ids: "i \<in> set (delta_ids b a) \<longleftrightarrow> outcome b i \<noteq> None \<or> outcome a i \<noteq> None"
  by (simp add: delta_ids_def set_compare_ids)

lemma distinct_delta_ids [simp]: "distinct (delta_ids b a)"
  by (simp add: delta_ids_def distinct_compare_ids)

lemma sorted_delta_ids [simp]: "sorted (delta_ids b a)"
  by (simp add: delta_ids_def)

lemma delta_ids_commute: "delta_ids b a = delta_ids a b"
  by (rule sorted_distinct_set_unique) (auto simp: set_delta_ids)

text \<open>The order in which \<open>range\<close> visits the two maps does not reach the result.\<close>

lemma compare_ids_order_free:
  assumes "wf_map b" "wf_map b'" "wf_map a" "wf_map a'" "m_get b = m_get b'" "m_get a = m_get a'"
  shows "sort (compare_ids b a) = sort (compare_ids b' a')"
  using assms by (intro sort_same_set distinct_compare_ids) (auto simp: set_compare_ids)

subsection \<open>The classes\<close>

datatype bucket = InRegressed | InImproved | InSeverityChanged | InUnassessed | InAdded

definition measured :: "Verdict option \<Rightarrow> bool" where
  "measured x \<longleftrightarrow> (case x of None \<Rightarrow> False | Some v \<Rightarrow> 0 < rank (vStatus v))"

text \<open>The specification: one row per pair of outcomes.\<close>

fun classify :: "Verdict option \<Rightarrow> Verdict option \<Rightarrow> bucket option" where
  "classify was now =
     (if \<not> measured was then (if measured now then Some InAdded else None)
      else if \<not> measured now then Some InUnassessed
      else case (was, now) of
        (Some v, Some w) \<Rightarrow>
          if rank (vStatus v) < rank (vStatus w) then Some InRegressed
          else if rank (vStatus w) < rank (vStatus v) then Some InImproved
          else if vStatus v = ''fail'' \<and> vSeverity v \<noteq> vSeverity w then Some InSeverityChanged
          else None
      | _ \<Rightarrow> None)"

declare classify.simps [simp del]

fun bucket_of :: "bucket \<Rightarrow> Delta \<Rightarrow> Change list" where
  "bucket_of InRegressed d = Regressed d"
| "bucket_of InImproved d = Improved d"
| "bucket_of InSeverityChanged d = SeverityChanged d"
| "bucket_of InUnassessed d = Unassessed d"
| "bucket_of InAdded d = Added d"

lemma rank_simps [simp]:
  "rank ''pass'' = 1" "rank ''info'' = 1" "rank ''warn'' = 2" "rank ''fail'' = 3" "rank [] = 0"
  "rank ''skip'' = 0"
  by (simp_all add: rank_def rank_map_def m_get_def)

lemma rank_pos_iff: "0 < rank s \<longleftrightarrow> s \<in> {''pass'', ''info'', ''warn'', ''fail''}"
  by (simp add: rank_def rank_map_def m_get_def split: if_splits)

lemma rank_less_iff:
  "0 < rank s \<and> rank s < rank t \<longleftrightarrow>
   s \<in> {''pass'', ''info''} \<and> t \<in> {''warn'', ''fail''} \<or> s = ''warn'' \<and> t = ''fail''"
  by (simp add: rank_def rank_map_def m_get_def split: if_splits)

lemma measured_simps [simp]:
  "\<not> measured None" "measured (Some v) \<longleftrightarrow> 0 < rank (vStatus v)"
  by (simp_all add: measured_def)

lemma rank_eq_fail: "rank s = 3 \<longleftrightarrow> s = ''fail''"
  by (simp add: rank_def rank_map_def m_get_def split: if_splits)

text \<open>The classes read off the ranks.\<close>

definition rank_of :: "Verdict option \<Rightarrow> nat" where
  "rank_of x = (case x of None \<Rightarrow> 0 | Some v \<Rightarrow> rank (vStatus v))"

definition severity_of :: "Verdict option \<Rightarrow> string" where
  "severity_of x = (case x of None \<Rightarrow> [] | Some v \<Rightarrow> vSeverity v)"

lemma measured_rank: "measured x \<longleftrightarrow> 0 < rank_of x"
  by (cases x) (simp_all add: rank_of_def)

lemma classify_rank:
  "classify x y =
     (if rank_of x = 0 then (if rank_of y = 0 then None else Some InAdded)
      else if rank_of y = 0 then Some InUnassessed
      else if rank_of x < rank_of y then Some InRegressed
      else if rank_of y < rank_of x then Some InImproved
      else if rank_of x = 3 \<and> severity_of x \<noteq> severity_of y then Some InSeverityChanged
      else None)"
  by (cases x; cases y)
    (simp_all add: classify.simps rank_of_def severity_of_def rank_eq_fail)

lemma classify_simps:
  "classify x y = Some InAdded \<longleftrightarrow> rank_of x = 0 \<and> 0 < rank_of y"
  "classify x y = Some InUnassessed \<longleftrightarrow> 0 < rank_of x \<and> rank_of y = 0"
  "classify x y = Some InRegressed \<longleftrightarrow> 0 < rank_of x \<and> rank_of x < rank_of y"
  "classify x y = Some InImproved \<longleftrightarrow> 0 < rank_of y \<and> rank_of y < rank_of x"
  "classify x y = Some InSeverityChanged \<longleftrightarrow>
     rank_of x = 3 \<and> rank_of y = 3 \<and> severity_of x \<noteq> severity_of y"
  by (auto simp: classify_rank)

lemma compare_step_bucket:
  "bucket_of k (compare_step b a i d) =
   bucket_of k d @ (if classify (m_get b i) (m_get a i) = Some k then [change_at b a i] else [])"
  by (cases k; cases "m_get b i"; cases "m_get a i")
    (simp_all add: compare_step_def classify.simps verdict_at_def zero_verdict_def Let_def)

lemma compare_step_other [simp]:
  "Comparable (compare_step b a i d) = Comparable d"
  "ScoreFrom (compare_step b a i d) = ScoreFrom d" "ScoreTo (compare_step b a i d) = ScoreTo d"
  by (simp_all add: compare_step_def Let_def)

lemma fold_compare_bucket:
  "bucket_of k (fold (compare_step b a) is d) =
   bucket_of k d @
   map (change_at b a) (filter (\<lambda>i. classify (m_get b i) (m_get a i) = Some k) is)"
  by (induction "is" arbitrary: d) (simp_all add: compare_step_bucket)

lemma fold_compare_other [simp]:
  "Comparable (fold (compare_step b a) is d) = Comparable d"
  "ScoreFrom (fold (compare_step b a) is d) = ScoreFrom d"
  "ScoreTo (fold (compare_step b a) is d) = ScoreTo d"
  by (induction "is" arbitrary: d) simp_all

lemma bucket_of_scores [simp]:
  "bucket_of k (d\<lparr>ScoreFrom := x, ScoreTo := y\<rparr>) = bucket_of k d"
  by (cases k) simp_all

definition change_for :: "Statement \<Rightarrow> Statement \<Rightarrow> string \<Rightarrow> Change" where
  "change_for b a = change_at (verdictIndex b) (verdictIndex a)"

lemma Compare_bucket:
  "bucket_of k (Compare before after) =
   map (change_for before after)
     (filter (\<lambda>i. classify (outcome before i) (outcome after i) = Some k) (delta_ids before after))"
proof -
  have "bucket_of k (empty_delta c) = []" for c
    by (cases k) (simp_all add: empty_delta_def)
  then show ?thesis
    by (simp add: Compare_def Let_def fold_compare_bucket change_for_def delta_ids_def
        split: option.split)
qed

lemmas Compare_lists =
  Compare_bucket [of InRegressed, unfolded bucket_of.simps]
  Compare_bucket [of InImproved, unfolded bucket_of.simps]
  Compare_bucket [of InSeverityChanged, unfolded bucket_of.simps]
  Compare_bucket [of InUnassessed, unfolded bucket_of.simps]
  Compare_bucket [of InAdded, unfolded bucket_of.simps]

lemma chID_change_for [simp]: "chID (change_for b a i) = i"
  by (simp add: change_for_def change_at_def)

lemma classify_some_known:
  "classify (outcome b i) (outcome a i) = Some k \<Longrightarrow> i \<in> set (delta_ids b a)"
  by (cases "outcome b i"; cases "outcome a i") (auto simp: set_delta_ids classify.simps)

lemma in_bucket_iff:
  "c \<in> set (bucket_of k (Compare b a)) \<longleftrightarrow>
   c = change_for b a (chID c) \<and> classify (outcome b (chID c)) (outcome a (chID c)) = Some k"
  by (auto simp: Compare_bucket dest: classify_some_known intro: image_eqI [of _ _ "chID c"])

lemma bucket_ids:
  "map chID (bucket_of k (Compare b a)) =
   filter (\<lambda>i. classify (outcome b i) (outcome a i) = Some k) (delta_ids b a)"
  by (simp add: Compare_bucket comp_def)

end
