(* ===== verification/DiffProps.thy ===== *)
theory DiffProps
  imports Diff Fixture
begin

text \<open>
  What \<open>Compare\<close> answers: each list of a delta characterised by the two statements' verdicts,
  the lists as a partition in id order, comparison with itself, the duality of the two
  directions, and the drift gate over a chain of statements.
\<close>

subsection \<open>The five lists\<close>

definition worse :: "string \<Rightarrow> string \<Rightarrow> bool" where
  "worse s t \<longleftrightarrow>
     s \<in> {''pass'', ''info''} \<and> t \<in> {''warn'', ''fail''} \<or> s = ''warn'' \<and> t = ''fail''"

definition assessed :: "Statement \<Rightarrow> string \<Rightarrow> bool" where
  "assessed s i \<longleftrightarrow>
     (case VerdictFor s i of
        Inl e \<Rightarrow> False
      | Inr v \<Rightarrow> vStatus v \<in> {''pass'', ''info'', ''warn'', ''fail''})"

lemma assessed_measured: "assessed s i \<longleftrightarrow> measured (outcome s i)"
  by (auto simp: assessed_def VerdictFor_outcome rank_pos_iff split: option.split)

lemma worse_rank: "worse s t \<longleftrightarrow> 0 < rank s \<and> rank s < rank t"
  by (auto simp: worse_def rank_less_iff)

definition change_between :: "Verdict \<Rightarrow> Verdict \<Rightarrow> Change" where
  "change_between v w =
     \<lparr>chID = vID v, chFrom = vStatus v, chTo = vStatus w, chFromSeverity = vSeverity v,
      chToSeverity = vSeverity w\<rparr>"

text \<open>Two verdicts of one check, one in each statement.\<close>

definition both :: "Statement \<Rightarrow> Statement \<Rightarrow> string \<Rightarrow> Verdict \<Rightarrow> Verdict \<Rightarrow> bool" where
  "both b a i v w \<longleftrightarrow> VerdictFor b i = Inr v \<and> VerdictFor a i = Inr w"

lemma both_iff: "both b a i v w \<longleftrightarrow> outcome b i = Some v \<and> outcome a i = Some w"
  by (auto simp: both_def VerdictFor_outcome split: option.splits)

lemma change_for_both: "both b a i v w \<Longrightarrow> change_for b a i = change_between v w"
  by (auto simp: both_iff change_for_def change_at_def verdict_at_def change_between_def
      dest: outcome_id)

lemma classify_both_iff:
  assumes "k \<in> {InRegressed, InImproved, InSeverityChanged}"
  shows "classify (outcome b i) (outcome a i) = Some k \<longleftrightarrow>
    (\<exists>v w. both b a i v w \<and> classify (Some v) (Some w) = Some k)"
  using assms
  by (cases "outcome b i"; cases "outcome a i") (auto simp: both_iff classify_simps rank_of_def)

lemma in_bucket_both_iff:
  assumes "k \<in> {InRegressed, InImproved, InSeverityChanged}"
  shows "c \<in> set (bucket_of k (Compare b a)) \<longleftrightarrow>
    (\<exists>v w. both b a (chID c) v w \<and> classify (Some v) (Some w) = Some k \<and>
       c = change_between v w)"
  unfolding in_bucket_iff classify_both_iff [OF assms] by (metis change_for_both)

lemma classify_pair:
  "classify (Some v) (Some w) = Some InRegressed \<longleftrightarrow> worse (vStatus v) (vStatus w)"
  "classify (Some v) (Some w) = Some InImproved \<longleftrightarrow> worse (vStatus w) (vStatus v)"
  "classify (Some v) (Some w) = Some InSeverityChanged \<longleftrightarrow>
     vStatus v = ''fail'' \<and> vStatus w = ''fail'' \<and> vSeverity v \<noteq> vSeverity w"
  by (auto simp: classify_simps worse_rank rank_of_def severity_of_def rank_eq_fail)

text \<open>
  C28. A check is reported as regressed exactly when both statements carry a verdict for it and
  the outcome went from pass or info to warn or fail, or from warn to fail.
\<close>

theorem Compare_regressed_iff:
  "c \<in> set (Regressed (Compare b a)) \<longleftrightarrow>
   (\<exists>v w. both b a (chID c) v w \<and> worse (vStatus v) (vStatus w) \<and> c = change_between v w)"
  using in_bucket_both_iff [of InRegressed c b a] by (simp add: classify_pair)

text \<open>
  C29. The other four lists: improved is regressed the other way round, a severity change needs
  a failing verdict on both sides, a check is unassessed when it was measured and is now
  skipped, unknown or absent, and added when it is measured now and was not before.
\<close>

theorem Compare_other_lists:
  "(c \<in> set (Improved (Compare b a)) \<longleftrightarrow>
     (\<exists>v w. both b a (chID c) v w \<and> worse (vStatus w) (vStatus v) \<and> c = change_between v w)) \<and>
   (c \<in> set (SeverityChanged (Compare b a)) \<longleftrightarrow>
     (\<exists>v w. both b a (chID c) v w \<and> vStatus v = ''fail'' \<and> vStatus w = ''fail'' \<and>
        vSeverity v \<noteq> vSeverity w \<and> c = change_between v w)) \<and>
   (c \<in> set (Unassessed (Compare b a)) \<longleftrightarrow>
     assessed b (chID c) \<and> \<not> assessed a (chID c) \<and> c = change_for b a (chID c)) \<and>
   (c \<in> set (Added (Compare b a)) \<longleftrightarrow>
     \<not> assessed b (chID c) \<and> assessed a (chID c) \<and> c = change_for b a (chID c))"
proof (intro conjI)
  show "c \<in> set (Improved (Compare b a)) \<longleftrightarrow>
     (\<exists>v w. both b a (chID c) v w \<and> worse (vStatus w) (vStatus v) \<and> c = change_between v w)"
    using in_bucket_both_iff [of InImproved c b a] by (simp add: classify_pair)
  show "c \<in> set (SeverityChanged (Compare b a)) \<longleftrightarrow>
     (\<exists>v w. both b a (chID c) v w \<and> vStatus v = ''fail'' \<and> vStatus w = ''fail'' \<and>
        vSeverity v \<noteq> vSeverity w \<and> c = change_between v w)"
    using in_bucket_both_iff [of InSeverityChanged c b a] by (simp add: classify_pair)
  show "c \<in> set (Unassessed (Compare b a)) \<longleftrightarrow>
     assessed b (chID c) \<and> \<not> assessed a (chID c) \<and> c = change_for b a (chID c)"
    using in_bucket_iff [of c InUnassessed b a]
    by (auto simp: classify_simps assessed_measured measured_rank)
  show "c \<in> set (Added (Compare b a)) \<longleftrightarrow>
     \<not> assessed b (chID c) \<and> assessed a (chID c) \<and> c = change_for b a (chID c)"
    using in_bucket_iff [of c InAdded b a]
    by (auto simp: classify_simps assessed_measured measured_rank)
qed

subsection \<open>The lists partition the checks, in id order\<close>

lemma distinct_buckets:
  assumes "distinct ks"
  shows "distinct (concat (map (\<lambda>k. filter (\<lambda>i. f i = Some k) (delta_ids b a)) ks))"
  using assms by (induction ks) auto

text \<open>
  C30. Each list is in strictly increasing id order, and no check is in two lists: every id the
  delta mentions, it mentions once.
\<close>

theorem Compare_partition:
  "distinct (map chID (Regressed (Compare b a) @ Improved (Compare b a) @
      SeverityChanged (Compare b a) @ Unassessed (Compare b a) @ Added (Compare b a))) \<and>
   list_all (\<lambda>k. sorted (map chID (bucket_of k (Compare b a))))
     [InRegressed, InImproved, InSeverityChanged, InUnassessed, InAdded]"
proof -
  have "sorted (map chID (bucket_of k (Compare b a)))" for k
    unfolding bucket_ids delta_ids_def by (rule sorted_filter_sort)
  moreover have "distinct (concat (map (\<lambda>k. map chID (bucket_of k (Compare b a)))
      [InRegressed, InImproved, InSeverityChanged, InUnassessed, InAdded]))"
    unfolding bucket_ids by (rule distinct_buckets) simp
  ultimately show ?thesis by (simp del: distinct_append)
qed

subsection \<open>Comparing a statement with itself, and both ways round\<close>

lemma classify_self [simp]: "classify x x = None"
  by (simp add: classify_rank)

lemma Compare_bucket_self: "bucket_of k (Compare s s) = []"
  by (simp add: Compare_bucket)

lemma Compare_flags:
  "Comparable (Compare b a) = comparable b a"
  "ScoreFrom (Compare b a) =
     (if comparable b a \<and> EvScore (Predicate a) \<noteq> None
      then map_option scTotal (EvScore (Predicate b)) else None)"
  "ScoreTo (Compare b a) =
     (if comparable b a \<and> EvScore (Predicate b) \<noteq> None
      then map_option scTotal (EvScore (Predicate a)) else None)"
  by (simp_all add: Compare_def Let_def empty_delta_def split: option.split)

text \<open>
  A statement does not drift from itself: no list has an entry, the two are comparable, and
  both scores are the statement's own.
\<close>

theorem Compare_self:
  "Compare s s =
   (empty_delta True)\<lparr>ScoreFrom := map_option scTotal (EvScore (Predicate s)),
     ScoreTo := map_option scTotal (EvScore (Predicate s))\<rparr> \<and>
   \<not> Regression (Compare s s)"
proof -
  have lists: "Regressed (Compare s s) = []" "Improved (Compare s s) = []"
    "SeverityChanged (Compare s s) = []" "Unassessed (Compare s s) = []"
    "Added (Compare s s) = []"
    by (simp_all add: Compare_lists)
  have "comparable s s" by (simp add: comparable_def)
  with lists Compare_flags [of s s] show ?thesis
    by (cases "EvScore (Predicate s)")
      (auto intro!: Delta.equality simp: empty_delta_def Regression_def)
qed

definition flip :: "Change \<Rightarrow> Change" where
  "flip c =
     \<lparr>chID = chID c, chFrom = chTo c, chTo = chFrom c, chFromSeverity = chToSeverity c,
      chToSeverity = chFromSeverity c\<rparr>"

fun flip_bucket :: "bucket \<Rightarrow> bucket" where
  "flip_bucket InRegressed = InImproved"
| "flip_bucket InImproved = InRegressed"
| "flip_bucket InSeverityChanged = InSeverityChanged"
| "flip_bucket InUnassessed = InAdded"
| "flip_bucket InAdded = InUnassessed"

lemma classify_flip: "classify y x = map_option flip_bucket (classify x y)"
  by (auto simp: classify_rank)

lemma flip_bucket_flip [simp]: "flip_bucket (flip_bucket k) = k"
  by (cases k) simp_all

lemma flip_bucket_inj [simp]: "flip_bucket k = flip_bucket k' \<longleftrightarrow> k = k'"
  by (metis flip_bucket_flip)

lemma change_for_flip: "change_for a b i = flip (change_for b a i)"
  by (simp add: change_for_def change_at_def flip_def)

text \<open>
  C31. The two directions are mirror images: what regressed from one statement to the other
  improved on the way back, lost coverage comes back as added checks, severity changes stay,
  and every entry has its two sides swapped.
\<close>

theorem Compare_flip:
  "bucket_of (flip_bucket k) (Compare a b) = map flip (bucket_of k (Compare b a))"
proof -
  have "classify (outcome a i) (outcome b i) = Some (flip_bucket k) \<longleftrightarrow>
        classify (outcome b i) (outcome a i) = Some k" for i
    by (subst classify_flip) auto
  then show ?thesis
    by (simp add: Compare_bucket delta_ids_commute [of a b] change_for_flip [of a b] comp_def)
qed

subsection \<open>The drift gate over a chain\<close>

lemma Regression_iff:
  "Regression (Compare b a) \<longleftrightarrow>
   (\<exists>i. classify (outcome b i) (outcome a i) = Some InRegressed)"
  by (auto simp: Regression_def Compare_lists filter_empty_conv dest: classify_some_known)

lemma Unassessed_Nil_iff:
  "Unassessed (Compare b a) = [] \<longleftrightarrow> (\<forall>i. measured (outcome b i) \<longrightarrow> measured (outcome a i))"
  by (auto simp: Compare_lists filter_empty_conv classify_simps measured_rank)
    (metis classify_simps(2) classify_some_known neq0_conv)

text \<open>
  C32. The drift gate may be run step by step: if neither step of a chain of three statements
  regressed and the first step lost no coverage, nothing regressed from the first to the last.
\<close>

theorem no_regression_chain:
  assumes "\<not> Regression (Compare s1 s2)" "\<not> Regression (Compare s2 s3)"
    and "Unassessed (Compare s1 s2) = []"
  shows "\<not> Regression (Compare s1 s3)"
proof
  assume "Regression (Compare s1 s3)"
  then obtain i where i: "0 < rank_of (outcome s1 i)"
    "rank_of (outcome s1 i) < rank_of (outcome s3 i)"
    by (auto simp: Regression_iff classify_simps)
  with assms(3) have "0 < rank_of (outcome s2 i)"
    by (simp add: Unassessed_Nil_iff measured_rank)
  with i assms(1,2) have "rank_of (outcome s2 i) \<le> rank_of (outcome s1 i)"
    "rank_of (outcome s3 i) \<le> rank_of (outcome s2 i)"
    by (auto simp: Regression_iff classify_simps not_less dest!: spec [of _ i])
  with i(2) show False by linarith
qed

text \<open>
  The sample statement, a later one in which the warning is gone, and one in which the check
  that was skipped fails: the chain has no regression, though a check was added that fails.
\<close>

definition with_verdicts :: "Verdict list \<Rightarrow> Statement" where
  "with_verdicts vs = fixture\<lparr>Predicate := fixture_evaluation\<lparr>Verdicts := vs\<rparr>\<rparr>"

definition simple_verdict :: "string \<Rightarrow> string \<Rightarrow> Verdict" where
  "simple_verdict i st = zero_verdict\<lparr>vID := i, vStatus := st\<rparr>"

lemmas simple_defs [record_defs] =
  with_verdicts_def simple_verdict_def zero_verdict_def fixture_def

lemma verdictIndex_with: "Verdicts (Predicate (with_verdicts vs)) = vs"
  by (simp add: record_defs)

lemma Compare_with:
  "bucket_of k (Compare (with_verdicts vs) (with_verdicts ws)) =
   map (change_for (with_verdicts vs) (with_verdicts ws))
     (filter (\<lambda>i. classify (List.find (\<lambda>v. vID v = i) vs) (List.find (\<lambda>v. vID v = i) ws) = Some k)
       (delta_ids (with_verdicts vs) (with_verdicts ws)))"
  by (simp add: Compare_bucket outcome_def verdictIndex_with)

lemma no_Regression_with:
  "(\<And>i. classify (List.find (\<lambda>v. vID v = i) vs) (List.find (\<lambda>v. vID v = i) ws) \<noteq> Some InRegressed) \<Longrightarrow>
   \<not> Regression (Compare (with_verdicts vs) (with_verdicts ws))"
  by (simp add: Regression_iff outcome_def verdictIndex_with)

theorem no_regression_chain_witness:
  "\<not> Regression (Compare (with_verdicts [simple_verdict ''a'' ''warn''])
     (with_verdicts [simple_verdict ''a'' ''pass'', simple_verdict ''b'' ''fail'']))"
proof (rule no_regression_chain)
  let ?s1 = "with_verdicts [simple_verdict ''a'' ''warn'']"
  let ?s2 = "with_verdicts [simple_verdict ''a'' ''info'']"
  let ?s3 = "with_verdicts [simple_verdict ''a'' ''pass'', simple_verdict ''b'' ''fail'']"
  show "\<not> Regression (Compare ?s1 ?s2)" "\<not> Regression (Compare ?s2 ?s3)"
    by (rule no_Regression_with, simp add: record_defs classify.simps)+
  show "Unassessed (Compare ?s1 ?s2) = []"
    by (simp add: Unassessed_Nil_iff outcome_def verdictIndex_with) (simp add: record_defs)
qed

text \<open>
  Scores are given exactly when both statements carry one and were judged against the same
  rubric and check inventory, and then they are the two totals.
\<close>

theorem Compare_scores:
  "(ScoreFrom (Compare b a), ScoreTo (Compare b a)) =
   (case (EvScore (Predicate b), EvScore (Predicate a)) of
      (Some x, Some y) \<Rightarrow>
        if JudgedAgainst (Predicate a) =
             (JudgedAgainst (Predicate b))\<lparr>SpecRevision := SpecRevision (JudgedAgainst (Predicate a))\<rparr>
        then (Some (scTotal x), Some (scTotal y)) else (None, None)
    | _ \<Rightarrow> (None, None))"
proof -
  have "JudgedAgainst (Predicate a) =
      (JudgedAgainst (Predicate b))\<lparr>SpecRevision := SpecRevision (JudgedAgainst (Predicate a))\<rparr> \<longleftrightarrow>
      comparable b a"
    by (cases "JudgedAgainst (Predicate a)"; cases "JudgedAgainst (Predicate b)")
      (auto simp: comparable_def)
  then show ?thesis by (simp add: Compare_flags split: option.split)
qed

end
