(* ===== verification/ConfigFile.thy ===== *)
theory ConfigFile
  imports Attestation
begin

text \<open>
  The processor's configuration: the types, \<open>Requires\<close>, \<open>Validate\<close> and \<open>transport\<close> of
  \<open>processor/config.go\<close>. \<open>Validate\<close> joins a list of errors; an error is a constructor with the
  arguments of its message, and \<open>config_errors_text\<close> is the message. Reading the JSON is in
  \<open>ParseFiles\<close>.
\<close>

subsection \<open>The code\<close>

text \<open>The processor's own \<open>Target\<close>, a gated backend; the attestation package has another.\<close>

record CTarget =
  ctAttestation :: string
  ctEndpoint :: string
  ctTransport :: string

record Policy =
  MinScore :: float64
  DenyFailIn :: "string list"
  RequireAttestation :: "bool option"

record Config =
  Targets :: "CTarget gomap"
  cfPolicy :: Policy
  PassthroughMethods :: "string list"

definition Requires :: "Policy \<Rightarrow> bool" where
  "Requires p \<longleftrightarrow> RequireAttestation p = None \<or> the (RequireAttestation p)"

text \<open>\<open>c.Targets[name]\<close>, the zero target for a name the map does not hold.\<close>

definition zero_target :: CTarget where
  "zero_target = \<lparr>ctAttestation = [], ctEndpoint = [], ctTransport = []\<rparr>"

definition target_at :: "CTarget gomap \<Rightarrow> string \<Rightarrow> CTarget" where
  "target_at m n = (case m_get m n of None \<Rightarrow> zero_target | Some t \<Rightarrow> t)"

datatype config_error =
    NoTargets
  | EmptyTargetName
  | NoAttestation string
  | NotFileNorHttps string
  | NoTargetEndpoint string
  | BadTargetTransport string
  | MinScoreRange
  | EmptyCategory

definition https_prefix :: string where
  "https_prefix = ''https://''"

definition scheme_sep :: string where
  "scheme_sep = ''://''"

definition target_errors :: "string \<Rightarrow> CTarget \<Rightarrow> config_error list" where
  "target_errors name t =
     (if trim_space name = [] then [EmptyTargetName] else []) @
     (if ctAttestation t = [] then [NoAttestation name]
      else if contains (ctAttestation t) scheme_sep \<and> \<not> has_prefix (ctAttestation t) https_prefix
      then [NotFileNorHttps name] else []) @
     (if ctEndpoint t = [] then [NoTargetEndpoint name] else []) @
     (if ctTransport t \<in> set [[], ''http'', ''stdio''] then [] else [BadTargetTransport name])"

definition policy_errors :: "Policy \<Rightarrow> config_error list" where
  "policy_errors p =
     (if f64_less (MinScore p) (Fin 0) \<or> f64_less (Fin 100) (MinScore p)
      then [MinScoreRange] else []) @
     concat (map (\<lambda>cat. if trim_space cat = [] then [EmptyCategory] else []) (DenyFailIn p))"

definition config_errors :: "Config \<Rightarrow> config_error list" where
  "config_errors c =
     (if Targets c = [] then [NoTargets] else []) @
     concat (map (\<lambda>name. target_errors name (target_at (Targets c) name))
       (sorted_keys (Targets c))) @
     policy_errors (cfPolicy c)"

text \<open>\<open>errors.Join\<close>: nil for no error.\<close>

definition Config_Validate :: "Config \<Rightarrow> config_error list option" where
  "Config_Validate c = (let errs = config_errors c in if errs = [] then None else Some errs)"

fun config_error_text :: "(nat \<Rightarrow> bool) \<Rightarrow> config_error \<Rightarrow> string" where
  "config_error_text u NoTargets = ''config: no targets''"
| "config_error_text u EmptyTargetName = ''config: a target has an empty name''"
| "config_error_text u (NoAttestation n) =
     ''config: target '' @ go_quote u n @ '' has no attestation''"
| "config_error_text u (NotFileNorHttps n) =
     ''config: target '' @ go_quote u n @ '': attestation must be a file path or an https URL''"
| "config_error_text u (NoTargetEndpoint n) =
     ''config: target '' @ go_quote u n @ '' has no endpoint''"
| "config_error_text u (BadTargetTransport n) =
     ''config: target '' @ go_quote u n @ '': transport must be http or stdio''"
| "config_error_text u MinScoreRange = ''config: policy.minScore must be between 0 and 100''"
| "config_error_text u EmptyCategory = ''config: policy.denyFailIn has an empty category''"

definition config_errors_text :: "(nat \<Rightarrow> bool) \<Rightarrow> config_error list \<Rightarrow> string" where
  "config_errors_text u errs = join (map (config_error_text u) errs) ''\<newline>''"

definition transport :: "CTarget \<Rightarrow> string" where
  "transport t = (if ctTransport t = [] then ''http'' else ctTransport t)"

subsection \<open>What a usable configuration is\<close>

definition file_or_https :: "string \<Rightarrow> bool" where
  "file_or_https src \<longleftrightarrow> has_prefix src https_prefix \<or> \<not> contains src scheme_sep"

definition usable_target :: "string \<Rightarrow> CTarget \<Rightarrow> bool" where
  "usable_target name t \<longleftrightarrow>
     trim_space name \<noteq> [] \<and> ctAttestation t \<noteq> [] \<and> file_or_https (ctAttestation t) \<and>
     ctEndpoint t \<noteq> [] \<and> transport t \<in> {''http'', ''stdio''}"

definition usable_policy :: "Policy \<Rightarrow> bool" where
  "usable_policy p \<longleftrightarrow>
     (MinScore p = NaN \<or> (\<exists>x. MinScore p = Fin x \<and> 0 \<le> x \<and> x \<le> 100)) \<and>
     (\<forall>cat \<in> set (DenyFailIn p). trim_space cat \<noteq> [])"

definition usable :: "Config \<Rightarrow> bool" where
  "usable c \<longleftrightarrow>
     Targets c \<noteq> [] \<and> list_all (\<lambda>(name, t). usable_target name t) (Targets c) \<and>
     usable_policy (cfPolicy c)"

lemma concat_map_Nil_iff: "concat (map f xs) = [] \<longleftrightarrow> (\<forall>x\<in>set xs. f x = [])"
  by auto

lemma target_errors_Nil [problem_simps]: "target_errors name t = [] \<longleftrightarrow> usable_target name t"
  by (auto simp: target_errors_def usable_target_def file_or_https_def transport_def)

lemma f64_range:
  "\<not> f64_less x (Fin 0) \<and> \<not> f64_less (Fin 100) x \<longleftrightarrow>
   x = NaN \<or> (\<exists>q. x = Fin q \<and> 0 \<le> q \<and> q \<le> 100)"
  by (cases x) (auto simp: not_less)

lemma policy_errors_Nil [problem_simps]: "policy_errors p = [] \<longleftrightarrow> usable_policy p"
  using f64_range [of "MinScore p"]
  by (auto simp: policy_errors_def usable_policy_def concat_map_Nil_iff)

lemma target_at_Some: "m_get m n = Some t \<Longrightarrow> target_at m n = t"
  by (simp add: target_at_def)

lemma targets_errors_Nil [problem_simps]:
  assumes "wf_map m"
  shows "concat (map (\<lambda>n. target_errors n (target_at m n)) (sorted_keys m)) = [] \<longleftrightarrow>
         list_all (\<lambda>(n, t). usable_target n t) m"
proof -
  have mem: "(n, t) \<in> set m \<longleftrightarrow> m_get m n = Some t" for n t
    using assms by (simp add: wf_map_def m_get_def map_of_eq_Some_iff)
  have "(\<forall>n\<in>set (sorted_keys m). usable_target n (target_at m n)) \<longleftrightarrow>
        (\<forall>n t. m_get m n = Some t \<longrightarrow> usable_target n t)"
    by (metis set_sorted_keys target_at_Some)
  then show ?thesis
    unfolding concat_map_Nil_iff target_errors_Nil list_all_iff by (auto simp: mem)
qed

lemma Config_Validate_usable: "wf_map (Targets c) \<Longrightarrow> Config_Validate c = None \<longleftrightarrow> usable c"
  by (simp add: Config_Validate_def Let_def config_errors_def problem_simps usable_def
      del: concat_eq_Nil_conv)

text \<open>The errors do not depend on the order in which \<open>range\<close> visits the targets.\<close>

lemma config_errors_order_free:
  assumes "wf_map (Targets c)" "wf_map m" "m_get m = m_get (Targets c)"
  shows "config_errors (c\<lparr>Targets := m\<rparr>) = config_errors c"
proof -
  have "target_at m = target_at (Targets c)"
    using assms(3) by (simp add: fun_eq_iff target_at_def)
  moreover have "m = [] \<longleftrightarrow> Targets c = []"
    using assms(3) by (simp add: gomap_Nil_iff)
  ultimately show ?thesis
    using sorted_keys_determined [OF assms(2,1,3)] by (simp add: config_errors_def)
qed

end
