(* ===== verification/Admission.thy ===== *)
theory Admission
  imports Validate ConfigFile
begin

text \<open>
  The admission decision of \<open>processor/policy.go\<close>: \<open>Evaluate\<close> decides one target from the entry
  the store holds for it, \<open>failingIn\<close> collects the failing checks of the denied categories. The
  reason of a decision is a constructor with the arguments of its format string; \<open>reason_text\<close>
  is the sentence.
\<close>

subsection \<open>The code\<close>

text \<open>The first component of each reason is the target; the last two are those of a pass.\<close>

datatype reason =
    NotConfigured string
  | NotConfiguredAllowed string
  | Unusable string string
  | UnusableAllowed string string
  | NoScore string float64
  | BelowMinimum string float64 string float64
  | FailingIn string "(string \<times> string list) list"
  | Passes string
  | PassesWithScore string float64 string

record Decision =
  Allow :: bool
  Reason :: reason
  dStatement :: "Statement option"

record entry =
  eStatement :: "Statement option"
  eReason :: string

definition failing_step :: "bool gomap \<Rightarrow> Verdict \<Rightarrow> string list gomap \<Rightarrow> string list gomap" where
  "failing_step denied v out =
     (if vStatus v \<noteq> ''fail'' \<or> \<not> m_flag denied (vPhase v) then out
      else m_put (vPhase v)
        ((case m_get out (vPhase v) of None \<Rightarrow> [] | Some ids \<Rightarrow> ids) @ [vID v]) out)"

definition denied_set :: "Policy \<Rightarrow> bool gomap" where
  "denied_set p = fold (\<lambda>cat. m_put cat True) (DenyFailIn p) m_empty"

definition failingIn :: "Policy \<Rightarrow> Verdict list \<Rightarrow> string list gomap" where
  "failingIn p vs =
     (if length (DenyFailIn p) = 0 then m_empty
      else fold (failing_step (denied_set p)) vs m_empty)"

definition failing_parts :: "string list gomap \<Rightarrow> (string \<times> string list) list" where
  "failing_parts f =
     map (\<lambda>cat. (cat, case m_get f cat of None \<Rightarrow> [] | Some ids \<Rightarrow> ids)) (sorted_keys f)"

definition deny :: "reason \<Rightarrow> Statement option \<Rightarrow> Decision" where
  "deny r st = \<lparr>Allow = False, Reason = r, dStatement = st\<rparr>"

definition allow :: "reason \<Rightarrow> Statement option \<Rightarrow> Decision" where
  "allow r st = \<lparr>Allow = True, Reason = r, dStatement = st\<rparr>"

text \<open>The score check of a non-zero minimum: the denial, if there is one.\<close>

definition score_denial :: "Policy \<Rightarrow> string \<Rightarrow> Score option \<Rightarrow> reason option" where
  "score_denial p target sc =
     (if f64_less 0 (MinScore p) then
        (case sc of
           None \<Rightarrow> Some (NoScore target (MinScore p))
         | Some s \<Rightarrow>
             if f64_less (scTotal s) (MinScore p)
             then Some (BelowMinimum target (scTotal s) (scGrade s) (MinScore p)) else None)
      else None)"

definition Evaluate :: "Policy \<Rightarrow> string \<Rightarrow> entry option \<Rightarrow> Decision" where
  "Evaluate p target e =
     (case e of
        None \<Rightarrow>
          if Requires p then deny (NotConfigured target) None
          else allow (NotConfiguredAllowed target) None
      | Some en \<Rightarrow>
          (case eStatement en of
             None \<Rightarrow>
               if Requires p then deny (Unusable target (eReason en)) None
               else allow (UnusableAllowed target (eReason en)) None
           | Some st \<Rightarrow>
               (case score_denial p target (EvScore (Predicate st)) of
                  Some r \<Rightarrow> deny r (Some st)
                | None \<Rightarrow>
                    let failing = failingIn p (Verdicts (Predicate st)) in
                    if length failing > 0
                    then deny (FailingIn target (failing_parts failing)) (Some st)
                    else allow
                      (case EvScore (Predicate st) of
                         None \<Rightarrow> Passes target
                       | Some s \<Rightarrow> PassesWithScore target (scTotal s) (scGrade s)) (Some st))))"

definition target_text :: "(nat \<Rightarrow> bool) \<Rightarrow> string \<Rightarrow> string" where
  "target_text u t = ''target '' @ go_quote u t @ '': ''"

definition part_text :: "string \<times> string list \<Rightarrow> string" where
  "part_text = (\<lambda>(cat, ids). cat @ '' ('' @ join ids '', '' @ '')'')"

fun reason_text :: "(nat \<Rightarrow> bool) \<Rightarrow> reason \<Rightarrow> string" where
  "reason_text u (NotConfigured t) = target_text u t @ ''no attestation configured''"
| "reason_text u (NotConfiguredAllowed t) =
     target_text u t @ ''no attestation configured; policy does not require one''"
| "reason_text u (Unusable t r) = target_text u t @ ''attestation unusable: '' @ r"
| "reason_text u (UnusableAllowed t r) =
     target_text u t @ ''attestation unusable ('' @ r @ ''); policy does not require one''"
| "reason_text u (NoScore t m) =
     target_text u t @ ''attestation carries no score; policy requires at least '' @ format_g m"
| "reason_text u (BelowMinimum t x g m) =
     target_text u t @ ''score '' @ format_g x @ '' ('' @ g @ '') is below the minimum '' @ format_g m"
| "reason_text u (FailingIn t parts) =
     target_text u t @ ''failing checks in category '' @ join (map part_text parts) ''; ''"
| "reason_text u (Passes t) = target_text u t @ ''attestation passes policy''"
| "reason_text u (PassesWithScore t x g) =
     target_text u t @ ''score '' @ format_g x @ '' ('' @ g @ '') passes policy''"

subsection \<open>The denied categories\<close>

lemma find_map_True: "List.find (\<lambda>x. x = k) xs \<noteq> None \<longleftrightarrow> k \<in> set xs"
  by (induction xs) auto

lemma m_flag_denied: "m_flag (denied_set p) cat \<longleftrightarrow> cat \<in> set (DenyFailIn p)"
  using gm.get_fold_put [of "\<lambda>c. c" "\<lambda>c. True" "DenyFailIn p" m_empty cat]
    find_map_True [of cat "rev (DenyFailIn p)"]
  by (auto simp: m_flag_def denied_set_def split: option.splits)

text \<open>The specification: a verdict is disqualifying under a policy.\<close>

definition disqualifies :: "Policy \<Rightarrow> Verdict \<Rightarrow> bool" where
  "disqualifies p v \<longleftrightarrow> vStatus v = ''fail'' \<and> vPhase v \<in> set (DenyFailIn p)"

definition failing_ids :: "Policy \<Rightarrow> Verdict list \<Rightarrow> string \<Rightarrow> string list" where
  "failing_ids p vs cat = map vID (filter (\<lambda>v. disqualifies p v \<and> vPhase v = cat) vs)"

lemma fold_failing:
  "m_get (fold (failing_step (denied_set p)) vs m) cat =
   (if failing_ids p vs cat = [] then m_get m cat
    else Some ((case m_get m cat of None \<Rightarrow> [] | Some ids \<Rightarrow> ids) @ failing_ids p vs cat))"
proof (induction vs arbitrary: m)
  case Nil
  then show ?case by (simp add: failing_ids_def)
next
  case (Cons v vs)
  show ?case
  proof (cases "disqualifies p v")
    case False
    then have "failing_step (denied_set p) v m = m"
      by (auto simp: failing_step_def m_flag_denied disqualifies_def)
    with False Cons show ?thesis by (simp add: failing_ids_def)
  next
    case True
    then have "failing_step (denied_set p) v m =
        m_put (vPhase v) ((case m_get m (vPhase v) of None \<Rightarrow> [] | Some ids \<Rightarrow> ids) @ [vID v]) m"
      by (auto simp: failing_step_def m_flag_denied disqualifies_def)
    with True Cons show ?thesis by (simp add: failing_ids_def)
  qed
qed

lemma m_get_failingIn:
  "m_get (failingIn p vs) cat =
   (if failing_ids p vs cat = [] then None else Some (failing_ids p vs cat))"
  using fold_failing [of p vs m_empty cat]
  by (auto simp: failingIn_def failing_ids_def disqualifies_def)

lemma wf_failingIn: "wf_map (failingIn p vs)"
proof -
  have "wf_map m \<Longrightarrow> wf_map (fold (failing_step (denied_set p)) vs m)" for m
    by (induction vs arbitrary: m) (auto simp: failing_step_def gm.invar_put)
  then show ?thesis by (simp add: failingIn_def)
qed

lemma failing_ids_Nil: "failing_ids p vs cat = [] \<longleftrightarrow> (\<forall>v\<in>set vs. \<not> (disqualifies p v \<and> vPhase v = cat))"
  by (simp add: failing_ids_def filter_empty_conv)

lemma failingIn_Nil: "failingIn p vs = [] \<longleftrightarrow> (\<forall>v\<in>set vs. \<not> disqualifies p v)"
  by (auto simp: gomap_Nil_iff m_get_failingIn failing_ids_Nil)

subsection \<open>The decision, branch by branch\<close>

text \<open>The specification of a statement that may pass.\<close>

definition score_ok :: "Policy \<Rightarrow> Score option \<Rightarrow> bool" where
  "score_ok p sc \<longleftrightarrow>
     \<not> f64_less 0 (MinScore p) \<or> (\<exists>s. sc = Some s \<and> \<not> f64_less (scTotal s) (MinScore p))"

definition admissible :: "Policy \<Rightarrow> Statement \<Rightarrow> bool" where
  "admissible p st \<longleftrightarrow>
     score_ok p (EvScore (Predicate st)) \<and>
     (\<forall>v\<in>set (Verdicts (Predicate st)). \<not> disqualifies p v)"

lemma score_denial_None: "score_denial p t sc = None \<longleftrightarrow> score_ok p sc"
  by (auto simp: score_denial_def score_ok_def split: option.split)

lemma decision_simps [simp]:
  "Allow (deny r st) = False" "Allow (allow r st) = True"
  "Reason (deny r st) = r" "Reason (allow r st) = r"
  "dStatement (deny r st) = st" "dStatement (allow r st) = st"
  by (simp_all add: deny_def allow_def)

definition usable_entry :: "entry option \<Rightarrow> Statement option" where
  "usable_entry e = (case e of None \<Rightarrow> None | Some en \<Rightarrow> eStatement en)"

lemma Evaluate_Allow [gate_simps]:
  "Allow (Evaluate p t e) \<longleftrightarrow>
   (case usable_entry e of None \<Rightarrow> \<not> Requires p | Some st \<Rightarrow> admissible p st)"
  using failingIn_Nil [of p]
  by (auto simp: Evaluate_def usable_entry_def admissible_def Let_def
      simp flip: score_denial_None [of p t] split: option.split)

lemma Evaluate_dStatement [gate_simps]: "dStatement (Evaluate p t e) = usable_entry e"
  by (simp add: Evaluate_def usable_entry_def Let_def split: option.split)

end
