(* ===== verification/AdmissionProps.thy ===== *)
theory AdmissionProps
  imports Admission Fixture
begin

text \<open>
  What the admission decision answers, and what a configuration that validates is like.
\<close>

subsection \<open>The configuration\<close>

text \<open>
  C20. A configuration validates exactly when it is usable: it has targets, each with a name, an
  attestation from a file or an https URL, an endpoint and a known transport, a minimum score
  between 0 and 100, and no blank category.
\<close>

theorem Config_Validate_iff:
  assumes "wf_map (Targets c)"
  shows "Config_Validate c = None \<longleftrightarrow> usable c"
  using Config_Validate_usable [OF assms] .

definition sample_config :: Config where
  "sample_config =
     \<lparr>Targets = [(''search'', \<lparr>ctAttestation = ''/etc/scout/search.json'',
         ctEndpoint = ''https://mcp.example.com/mcp'', ctTransport = []\<rparr>)],
      cfPolicy = \<lparr>MinScore = Fin 80, DenyFailIn = [''auth''], RequireAttestation = None\<rparr>,
      PassthroughMethods = [''initialize'']\<rparr>"

lemma trim_plain [simp]:
  "trim_space ''search'' = ''search''" "trim_space ''auth'' = ''auth''"
  by (rule trim_space_fixed;
      simp add: leading_space_def trailing_space_def space_runes_def has_suffix_def)+

theorem Config_Validate_iff_witness:
  "Config_Validate sample_config = None"
  by (subst Config_Validate_iff)
    (simp_all add: sample_config_def wf_map_def usable_def usable_target_def usable_policy_def
      file_or_https_def https_prefix_def scheme_sep_def transport_def)

subsection \<open>Who passes\<close>

text \<open>
  C17. A target is allowed exactly when it has a usable statement that is admissible (its score
  is not below a positive minimum, a missing score being below it, and no check fails in a
  denied category), or has none and the policy does not require one. The decision carries the
  statement it rests on.
\<close>

theorem Evaluate_allow_iff:
  "(Allow (Evaluate p t e) \<longleftrightarrow>
     (case usable_entry e of None \<Rightarrow> \<not> Requires p | Some st \<Rightarrow> admissible p st)) \<and>
   dStatement (Evaluate p t e) = usable_entry e"
  by (simp add: gate_simps)

text \<open>
  Under a policy that requires attestations, an allowed decision rests on an admissible
  statement.
\<close>

theorem allowed_has_statement:
  assumes "Requires p" "Allow (Evaluate p t e)"
  obtains st where "dStatement (Evaluate p t e) = Some st" "admissible p st"
  using assms by (auto simp: gate_simps split: option.splits)

text \<open>A verdict the sample's policy does not deny, and the decision on the sample statement.\<close>

lemma admissible_fixture:
  "admissible \<lparr>MinScore = Fin 80, DenyFailIn = [''auth''], RequireAttestation = None\<rparr> fixture"
  by (simp add: admissible_def score_ok_def disqualifies_def fixture_def fixture_evaluation_def
      fixture_verdicts_def)

theorem allowed_has_statement_witness:
  "\<exists>st. dStatement (Evaluate (cfPolicy sample_config) ''search''
      (Some \<lparr>eStatement = Some fixture, eReason = []\<rparr>)) = Some st"
proof (rule allowed_has_statement [of "cfPolicy sample_config" "''search''"
      "Some \<lparr>eStatement = Some fixture, eReason = []\<rparr>"])
  show "Requires (cfPolicy sample_config)" by (simp add: Requires_def sample_config_def)
  show "Allow (Evaluate (cfPolicy sample_config) ''search''
      (Some \<lparr>eStatement = Some fixture, eReason = []\<rparr>))"
    using admissible_fixture by (simp add: gate_simps usable_entry_def sample_config_def)
qed blast

subsection \<open>Stricter policies\<close>

definition stricter :: "Policy \<Rightarrow> Policy \<Rightarrow> bool" where
  "stricter q p \<longleftrightarrow>
     \<not> f64_less (MinScore q) (MinScore p) \<and> MinScore q \<noteq> NaN \<and>
     set (DenyFailIn p) \<subseteq> set (DenyFailIn q) \<and> (Requires p \<longrightarrow> Requires q)"

lemma score_ok_stricter:
  assumes "\<not> f64_less m n" "m \<noteq> NaN" "\<not> f64_less 0 m \<or> \<not> f64_less x m"
  shows "\<not> f64_less 0 n \<or> \<not> f64_less x n"
  using assms by (cases m; cases n; cases x) (auto simp: zero_float64_def)

text \<open>
  C18. Tightening a policy never lets a target in: what a stricter policy allows (a minimum at
  least as high, more denied categories, attestation required if it was), the looser one does.
\<close>

theorem stricter_allows_less:
  assumes "stricter q p" "Allow (Evaluate q t e)"
  shows "Allow (Evaluate p t e)"
proof (cases "usable_entry e")
  case None
  with assms show ?thesis by (auto simp: gate_simps stricter_def)
next
  case (Some st)
  with assms(2) have q: "admissible q st" by (simp add: gate_simps)
  then have "score_ok p (EvScore (Predicate st))"
    using assms(1) score_ok_stricter [of "MinScore q" "MinScore p"]
    by (fastforce simp: admissible_def score_ok_def stricter_def zero_float64_def
        elim!: f64_less.elims)
  moreover have "\<forall>v\<in>set (Verdicts (Predicate st)). \<not> disqualifies p v"
    using q assms(1) by (auto simp: admissible_def disqualifies_def stricter_def)
  ultimately show ?thesis using Some by (simp add: gate_simps admissible_def)
qed

theorem stricter_allows_less_witness:
  "Allow (Evaluate ((cfPolicy sample_config)\<lparr>MinScore := 0, DenyFailIn := []\<rparr>) ''search''
     (Some \<lparr>eStatement = Some fixture, eReason = []\<rparr>))"
proof (rule stricter_allows_less [of "cfPolicy sample_config"])
  show "stricter (cfPolicy sample_config)
      ((cfPolicy sample_config)\<lparr>MinScore := 0, DenyFailIn := []\<rparr>)"
    by (simp add: stricter_def sample_config_def Requires_def zero_float64_def)
  show "Allow (Evaluate (cfPolicy sample_config) ''search''
      (Some \<lparr>eStatement = Some fixture, eReason = []\<rparr>))"
    using admissible_fixture by (simp add: gate_simps usable_entry_def sample_config_def)
qed

subsection \<open>The reason\<close>

lemma failing_parts_spec:
  "sorted (map fst (failing_parts (failingIn p vs))) \<and>
   distinct (map fst (failing_parts (failingIn p vs))) \<and>
   ((cat, ids) \<in> set (failing_parts (failingIn p vs)) \<longleftrightarrow>
    ids = failing_ids p vs cat \<and> ids \<noteq> [])"
  by (auto simp: failing_parts_def comp_def wf_failingIn m_get_failingIn set_sorted_keys
      split: if_splits)

text \<open>
  C19. A denial for failing checks names all of them and nothing else: the denied categories in
  sorted order, each once, with the ids of its failing verdicts in statement order; and the
  reason is given only when the score was good enough.
\<close>

theorem failing_reason_complete:
  "case Reason (Evaluate p t e) of
     FailingIn t' parts \<Rightarrow>
       t' = t \<and> sorted (map fst parts) \<and> distinct (map fst parts) \<and>
       (\<exists>st. usable_entry e = Some st \<and> score_ok p (EvScore (Predicate st)) \<and>
         (\<forall>cat ids. (cat, ids) \<in> set parts \<longleftrightarrow>
            ids = failing_ids p (Verdicts (Predicate st)) cat \<and> ids \<noteq> []))
   | _ \<Rightarrow> True"
proof (cases "usable_entry e")
  case None
  then show ?thesis by (auto simp: Evaluate_def usable_entry_def split: option.splits)
next
  case (Some st)
  then obtain en where e: "e = Some en" "eStatement en = Some st"
    by (auto simp: usable_entry_def split: option.splits)
  have shape: "case score_denial p t sc of Some (FailingIn t' ps) \<Rightarrow> False | _ \<Rightarrow> True" for sc
    by (simp add: score_denial_def split: option.split)
  show ?thesis
    using shape [of "EvScore (Predicate st)"] failing_parts_spec [of p "Verdicts (Predicate st)"]
      score_denial_None [of p t "EvScore (Predicate st)"]
    by (auto simp: Evaluate_def e Let_def usable_entry_def split: option.splits reason.splits)
qed

text \<open>Every reason is a sentence that starts with the target's quoted name.\<close>

theorem reason_names_target:
  "has_prefix (reason_text u (Reason (Evaluate p t e))) (''target '' @ go_quote u t @ '': '')"
proof -
  have "\<exists>rest. reason_text u (Reason (Evaluate p t e)) = target_text u t @ rest"
    by (auto simp: Evaluate_def score_denial_def Let_def split: option.split)
  then show ?thesis unfolding has_prefix_iff target_text_def by simp
qed

end
