(* ===== verification/Loading.thy ===== *)
theory Loading
  imports ConfigFile "HOL-Library.Word"
begin

text \<open>
  The loader of \<open>processor/load.go\<close>: the only part that touches the file system or the
  network. What the outside answers at one moment is in the record \<open>World\<close>: what opening a path
  gives, what an https GET gives, each with a stream that yields bytes and then ends or fails;
  whether the context has ended; and the two texts that are the libraries' own, the printable
  runes above U+00FF and the message of a JSON error. The control
  flow (the scheme switch, the status check, the size cap with its 64-bit addition) is the
  code's.
\<close>

subsection \<open>The outside\<close>

text \<open>
  A reader: its bytes, then end of file (\<open>None\<close>) or an error. The error is met on the read
  after the last byte.
\<close>

record stream =
  stBytes :: bytes
  stError :: "string option"

text \<open>
  One GET: the request cannot be built, the exchange fails, the server redirects (the
  \<open>Location\<close> header and the address it resolves to), or it answers with a status code, a
  status line and a body.
\<close>

datatype http_outcome =
    RequestInvalid string
  | DoFailed string
  | Redirected string string
  | Response int string stream

record World =
  openFile :: "string \<Rightarrow> string + stream"
  httpGet :: "string \<Rightarrow> int \<Rightarrow> http_outcome"
  ctxErr :: "string option"
  uniPrint :: "nat \<Rightarrow> bool"
  jsonErr :: "bytes \<Rightarrow> string"

subsection \<open>The code\<close>

type_synonym int64 = "64 word"

definition DefaultMaxBytes :: int64 where
  "DefaultMaxBytes = push_bit 20 1"

text \<open>Durations are nanoseconds.\<close>

definition DefaultTimeout :: int where
  "DefaultTimeout = 10 * 1000000000"

text \<open>The HTTP client is part of \<open>httpGet\<close>.\<close>

record Loader =
  ldMaxBytes :: int64
  ldTimeout :: int

datatype load_error =
    OnlyHttpsOrFile
  | OpenError string
  | HttpError string
  | BadStatus string
  | ReadError string
  | TooLarge int64

fun load_error_text :: "load_error \<Rightarrow> string" where
  "load_error_text OnlyHttpsOrFile = ''only https URLs and file paths are accepted''"
| "load_error_text (OpenError e) = e"
| "load_error_text (HttpError e) = e"
| "load_error_text (BadStatus s) = ''fetch: '' @ s"
| "load_error_text (ReadError e) = e"
| "load_error_text (TooLarge n) = ''statement exceeds '' @ show_int (sint n) @ '' bytes''"

definition maxBytes :: "Loader \<Rightarrow> int64" where
  "maxBytes l = (if sint (ldMaxBytes l) > 0 then ldMaxBytes l else DefaultMaxBytes)"

text \<open>
  \<open>io.ReadAll\<close> over \<open>io.LimitReader(r, n)\<close>: at most \<open>n\<close> bytes, none when \<open>n\<close> is not positive;
  an error of \<open>r\<close> is met only when the bytes before it do not fill the limit.
\<close>

definition read_limited :: "stream \<Rightarrow> int64 \<Rightarrow> string + bytes" where
  "read_limited r n =
     (if sint n \<le> 0 then Inr []
      else case stError r of
        None \<Rightarrow> Inr (take (nat (sint n)) (stBytes r))
      | Some e \<Rightarrow>
          if length (stBytes r) < nat (sint n) then Inl e
          else Inr (take (nat (sint n)) (stBytes r)))"

definition capped :: "Loader \<Rightarrow> stream \<Rightarrow> load_error + bytes" where
  "capped l r =
     (let limit = maxBytes l in
      case read_limited r (limit + 1) of
        Inl e \<Rightarrow> Inl (ReadError e)
      | Inr b \<Rightarrow> if int (length b) > sint limit then Inl (TooLarge limit) else Inr b)"

definition read_file :: "World \<Rightarrow> Loader \<Rightarrow> string \<Rightarrow> load_error + bytes" where
  "read_file w l path =
     (case openFile w path of
        Inl e \<Rightarrow> Inl (OpenError e)
      | Inr f \<Rightarrow> capped l f)"

text \<open>
  \<open>client.Do\<close>: \<open>http.Client\<close> follows redirects to any address, at most ten requests in all. A
  client of the caller's own is taken to keep that default.
\<close>

fun do_request :: "nat \<Rightarrow> World \<Rightarrow> int \<Rightarrow> string \<Rightarrow> http_outcome" where
  "do_request n w timeout url =
     (case httpGet w url timeout of
        Redirected loc url' \<Rightarrow>
          (case n of
             0 \<Rightarrow> DoFailed (''Get '' @ go_quote (uniPrint w) loc @ '': stopped after 10 redirects'')
           | Suc k \<Rightarrow> do_request k w timeout url')
      | out \<Rightarrow> out)"

declare do_request.simps [simp del]

definition client_Do :: "World \<Rightarrow> int \<Rightarrow> string \<Rightarrow> http_outcome" where
  "client_Do w timeout url = do_request 9 w timeout url"

lemma do_request_settled: "do_request n w timeout url \<noteq> Redirected loc url'"
  by (induction n w timeout url rule: do_request.induct)
    (subst do_request.simps, simp split: http_outcome.split nat.split)

text \<open>The third branch below is never taken (\<open>do_request_settled\<close>).\<close>

definition fetch :: "World \<Rightarrow> Loader \<Rightarrow> string \<Rightarrow> load_error + bytes" where
  "fetch w l url =
     (let timeout = (if ldTimeout l = 0 then DefaultTimeout else ldTimeout l) in
      case client_Do w timeout url of
        RequestInvalid e \<Rightarrow> Inl (HttpError e)
      | DoFailed e \<Rightarrow> Inl (HttpError e)
      | Redirected loc url' \<Rightarrow> Inl (HttpError [])
      | Response code status body \<Rightarrow>
          if code \<noteq> 200 then Inl (BadStatus status) else capped l body)"

definition Load :: "World \<Rightarrow> Loader \<Rightarrow> string \<Rightarrow> load_error + bytes" where
  "Load w l source =
     (if has_prefix source https_prefix then fetch w l source
      else if contains source scheme_sep then Inl OnlyHttpsOrFile
      else read_file w l source)"

subsection \<open>The cap\<close>

lemma sint_DefaultMaxBytes: "sint DefaultMaxBytes = 1048576"
  by (simp add: DefaultMaxBytes_def push_bit_eq_mult)

lemma maxBytes_pos: "0 < sint (maxBytes l)"
  by (simp add: maxBytes_def sint_DefaultMaxBytes)

definition max_int64 :: int64 where
  "max_int64 = 0x7FFFFFFFFFFFFFFF"

lemma sint_max_int64: "sint max_int64 = 2 ^ 63 - 1"
  by (simp add: max_int64_def)

lemma sint_succ:
  assumes "n \<noteq> max_int64"
  shows "sint (n + 1 :: int64) = sint n + 1"
proof -
  have "sint n \<noteq> 2 ^ 63 - 1"
    using assms sint_max_int64 by (metis signed_word_eqI)
  moreover have "- (2 ^ 63) \<le> sint n" "sint n < 2 ^ 63"
    using sint_greater_eq [of n] sint_less [of n] by simp_all
  ultimately show ?thesis
    by (simp add: signed_take_bit_int_eq_self sint_word_ariths(1))
qed

lemma sint_succ_max: "sint (max_int64 + 1) = - (2 ^ 63)"
  by (simp add: max_int64_def)

lemma capped_bounded: "capped l r = Inr b \<Longrightarrow> int (length b) \<le> sint (maxBytes l)"
  by (auto simp: capped_def Let_def split: sum.splits if_splits)

lemma capped_whole:
  assumes "maxBytes l \<noteq> max_int64" "capped l r = Inr b"
  shows "b = stBytes r \<and> stError r = None"
  using assms(2) maxBytes_pos [of l]
  by (auto simp: capped_def Let_def read_limited_def sint_succ [OF assms(1)]
      split: option.splits if_splits)

lemma capped_max: "maxBytes l = max_int64 \<Longrightarrow> capped l r = Inr []"
  by (simp add: capped_def Let_def read_limited_def sint_succ_max sint_max_int64)

text \<open>The bytes the outside holds under a source the loader accepts.\<close>

definition served :: "World \<Rightarrow> int \<Rightarrow> string \<Rightarrow> stream option" where
  "served w timeout source =
     (if has_prefix source https_prefix then
        (case client_Do w timeout source of
           Response code st body \<Rightarrow> if code = 200 then Some body else None
         | _ \<Rightarrow> None)
      else if contains source scheme_sep then None
      else case openFile w source of Inl e \<Rightarrow> None | Inr f \<Rightarrow> Some f)"

definition timeout_of :: "Loader \<Rightarrow> int" where
  "timeout_of l = (if ldTimeout l = 0 then DefaultTimeout else ldTimeout l)"

lemma Load_Inr:
  "Load w l source = Inr b \<longleftrightarrow>
   (\<exists>r. served w (timeout_of l) source = Some r \<and> capped l r = Inr b)"
  by (auto simp: Load_def fetch_def read_file_def served_def timeout_of_def Let_def
      split: http_outcome.splits sum.splits)

subsection \<open>What the loader promises\<close>

text \<open>
  C33. Nothing larger than the cap is ever returned, and below the largest 64-bit cap what is
  returned is all the source held, read without an error: a statement is never truncated.
\<close>

theorem Load_whole_or_error:
  "case Load w l source of
     Inl e \<Rightarrow> True
   | Inr b \<Rightarrow>
       int (length b) \<le> sint (maxBytes l) \<and>
       (maxBytes l = max_int64 \<or>
        served w (timeout_of l) source = Some \<lparr>stBytes = b, stError = None\<rparr>)"
proof (cases "Load w l source")
  case (Inr b)
  then obtain r where r: "served w (timeout_of l) source = Some r" "capped l r = Inr b"
    by (auto simp: Load_Inr)
  then have "maxBytes l = max_int64 \<or> r = \<lparr>stBytes = b, stError = None\<rparr>"
    using capped_whole [of l r b] by (cases r) auto
  with r Inr capped_bounded [OF r(2)] show ?thesis by auto
qed simp

lemma capped_accepts:
  assumes "int (length b) \<le> sint (maxBytes l)" and "maxBytes l \<noteq> max_int64"
  shows "capped l \<lparr>stBytes = b, stError = None\<rparr> = Inr b"
  using assms maxBytes_pos [of l]
  by (simp add: capped_def Let_def read_limited_def sint_succ)

text \<open>
  And nothing within the cap is refused: a source whose stream ends without an error after
  at most the cap's number of bytes is returned, unless the cap is the largest 64-bit integer.
\<close>

theorem Load_accepts_small:
  assumes "served w (timeout_of l) source = Some \<lparr>stBytes = b, stError = None\<rparr>"
    and "int (length b) \<le> sint (maxBytes l)" and "maxBytes l \<noteq> max_int64"
  shows "Load w l source = Inr b"
  using assms capped_accepts by (auto simp: Load_Inr)

text \<open>One file, no network.\<close>

definition one_file :: "string \<Rightarrow> bytes \<Rightarrow> World" where
  "one_file path b =
     \<lparr>openFile = (\<lambda>p. if p = path then Inr \<lparr>stBytes = b, stError = None\<rparr>
                      else Inl (''open '' @ p @ '': no such file or directory'')),
      httpGet = (\<lambda>url timeout. DoFailed ''no network''),
      ctxErr = None, uniPrint = (\<lambda>r. False), jsonErr = (\<lambda>b. ''invalid'')\<rparr>"

definition zero_loader :: Loader where
  "zero_loader = \<lparr>ldMaxBytes = 0, ldTimeout = 0\<rparr>"

lemma maxBytes_zero_loader: "maxBytes zero_loader = DefaultMaxBytes"
  by (simp add: maxBytes_def zero_loader_def)

lemma served_one_file: "served (one_file ''a.json'' b) t ''a.json'' = Some \<lparr>stBytes = b, stError = None\<rparr>"
  by (simp add: served_def one_file_def https_prefix_def scheme_sep_def)

lemma small_cap:
  "int (length ''{}'') \<le> sint (maxBytes zero_loader)" "maxBytes zero_loader \<noteq> max_int64"
  using sint_DefaultMaxBytes sint_max_int64 by (auto simp: maxBytes_zero_loader)

theorem Load_accepts_small_witness:
  "Load (one_file ''a.json'' ''{}'') zero_loader ''a.json'' = Inr ''{}''"
  by (rule Load_accepts_small [OF served_one_file small_cap])

text \<open>
  At the largest cap the addition wraps: with \<open>MaxBytes\<close> set to the largest \<open>int64\<close>,
  every source that can be opened at all reads as empty.
\<close>

theorem Load_wraps_at_max:
  "ldMaxBytes l = max_int64 \<Longrightarrow>
   Load w l source = Inr b \<longleftrightarrow> b = [] \<and> served w (timeout_of l) source \<noteq> None"
proof -
  assume "ldMaxBytes l = max_int64"
  then have "maxBytes l = max_int64" by (simp add: maxBytes_def sint_max_int64)
  then show ?thesis by (auto simp: Load_Inr capped_max)
qed

theorem Load_wraps_at_max_witness:
  "Load (one_file ''a.json'' ''{}'') \<lparr>ldMaxBytes = max_int64, ldTimeout = 0\<rparr> ''a.json'' = Inr []"
  using Load_wraps_at_max [of "\<lparr>ldMaxBytes = max_int64, ldTimeout = 0\<rparr>"
      "one_file ''a.json'' ''{}''" "''a.json''" "[]"]
  by (simp add: served_one_file)

text \<open>
  A redirect is followed whatever its scheme: an https source whose server redirects to a
  plain http address is answered with what that address serves.
\<close>

theorem Load_follows_http_redirect:
  assumes "has_prefix source https_prefix"
    and "httpGet w source (timeout_of l) = Redirected loc url"
    and "httpGet w url (timeout_of l) = Response 200 st r"
  shows "Load w l source = capped l r"
proof -
  have "client_Do w (timeout_of l) source = Response 200 st r"
    using assms(2,3) by (simp add: client_Do_def do_request.simps eval_nat_numeral)
  with assms(1) show ?thesis by (simp add: Load_def fetch_def timeout_of_def Let_def)
qed

definition downgrading :: World where
  "downgrading = (one_file [] [])\<lparr>httpGet := (\<lambda>url timeout.
     if url = ''https://a/s.json'' then Redirected ''http://b/s.json'' ''http://b/s.json''
     else Response 200 ''200 OK'' \<lparr>stBytes = ''{}'', stError = None\<rparr>)\<rparr>"

lemma capped_small: "capped zero_loader \<lparr>stBytes = ''{}'', stError = None\<rparr> = Inr ''{}''"
  by (rule capped_accepts [OF small_cap])

theorem Load_follows_http_redirect_witness:
  "Load downgrading zero_loader ''https://a/s.json'' = Inr ''{}''"
  using Load_follows_http_redirect [of "''https://a/s.json''" downgrading zero_loader
      "''http://b/s.json''" "''http://b/s.json''"]
  by (simp add: downgrading_def https_prefix_def capped_small)

text \<open>
  The loader refuses a source for its scheme exactly when the configuration check does: a
  configuration that validates never names an attestation the loader will not try.
\<close>

theorem Load_scheme_agrees:
  "(Load w l source = Inl OnlyHttpsOrFile \<longleftrightarrow> \<not> file_or_https source) \<and>
   (source \<noteq> [] \<longrightarrow>
    (NotFileNorHttps name \<in> set (target_errors name
        \<lparr>ctAttestation = source, ctEndpoint = ep, ctTransport = tr\<rparr>) \<longleftrightarrow>
     Load w l source = Inl OnlyHttpsOrFile))"
proof -
  have "capped l r \<noteq> Inl OnlyHttpsOrFile" for r
    by (auto simp: capped_def Let_def split: sum.splits)
  then have "Load w l source = Inl OnlyHttpsOrFile \<longleftrightarrow> \<not> file_or_https source"
    by (auto simp: Load_def fetch_def read_file_def file_or_https_def Let_def
        split: http_outcome.splits sum.splits)
  then show ?thesis by (auto simp: target_errors_def file_or_https_def)
qed

theorem Load_scheme_agrees_witness:
  "NotFileNorHttps ''a'' \<in> set (target_errors ''a''
     \<lparr>ctAttestation = ''http://x'', ctEndpoint = [], ctTransport = []\<rparr>)"
proof -
  have "\<not> file_or_https ''http://x''"
    by (simp add: file_or_https_def https_prefix_def scheme_sep_def)
  then show ?thesis
    using Load_scheme_agrees [of "one_file [] []" zero_loader "''http://x''" "''a''" "[]" "[]"]
    by simp
qed

end
