(* ===== verification/JsonPrint.thy ===== *)
theory JsonPrint
  imports GoMap GoStrings
begin

text \<open>
  The writing half of \<open>encoding/json\<close> for the values the program prints as they are: nil,
  strings, slices and maps with string keys (\<open>any\<close> values), through \<open>MarshalIndent\<close> with no
  prefix and two spaces. Map keys are sorted; a string is escaped with the HTML-safe set.
\<close>

subsection \<open>Strings\<close>

definition hex4 :: "nat \<Rightarrow> string" where
  "hex4 n = [CHR 0x5C, CHR ''u''] @ hex_pad 4 n"

definition safe_byte :: "nat \<Rightarrow> bool" where
  "safe_byte b \<longleftrightarrow> 0x20 \<le> b \<and> b < 0x80 \<and> b \<notin> set [0x22, 0x5C, 0x3C, 0x3E, 0x26]"

definition escape_byte :: "nat \<Rightarrow> string" where
  "escape_byte b =
     (if safe_byte b then [char_of b]
      else if b = 0x22 \<or> b = 0x5C then [CHR 0x5C, char_of b]
      else if b = 8 then [CHR 0x5C, CHR ''b'']
      else if b = 12 then [CHR 0x5C, CHR ''f'']
      else if b = 10 then [CHR 0x5C, CHR ''n'']
      else if b = 13 then [CHR 0x5C, CHR ''r'']
      else if b = 9 then [CHR 0x5C, CHR ''t'']
      else hex4 b)"

function json_body :: "string \<Rightarrow> string" where
  "json_body s =
     (if s = [] then []
      else let (r, w) = decode_rune s in
        (if byte_of (hd s) < 0x80 then escape_byte (byte_of (hd s)) @ json_body (tl s)
         else if w = 1 \<and> r = rune_error then hex4 rune_error @ json_body (tl s)
         else if r = 0x2028 \<or> r = 0x2029 then hex4 r @ json_body (drop w s)
         else take w s @ json_body (drop w s)))"
  by pat_completeness auto
termination
proof (relation "measure length", goal_cases)
  case (4 s x r w)
  then show ?case using decode_rune_width [of s] by (metis diff_less in_measure length_drop
      length_greater_0_conv less_le_trans prod.sel(2) zero_less_one)
next
  case (5 s x r w)
  then show ?case using decode_rune_width [of s] by (metis diff_less in_measure length_drop
      length_greater_0_conv less_le_trans prod.sel(2) zero_less_one)
qed auto

declare json_body.simps [simp del]

definition json_string :: "string \<Rightarrow> string" where
  "json_string s = [CHR 0x22] @ json_body s @ [CHR 0x22]"

definition safe_text :: "string \<Rightarrow> bool" where
  "safe_text s \<longleftrightarrow> list_all (\<lambda>c. safe_byte (byte_of c)) s"

lemma json_body_safe: "safe_text s \<Longrightarrow> json_body s = s"
proof (induction s)
  case Nil
  then show ?case by (simp add: json_body.simps)
next
  case (Cons c s)
  then have "safe_byte (byte_of c)" by (simp add: safe_text_def)
  then have "escape_byte (byte_of c) = [c]" "byte_of c < 0x80"
    by (simp_all add: escape_byte_def safe_byte_def byte_of_def)
  with Cons show ?case by (subst json_body.simps) (simp add: safe_text_def split: prod.split)
qed

lemma json_string_safe: "safe_text s \<Longrightarrow> json_string s = [CHR 0x22] @ s @ [CHR 0x22]"
  by (simp add: json_string_def json_body_safe)

text \<open>The safe bytes, told from the bits of a character: what evaluation uses.\<close>

definition safe_char :: "char \<Rightarrow> bool" where
  "safe_char c \<longleftrightarrow> \<not> digit7 c \<and> (digit5 c \<or> digit6 c) \<and>
     list_all (\<lambda>d. c \<noteq> d) [CHR 0x22, CHR 0x5C, CHR 0x3C, CHR 0x3E, CHR 0x26]"

lemma safe_char_byte: "safe_char c \<longleftrightarrow> safe_byte (byte_of c)"
proof -
  have "list_all (\<lambda>n. safe_char (char_of n) \<longleftrightarrow> safe_byte n) [0..<256]" by code_simp
  moreover have "byte_of c < 256" by (simp add: byte_of_def)
  ultimately have "safe_char (char_of (byte_of c)) \<longleftrightarrow> safe_byte (byte_of c)"
    unfolding list_all_iff by simp
  then show ?thesis by (simp add: byte_of_def)
qed

lemma json_string_code [code]:
  "json_string s =
     (if list_all safe_char s then CHR 0x22 # s @ [CHR 0x22]
      else CHR 0x22 # json_body s @ [CHR 0x22])"
  using json_body_safe [of s] by (simp add: json_string_def safe_text_def safe_char_byte list_all_iff)

subsection \<open>Values\<close>

datatype jv =
    JvNull
  | JvStr string
  | JvList "jv list"
  | JvObj "jv gomap"

definition new_line :: "nat \<Rightarrow> string" where
  "new_line d = CHR 0x0A # replicate (2 * d) (CHR '' '')"

text \<open>The lines of a list or object at depth \<open>d\<close>; an empty one stays on its line.\<close>

definition block :: "char \<Rightarrow> char \<Rightarrow> nat \<Rightarrow> string list \<Rightarrow> string" where
  "block l r d xs =
     (if xs = [] then [l, r]
      else [l] @ new_line (Suc d) @ join xs ('','' @ new_line (Suc d)) @ new_line d @ [r])"

fun print_indent :: "nat \<Rightarrow> jv \<Rightarrow> string" where
  "print_indent d JvNull = ''null''"
| "print_indent d (JvStr s) = json_string s"
| "print_indent d (JvList xs) = block (CHR ''['') (CHR '']'') d (map (print_indent (Suc d)) xs)"
| "print_indent d (JvObj m) =
     block (CHR ''{'') (CHR ''}'') d
       (map (\<lambda>(k, v). json_string k @ '': '' @ print_indent (Suc d) v) (sort_key fst m))"

text \<open>What is printed does not depend on the order the map was ranged over.\<close>

lemma print_order_free:
  "wf_map m \<Longrightarrow> mset m = mset m' \<Longrightarrow> print_indent d (JvObj m) = print_indent d (JvObj m')"
proof -
  assume "wf_map m" and same: "mset m = mset m'"
  then have "inj_on fst (set m)" by (simp add: wf_map_def distinct_map)
  then have "sort_key fst m = sort_key fst m'"
    by (intro sort_key_inj_key_eq) (simp_all add: same)
  then show ?thesis by simp
qed

end
