(* ===== verification/Json.thy ===== *)
theory Json
  imports GoStrings Float64
begin

text \<open>
  The reading half of \<open>encoding/json\<close>, as the program calls it: the grammar its scanner
  accepts, strings unquoted to UTF-8, number literals kept as text, the nesting limit. A value
  keeps, next to each member and element, the bytes it was read from, because the decoder
  hands those bytes to \<open>json.RawMessage\<close> and \<open>time.Time\<close>.

  The parser is recursive descent with fuel; \<open>parse_fuel\<close> below is enough for any input
  (\<open>parse_value_fuel\<close>), so running out is never why an input is refused.
\<close>

datatype json =
    JNull
  | JBool bool
  | JNum bytes
  | JStr string
  | JArr "(bytes \<times> json) list"
  | JObj "(string \<times> bytes \<times> json) list"

subsection \<open>Scanning\<close>

definition is_ws :: "char \<Rightarrow> bool" where
  "is_ws c \<longleftrightarrow> c = CHR '' '' \<or> c = CHR 0x09 \<or> c = CHR 0x0A \<or> c = CHR 0x0D"

definition skip_ws :: "bytes \<Rightarrow> bytes" where
  "skip_ws s = dropWhile is_ws s"

definition is_digit :: "char \<Rightarrow> bool" where
  "is_digit c \<longleftrightarrow> c \<in> set ''0123456789''"

definition digit_val :: "char \<Rightarrow> nat" where
  "digit_val c = byte_of c - 48"

definition is_hex :: "char \<Rightarrow> bool" where
  "is_hex c \<longleftrightarrow> c \<in> set ''0123456789abcdefABCDEF''"

definition hex_val :: "char \<Rightarrow> nat" where
  "hex_val c =
     (if is_digit c then digit_val c
      else if c \<in> set ''abcdef'' then byte_of c - 87 else byte_of c - 55)"

definition is_escape :: "char \<Rightarrow> bool" where
  "is_escape c \<longleftrightarrow> c \<in> set [CHR 0x22, CHR 0x5C, CHR ''/'', CHR ''b'', CHR ''f'', CHR ''n'', CHR ''r'', CHR ''t'']"

text \<open>The body of a string literal up to its closing quote, after the opening one.\<close>

fun scan_string :: "bytes \<Rightarrow> (bytes \<times> bytes) option" where
  "scan_string [] = None"
| "scan_string (c # s) =
     (if c = CHR 0x22 then Some ([], s)
      else if c = CHR 0x5C then
        (case s of
           e # s' \<Rightarrow>
             if is_escape e then
               map_option (\<lambda>(b, r). (c # e # b, r)) (scan_string s')
             else if e = CHR ''u'' then
               (case s' of
                  h1 # h2 # h3 # h4 # s'' \<Rightarrow>
                    if is_hex h1 \<and> is_hex h2 \<and> is_hex h3 \<and> is_hex h4
                    then map_option (\<lambda>(b, r). (c # e # h1 # h2 # h3 # h4 # b, r)) (scan_string s'')
                    else None
                | _ \<Rightarrow> None)
             else None
         | [] \<Rightarrow> None)
      else if byte_of c < 0x20 then None
      else map_option (\<lambda>(b, r). (c # b, r)) (scan_string s))"

text \<open>\<open>utf8.AppendRune\<close>: an invalid rune is encoded as \<open>rune_error\<close>.\<close>

definition byte_char :: "nat \<Rightarrow> char" where
  "byte_char n = char_of n"

definition encode_rune :: "nat \<Rightarrow> bytes" where
  "encode_rune r =
     (let r = (if 0x10FFFF < r \<or> 0xD800 \<le> r \<and> r \<le> 0xDFFF then rune_error else r) in
      if r < 0x80 then [byte_char r]
      else if r < 0x800 then [byte_char (0xC0 + r div 0x40), byte_char (0x80 + r mod 0x40)]
      else if r < 0x10000 then
        [byte_char (0xE0 + r div 0x1000), byte_char (0x80 + r div 0x40 mod 0x40),
         byte_char (0x80 + r mod 0x40)]
      else
        [byte_char (0xF0 + r div 0x40000), byte_char (0x80 + r div 0x1000 mod 0x40),
         byte_char (0x80 + r div 0x40 mod 0x40), byte_char (0x80 + r mod 0x40)])"

definition unescape :: "char \<Rightarrow> char" where
  "unescape c =
     (if c = CHR ''b'' then CHR 0x08 else if c = CHR ''f'' then CHR 0x0C
      else if c = CHR ''n'' then CHR 0x0A else if c = CHR ''r'' then CHR 0x0D
      else if c = CHR ''t'' then CHR 0x09 else c)"

definition u4 :: "bytes \<Rightarrow> nat" where
  "u4 s = foldl (\<lambda>a c. 16 * a + hex_val c) 0 (take 4 s)"

text \<open>
  A \<open>\u\<close> escape after its \<open>u\<close>: the bytes it stands for, and how many input bytes it takes.
  A high surrogate takes the low surrogate escape that follows it; one without its partner is
  the replacement character.
\<close>

definition unquote_u :: "bytes \<Rightarrow> bytes \<times> nat" where
  "unquote_u s =
     (let r = u4 s; t = drop 4 s; r1 = u4 (drop 2 t) in
      if 0xD800 \<le> r \<and> r \<le> 0xDFFF then
        (if take 2 t = [CHR 0x5C, CHR ''u''] \<and> r < 0xDC00 \<and> 0xDC00 \<le> r1 \<and> r1 \<le> 0xDFFF
         then (encode_rune ((r - 0xD800) * 0x400 + (r1 - 0xDC00) + 0x10000), 10)
         else (encode_rune rune_error, 4))
      else (encode_rune r, 4))"

function unquote :: "bytes \<Rightarrow> bytes" where
  "unquote s =
     (case s of
        [] \<Rightarrow> []
      | c # s' \<Rightarrow>
          if c = CHR 0x5C then
            (case s' of
               [] \<Rightarrow> []
             | e # s'' \<Rightarrow>
                 if e = CHR ''u''
                 then (case unquote_u s'' of (b, n) \<Rightarrow> b @ unquote (drop n s''))
                 else unescape e # unquote s'')
          else if byte_of c < 0x80 then c # unquote s'
          else (case decode_rune s of (r, w) \<Rightarrow> encode_rune r @ unquote (drop (max 1 w) s)))"
  by pat_completeness auto
termination
  by (relation "measure length") auto

declare unquote.simps [simp del]

text \<open>A number literal at the front of the input; the digits of each part are mandatory.\<close>

definition scan_digits :: "bytes \<Rightarrow> bytes \<times> bytes" where
  "scan_digits s = (takeWhile is_digit s, dropWhile is_digit s)"

definition scan_int :: "bytes \<Rightarrow> (bytes \<times> bytes) option" where
  "scan_int s =
     (case s of
        [] \<Rightarrow> None
      | c # r \<Rightarrow>
          if c = CHR ''0'' then Some ([c], r)
          else if is_digit c then Some (scan_digits s)
          else None)"

definition scan_frac :: "bytes \<Rightarrow> (bytes \<times> bytes) option" where
  "scan_frac s =
     (case s of
        c # r \<Rightarrow>
          if c = CHR ''.'' then
            (case scan_digits r of (ds, r') \<Rightarrow> if ds = [] then None else Some (c # ds, r'))
          else Some ([], s)
      | [] \<Rightarrow> Some ([], s))"

definition exp_sign :: "bytes \<Rightarrow> bytes" where
  "exp_sign u = takeWhile (\<lambda>x. x = CHR ''+'' \<or> x = CHR ''-'') (take 1 u)"

definition scan_exp :: "bytes \<Rightarrow> (bytes \<times> bytes) option" where
  "scan_exp s =
     (case s of
        c # r \<Rightarrow>
          if c = CHR ''e'' \<or> c = CHR ''E'' then
            (case scan_digits (drop (length (exp_sign r)) r) of
               (ds, r') \<Rightarrow> if ds = [] then None else Some (c # exp_sign r @ ds, r'))
          else Some ([], s)
      | [] \<Rightarrow> Some ([], s))"

definition scan_sign :: "bytes \<Rightarrow> bytes \<times> bytes" where
  "scan_sign s = (case s of c # r \<Rightarrow> if c = CHR ''-'' then ([c], r) else ([], s) | [] \<Rightarrow> ([], s))"

definition scan_number :: "bytes \<Rightarrow> (bytes \<times> bytes) option" where
  "scan_number s =
     (case scan_sign s of (sg, s1) \<Rightarrow>
      case scan_int s1 of None \<Rightarrow> None | Some (i, s2) \<Rightarrow>
      case scan_frac s2 of None \<Rightarrow> None | Some (f, s3) \<Rightarrow>
      case scan_exp s3 of None \<Rightarrow> None | Some (e, s4) \<Rightarrow> Some (sg @ i @ f @ e, s4))"

subsection \<open>Values\<close>

definition literal :: "string \<Rightarrow> json \<Rightarrow> bytes \<Rightarrow> (json \<times> bytes) option" where
  "literal w v s = (if has_prefix s w then Some (v, drop (length w) s) else None)"

definition scalar :: "bytes \<Rightarrow> (json \<times> bytes) option" where
  "scalar s =
     (case s of
        [] \<Rightarrow> None
      | c # r \<Rightarrow>
          if c = CHR 0x22 then map_option (\<lambda>(b, r'). (JStr (unquote b), r')) (scan_string r)
          else if c = CHR ''t'' then literal ''true'' (JBool True) s
          else if c = CHR ''f'' then literal ''false'' (JBool False) s
          else if c = CHR ''n'' then literal ''null'' JNull s
          else map_option (\<lambda>(b, r'). (JNum b, r')) (scan_number s))"

definition consumed :: "bytes \<Rightarrow> bytes \<Rightarrow> bytes" where
  "consumed s r = take (length s - length r) s"

text \<open>A member's key and the colon after it.\<close>

definition parse_key :: "bytes \<Rightarrow> (string \<times> bytes) option" where
  "parse_key s =
     (case skip_ws s of
        [] \<Rightarrow> None
      | q # s1 \<Rightarrow>
          if q \<noteq> CHR 0x22 then None
          else (case scan_string s1 of
             None \<Rightarrow> None
           | Some (k, s2) \<Rightarrow>
               (case skip_ws s2 of
                  [] \<Rightarrow> None
                | c # s3 \<Rightarrow> if c = CHR '':'' then Some (unquote k, s3) else None)))"

text \<open>
  \<open>d\<close> is how many more arrays and objects may be opened. \<open>parse_elems\<close> and \<open>parse_members\<close> start
  after the opening bracket of a collection that is not empty, and after each comma.
\<close>

fun parse_value :: "nat \<Rightarrow> nat \<Rightarrow> bytes \<Rightarrow> (json \<times> bytes) option"
  and parse_elems :: "nat \<Rightarrow> nat \<Rightarrow> bytes \<Rightarrow> ((bytes \<times> json) list \<times> bytes) option"
  and parse_members :: "nat \<Rightarrow> nat \<Rightarrow> bytes \<Rightarrow> ((string \<times> bytes \<times> json) list \<times> bytes) option" where
  "parse_value 0 d s = None"
| "parse_value (Suc n) d s =
     (case skip_ws s of
        [] \<Rightarrow> None
      | c # r \<Rightarrow>
          if c = CHR ''{'' then
            (if d = 0 then None
             else case skip_ws r of
               [] \<Rightarrow> None
             | c' # r' \<Rightarrow>
                 if c' = CHR ''}'' then Some (JObj [], r')
                 else map_option (\<lambda>(ms, t). (JObj ms, t)) (parse_members n (d - 1) r))
          else if c = CHR ''['' then
            (if d = 0 then None
             else case skip_ws r of
               [] \<Rightarrow> None
             | c' # r' \<Rightarrow>
                 if c' = CHR '']'' then Some (JArr [], r')
                 else map_option (\<lambda>(xs, t). (JArr xs, t)) (parse_elems n (d - 1) r))
          else scalar (c # r))"
| "parse_elems 0 d s = None"
| "parse_elems (Suc n) d s =
     (case parse_value n d (skip_ws s) of
        None \<Rightarrow> None
      | Some (v, r) \<Rightarrow>
          (case skip_ws r of
             [] \<Rightarrow> None
           | c # r' \<Rightarrow>
               if c = CHR '']'' then Some ([(consumed (skip_ws s) r, v)], r')
               else if c = CHR '','' then
                 map_option (\<lambda>(xs, t). ((consumed (skip_ws s) r, v) # xs, t)) (parse_elems n d r')
               else None))"
| "parse_members 0 d s = None"
| "parse_members (Suc n) d s =
     (case parse_key s of
        None \<Rightarrow> None
      | Some (k, s') \<Rightarrow>
          (case parse_value n d (skip_ws s') of
             None \<Rightarrow> None
           | Some (v, r) \<Rightarrow>
               (case skip_ws r of
                  [] \<Rightarrow> None
                | c # r' \<Rightarrow>
                    if c = CHR ''}'' then Some ([(k, consumed (skip_ws s') r, v)], r')
                    else if c = CHR '','' then
                      map_option (\<lambda>(ms, t). ((k, consumed (skip_ws s') r, v) # ms, t))
                        (parse_members n d r')
                    else None)))"

declare parse_value.simps [simp del] parse_elems.simps [simp del] parse_members.simps [simp del]

definition max_depth :: nat where
  "max_depth = 10000"

definition parse_fuel :: "bytes \<Rightarrow> nat" where
  "parse_fuel s = 2 * length s + 2"

text \<open>\<open>json.Unmarshal\<close> reads one value and nothing but white space after it.\<close>

definition parse_whole :: "bytes \<Rightarrow> (bytes \<times> json) option" where
  "parse_whole s =
     (case parse_value (parse_fuel s) max_depth (skip_ws s) of
        None \<Rightarrow> None
      | Some (v, r) \<Rightarrow> if skip_ws r = [] then Some (consumed (skip_ws s) r, v) else None)"

text \<open>\<open>Decoder.Decode\<close> reads the first value and leaves what follows it unread.\<close>

definition parse_first :: "bytes \<Rightarrow> (bytes \<times> json) option" where
  "parse_first s =
     (case parse_value (parse_fuel s) max_depth (skip_ws s) of
        None \<Rightarrow> None
      | Some (v, r) \<Rightarrow> Some (consumed (skip_ws s) r, v))"

subsection \<open>Progress and fuel\<close>

lemma skip_ws_length: "length (skip_ws s) \<le> length s"
  by (simp add: skip_ws_def length_dropWhile_le)

lemma skip_ws_idem [simp]: "skip_ws (skip_ws s) = skip_ws s"
  by (simp add: skip_ws_def)

lemma skip_ws_Cons_length: "skip_ws s = c # r \<Longrightarrow> length r < length s"
  using skip_ws_length [of s] by simp

lemma scan_string_cases:
  assumes "scan_string (c # s) = Some (b, r)"
  obtains (close) "c = CHR 0x22" "b = []" "r = s"
  | (escape) e s' b' where "c = CHR 0x5C" "s = e # s'" "is_escape e"
      "scan_string s' = Some (b', r)" "b = c # e # b'"
  | (unicode) h1 h2 h3 h4 s' b' where "c = CHR 0x5C" "s = CHR ''u'' # h1 # h2 # h3 # h4 # s'"
      "is_hex h1" "is_hex h2" "is_hex h3" "is_hex h4"
      "scan_string s' = Some (b', r)" "b = c # CHR ''u'' # h1 # h2 # h3 # h4 # b'"
  | (plain) b' where "c \<noteq> CHR 0x22" "c \<noteq> CHR 0x5C" "\<not> byte_of c < 0x20"
      "scan_string s = Some (b', r)" "b = c # b'"
proof (cases "c = CHR 0x22")
  case True
  with assms close show ?thesis by simp
next
  case q: False
  show ?thesis
  proof (cases "c = CHR 0x5C")
    case False
    with assms q plain show ?thesis by (auto split: if_splits)
  next
    case True
    with assms obtain e s' where s: "s = e # s'" by (auto split: list.splits)
    show ?thesis
    proof (cases "is_escape e")
      case True
      with assms \<open>c = CHR 0x5C\<close> s escape show ?thesis by auto
    next
      case False
      with assms \<open>c = CHR 0x5C\<close> s unicode show ?thesis
        by (auto split: if_splits list.splits)
    qed
  qed
qed

lemma scan_string_consumes: "scan_string s = Some (b, r) \<Longrightarrow> s = b @ CHR 0x22 # r"
proof (induction s arbitrary: b rule: length_induct)
  case (1 s)
  then obtain c t where s: "s = c # t" by (cases s) auto
  from 1(2) [unfolded s] show ?case
    by (cases rule: scan_string_cases) (use 1(1) s in auto)
qed

lemma scan_string_length: "scan_string s = Some (b, r) \<Longrightarrow> length r < length s"
  by (auto dest: scan_string_consumes)

lemma scan_digits_append: "scan_digits s = (ds, r) \<Longrightarrow> s = ds @ r"
  by (auto simp: scan_digits_def)

lemma scan_int_consumes: "scan_int s = Some (b, r) \<Longrightarrow> s = b @ r \<and> b \<noteq> []"
  by (auto simp: scan_int_def scan_digits_def split: list.splits if_splits)

lemma scan_frac_consumes: "scan_frac s = Some (b, r) \<Longrightarrow> s = b @ r"
  by (auto simp: scan_frac_def scan_digits_def split: list.splits if_splits)

lemma exp_sign_prefix: "exp_sign u @ drop (length (exp_sign u)) u = u"
  by (cases u) (auto simp: exp_sign_def)

lemma scan_exp_consumes: "scan_exp s = Some (b, r) \<Longrightarrow> s = b @ r"
  using exp_sign_prefix [of "tl s"]
  by (auto simp: scan_exp_def split: list.splits if_splits prod.splits dest!: scan_digits_append)

lemma scan_number_consumes:
  assumes "scan_number s = Some (b, r)"
  shows "s = b @ r \<and> b \<noteq> []"
proof -
  obtain sg s1 where sg: "scan_sign s = (sg, s1)" by fastforce
  then have "s = sg @ s1" by (auto simp: scan_sign_def split: list.splits if_splits)
  with sg assms show ?thesis
    by (auto simp: scan_number_def split: option.splits
        dest!: scan_int_consumes scan_frac_consumes scan_exp_consumes)
qed

lemma scan_number_length: "scan_number s = Some (b, r) \<Longrightarrow> length r < length s"
  by (auto dest!: scan_number_consumes)

lemma scalar_length: "scalar s = Some (v, r) \<Longrightarrow> length r < length s"
  by (auto simp: scalar_def literal_def split: list.splits if_splits
      dest!: scan_string_length scan_number_length)

text \<open>What a value leaves is a proper suffix of what it was given.\<close>

definition shorter :: "bytes \<Rightarrow> bytes \<Rightarrow> bool" where
  "shorter r s \<longleftrightarrow> (\<exists>p. s = p @ r \<and> p \<noteq> [])"

lemma shorter_length: "shorter r s \<Longrightarrow> length r < length s"
  by (auto simp: shorter_def)

lemma shorter_trans: "shorter r s \<Longrightarrow> shorter s t \<Longrightarrow> shorter r t"
  by (auto simp: shorter_def)

lemma shorter_Cons: "shorter r (c # s) \<longleftrightarrow> r = s \<or> shorter r s"
  by (auto simp: shorter_def Cons_eq_append_conv)

lemma skip_ws_suffix: "\<exists>w. s = w @ skip_ws s"
  unfolding skip_ws_def by (metis takeWhile_dropWhile_id)

lemma shorter_skip_ws: "shorter r (skip_ws s) \<Longrightarrow> shorter r s"
  using skip_ws_suffix [of s] by (auto simp: shorter_def)

lemma skip_ws_shorter: "skip_ws s = c # r \<Longrightarrow> shorter r s"
  using skip_ws_suffix [of s] by (auto simp: shorter_def)

lemma scan_string_shorter: "scan_string s = Some (b, r) \<Longrightarrow> shorter r s"
  by (auto simp: shorter_def dest: scan_string_consumes)

lemma scalar_shorter: "scalar s = Some (v, r) \<Longrightarrow> shorter r s"
  by (auto simp: scalar_def literal_def shorter_def has_prefix_iff split: list.splits if_splits
      dest!: scan_string_consumes scan_number_consumes)

lemmas shorter_rules = shorter_trans skip_ws_shorter shorter_skip_ws scan_string_shorter

lemma parse_key_shorter: "parse_key s = Some (k, r) \<Longrightarrow> shorter r s"
  by (auto simp: parse_key_def split: list.splits option.splits if_splits)
    (meson shorter_rules)

lemma parse_shorter:
  "parse_value n d s = Some (v, r) \<Longrightarrow> shorter r s"
  "parse_elems n d s = Some (xs, r) \<Longrightarrow> shorter r s"
  "parse_members n d s = Some (ms, r) \<Longrightarrow> shorter r s"
proof (induction n d s and n d s and n d s arbitrary: v r and xs r and ms r
    rule: parse_value_parse_elems_parse_members.induct)
  case (2 n d s)
  from "2.prems" obtain c t where s: "skip_ws s = c # t"
    by (auto simp: parse_value.simps split: list.splits)
  then have t: "shorter t s" by (rule skip_ws_shorter)
  show ?case
  proof (cases "c = CHR ''{'' \<or> c = CHR ''[''")
    case True
    then obtain c' t' where t': "skip_ws t = c' # t'"
      using "2.prems" s by (auto simp: parse_value.simps split: list.splits if_splits)
    have "r = t' \<or> shorter r t"
      using "2.prems" s t' True "2.IH"
      by (auto simp: parse_value.simps split: if_splits)
    with t t' show ?thesis by (meson shorter_rules)
  next
    case False
    then have "scalar (skip_ws s) = Some (v, r)"
      using "2.prems" s by (simp add: parse_value.simps)
    then show ?thesis by (meson scalar_shorter shorter_skip_ws)
  qed
next
  case (4 n d s)
  then obtain v0 r0 where v: "parse_value n d (skip_ws s) = Some (v0, r0)"
    by (auto simp: parse_elems.simps split: option.splits)
  then have r0: "shorter r0 s" using "4.IH"(1) by (meson shorter_skip_ws)
  from "4.prems" v obtain c r' where r': "skip_ws r0 = c # r'"
    by (auto simp: parse_elems.simps split: list.splits)
  have "r = r' \<or> shorter r r'"
    using "4.prems" v r' "4.IH"(2) by (auto simp: parse_elems.simps split: if_splits)
  with r0 r' show ?case by (meson shorter_rules)
next
  case (6 n d s)
  then obtain k s3 v0 r0 where k: "parse_key s = Some (k, s3)"
    and v: "parse_value n d (skip_ws s3) = Some (v0, r0)"
    by (auto simp: parse_members.simps split: option.splits)
  have "shorter r0 (skip_ws s3)"
    using "6.IH"(1) [OF k refl v] .
  then have r0: "shorter r0 s" using k by (meson shorter_rules parse_key_shorter)
  from "6.prems" k v obtain c r' where r': "skip_ws r0 = c # r'"
    by (auto simp: parse_members.simps split: list.splits)
  have "r = r' \<or> shorter r r'"
    using "6.prems" k v r' "6.IH"(2) by (auto simp: parse_members.simps split: if_splits)
  with r0 r' show ?case by (meson shorter_rules)
qed (simp_all add: parse_value.simps parse_elems.simps parse_members.simps)

text \<open>More fuel than the input needs changes nothing.\<close>

lemma parse_fuel_enough:
  "2 * length s + 1 \<le> n \<Longrightarrow> 2 * length s + 1 \<le> m \<Longrightarrow> parse_value n d s = parse_value m d s"
  "2 * length s + 2 \<le> n \<Longrightarrow> 2 * length s + 2 \<le> m \<Longrightarrow> parse_elems n d s = parse_elems m d s"
  "2 * length s + 2 \<le> n \<Longrightarrow> 2 * length s + 2 \<le> m \<Longrightarrow> parse_members n d s = parse_members m d s"
proof (induction n d s and n d s and n d s arbitrary: m and m and m
    rule: parse_value_parse_elems_parse_members.induct)
  case (2 n d s)
  from "2.prems" obtain m' where m: "m = Suc m'" by (cases m) auto
  show ?case
  proof (cases "skip_ws s")
    case Nil
    then show ?thesis by (simp add: m parse_value.simps)
  next
    case (Cons c t)
    then have l: "length t < length s" by (rule skip_ws_Cons_length)
    then have "parse_elems n (d - 1) t = parse_elems m' (d - 1) t" if "c = CHR ''[''" "d \<noteq> 0"
      "skip_ws t = x # y" "x \<noteq> CHR '']''" for x y
      using 2 Cons m that by (auto split: list.splits)
    moreover have "parse_members n (d - 1) t = parse_members m' (d - 1) t"
      if "c = CHR ''{''" "d \<noteq> 0" "skip_ws t = x # y" "x \<noteq> CHR ''}''" for x y
      using 2 Cons m that l by (auto split: list.splits)
    ultimately show ?thesis using Cons
      by (auto simp: m parse_value.simps split: list.split)
  qed
next
  case (4 n d s)
  from "4.prems" obtain m' where m: "m = Suc m'" by (cases m) auto
  have "length (skip_ws s) \<le> length s" by (rule skip_ws_length)
  then have v: "parse_value m' d (skip_ws s) = parse_value n d (skip_ws s)"
    by (intro "4.IH"(1) [symmetric]) (use 4 m in simp_all)
  show ?case
  proof (cases "parse_value n d (skip_ws s)")
    case None
    then show ?thesis by (simp add: m parse_elems.simps v)
  next
    case (Some vr)
    obtain v0 r0 where vr: "vr = (v0, r0)" by fastforce
    with Some have r0: "length r0 < length s"
      using skip_ws_length [of s] by (auto dest!: parse_shorter(1) shorter_length)
    show ?thesis
    proof (cases "\<exists>r'. skip_ws r0 = CHR '','' # r'")
      case True
      then obtain r' where r': "skip_ws r0 = CHR '','' # r'" by blast
      have "parse_elems n d r' = parse_elems m' d r'"
        by (rule "4.IH"(2) [OF Some _ r'])
          (use "4.prems" m vr r0 skip_ws_Cons_length [OF r'] in simp_all)
      then show ?thesis by (simp add: m parse_elems.simps v Some vr r')
    next
      case False
      then show ?thesis by (auto simp: m parse_elems.simps v Some vr split: list.split)
    qed
  qed
next
  case (6 n d s)
  from "6.prems" obtain m' where m: "m = Suc m'" by (cases m) auto
  show ?case
  proof (cases "parse_key s")
    case None
    then show ?thesis by (simp add: m parse_members.simps)
  next
    case k: (Some ks)
    obtain k s3 where ks: "ks = (k, s3)" by fastforce
    with k have l3: "length s3 < length s" by (auto dest!: parse_key_shorter shorter_length)
    have "length (skip_ws s3) \<le> length s3" by (rule skip_ws_length)
    with l3 have v: "parse_value m' d (skip_ws s3) = parse_value n d (skip_ws s3)"
      by (intro "6.IH"(1) [OF k _, symmetric]) (use 6 m ks in simp_all)
    show ?thesis
    proof (cases "parse_value n d (skip_ws s3)")
      case None
      then show ?thesis by (simp add: m parse_members.simps v k ks)
    next
      case (Some vr)
      obtain v0 r0 where vr: "vr = (v0, r0)" by fastforce
      with Some have r0: "length r0 < length s"
        using skip_ws_length [of s3] l3 by (auto dest!: parse_shorter(1) shorter_length)
      show ?thesis
      proof (cases "\<exists>r'. skip_ws r0 = CHR '','' # r'")
        case True
        then obtain r' where r': "skip_ws r0 = CHR '','' # r'" by blast
        have "parse_members n d r' = parse_members m' d r'"
          by (rule "6.IH"(2) [OF k _ Some _ r'])
            (use "6.prems" m vr ks r0 skip_ws_Cons_length [OF r'] in simp_all)
        then show ?thesis by (simp add: m parse_members.simps v Some vr k ks r')
      next
        case False
        then show ?thesis
          by (auto simp: m parse_members.simps v Some vr k ks split: list.split)
      qed
    qed
  qed
qed simp_all

lemma parse_value_fuel:
  "2 * length s + 1 \<le> n \<Longrightarrow> parse_value n d s = parse_value (parse_fuel s) d s"
  by (rule parse_fuel_enough) (simp_all add: parse_fuel_def)

end
