(* ===== verification/JsonText.thy ===== *)
theory JsonText
  imports JsonPrint Json
begin

text \<open>
  Strings through JSON and back: the escaping of \<open>JsonPrint\<close> against the scanner and the
  unquoting of \<open>Json\<close>. What is written is always a string literal; reading it gives the string
  back exactly when that was UTF-8, because ill-formed bytes are written as the replacement
  character.
\<close>

subsection \<open>UTF-8\<close>

lemma byte_char_of [simp]: "byte_char (byte_of c) = c"
  by (simp add: byte_char_def byte_of_def)

lemma mod_64: "y < 64 \<Longrightarrow> (k * 64 + y) mod 64 = y" for k y :: nat
  by simp

lemma encode_rune2:
  assumes "2 \<le> a" "a < 32" "x < 64"
  shows "encode_rune (a * 64 + x) = [byte_char (0xC0 + a), byte_char (0x80 + x)]"
proof -
  have "(a * 64 + x) div 64 = a" "(a * 64 + x) mod 64 = x" using assms by simp_all
  then show ?thesis using assms by (simp add: encode_rune_def)
qed

lemma encode_rune3:
  assumes "a < 16" "x < 64" "y < 64" "a = 0 \<longrightarrow> 32 \<le> x" "a = 13 \<longrightarrow> x < 32"
  shows "encode_rune ((a * 64 + x) * 64 + y) =
    [byte_char (0xE0 + a), byte_char (0x80 + x), byte_char (0x80 + y)]"
proof -
  let ?r = "(a * 64 + x) * 64 + y"
  have "?r div 64 = a * 64 + x" "?r div 4096 = a" using assms by simp_all
  moreover have "?r mod 64 = y" "(a * 64 + x) mod 64 = x" by (rule mod_64, rule assms)+
  moreover have "0x800 \<le> ?r" using assms(1,4) by (cases "a = 0") auto
  moreover have "?r < 0x10000" using assms(1-3) by simp
  moreover have "\<not> (0xD800 \<le> ?r \<and> ?r \<le> 0xDFFF)"
    using assms(2,3,5) by (cases a "13 :: nat" rule: linorder_cases) auto
  ultimately show ?thesis by (auto simp: encode_rune_def)
qed

lemma encode_rune4:
  assumes "a < 5" "x < 64" "y < 64" "z < 64" "a = 0 \<longrightarrow> 16 \<le> x" "a = 4 \<longrightarrow> x < 16"
  shows "encode_rune (((a * 64 + x) * 64 + y) * 64 + z) =
    [byte_char (0xF0 + a), byte_char (0x80 + x), byte_char (0x80 + y), byte_char (0x80 + z)]"
proof -
  let ?r = "((a * 64 + x) * 64 + y) * 64 + z"
  have "?r div 64 = (a * 64 + x) * 64 + y" "?r div 4096 = a * 64 + x" "?r div 262144 = a"
    using assms by simp_all
  moreover have "?r mod 64 = z" "(a * 64 + x) mod 64 = x" "((a * 64 + x) * 64 + y) mod 64 = y"
    by (rule mod_64, rule assms)+
  moreover have "0x10000 \<le> ?r" using assms(5) by (cases "a = 0") auto
  moreover have "?r \<le> 0x10FFFF" using assms(1-4,6) by (cases "a = 4") auto
  ultimately show ?thesis by (simp add: encode_rune_def)
qed

lemma is_cont_split: "is_cont c \<longleftrightarrow> (\<exists>x<64. c = byte_char (0x80 + x) \<and> byte_of c = 0x80 + x)"
proof
  assume c: "is_cont c"
  then have "c = byte_char (0x80 + (byte_of c - 0x80))" by (simp add: is_cont_def)
  with c show "\<exists>x<64. c = byte_char (0x80 + x) \<and> byte_of c = 0x80 + x"
    by (intro exI [of _ "byte_of c - 0x80"]) (auto simp: is_cont_def)
qed (auto simp: is_cont_def)

lemma multi2:
  assumes "decode_rune2 (byte_of c) s = (r, w)" "w \<noteq> 1" "0xC2 \<le> byte_of c" "byte_of c \<le> 0xDF"
  shows "w = 2 \<and> encode_rune r = take w (c # s) \<and> list_all (\<lambda>c. 0x80 \<le> byte_of c) (take w (c # s))"
proof -
  from assms obtain c1 t x where s: "s = c1 # t" "x < 64" "c1 = byte_char (0x80 + x)"
    "byte_of c1 = 0x80 + x" "r = (byte_of c - 0xC0) * 0x40 + x" "w = 2"
    by (auto simp: decode_rune2_def is_cont_split split: list.splits if_splits)
  with encode_rune2 [of "byte_of c - 0xC0" x] assms(3,4) show ?thesis by simp
qed

lemma multi3:
  assumes "decode_rune3 (byte_of c) s = (r, w)" "w \<noteq> 1" "0xE0 \<le> byte_of c" "byte_of c \<le> 0xEF"
  shows "w = 3 \<and> encode_rune r = take w (c # s) \<and> list_all (\<lambda>c. 0x80 \<le> byte_of c) (take w (c # s))"
proof -
  from assms obtain c1 c2 t x y where s: "s = c1 # c2 # t" "x < 64" "c1 = byte_char (0x80 + x)"
    "byte_of c1 = 0x80 + x" "y < 64" "c2 = byte_char (0x80 + y)" "byte_of c2 = 0x80 + y"
    "r = ((byte_of c - 0xE0) * 0x40 + x) * 0x40 + y" "w = 3"
    "byte_of c = 0xE0 \<longrightarrow> 32 \<le> x" "byte_of c = 0xED \<longrightarrow> x < 32"
    by (auto simp: decode_rune3_def is_cont_split split: list.splits if_splits)
  with encode_rune3 [of "byte_of c - 0xE0" x y] assms(3,4) show ?thesis by auto
qed

lemma multi4:
  assumes "decode_rune4 (byte_of c) s = (r, w)" "w \<noteq> 1" "0xF0 \<le> byte_of c" "byte_of c \<le> 0xF4"
  shows "w = 4 \<and> encode_rune r = take w (c # s) \<and> list_all (\<lambda>c. 0x80 \<le> byte_of c) (take w (c # s))"
proof -
  from assms obtain c1 c2 c3 t x y z where s: "s = c1 # c2 # c3 # t" "x < 64" "c1 = byte_char (0x80 + x)"
    "byte_of c1 = 0x80 + x" "y < 64" "c2 = byte_char (0x80 + y)" "byte_of c2 = 0x80 + y"
    "z < 64" "c3 = byte_char (0x80 + z)" "byte_of c3 = 0x80 + z"
    "r = (((byte_of c - 0xF0) * 0x40 + x) * 0x40 + y) * 0x40 + z" "w = 4"
    "byte_of c = 0xF0 \<longrightarrow> 16 \<le> x" "byte_of c = 0xF4 \<longrightarrow> x < 16"
    by (auto simp: decode_rune4_def is_cont_split split: list.splits if_splits)
  with encode_rune4 [of "byte_of c - 0xF0" x y z] assms(3,4) show ?thesis by auto
qed

lemma multi_byte:
  assumes "decode_rune (c # s) = (r, w)" "0x80 \<le> byte_of c" "w \<noteq> 1 \<or> r \<noteq> rune_error"
  shows "2 \<le> w \<and> encode_rune r = take w (c # s) \<and> list_all (\<lambda>c. 0x80 \<le> byte_of c) (take w (c # s))"
proof -
  have one: "w = 1 \<Longrightarrow> r = rune_error"
    using assms(1,2)
    by (auto simp: decode_rune_def decode_rune2_def decode_rune3_def decode_rune4_def Let_def
        split: list.splits if_splits)
  with assms(3) have "w \<noteq> 1" by blast
  then show ?thesis
    using assms(1,2) multi2 [of c s r w] multi3 [of c s r w] multi4 [of c s r w]
    by (auto simp: decode_rune_def Let_def split: if_splits)
qed

text \<open>A string without an ill-formed sequence.\<close>

function utf8 :: "string \<Rightarrow> bool" where
  "utf8 s =
     (if s = [] then True
      else case decode_rune s of
        (r, w) \<Rightarrow> \<not> (r = rune_error \<and> w = 1) \<and> utf8 (drop (max 1 w) s))"
  by pat_completeness auto
termination by (relation "measure length") auto

declare utf8.simps [simp del]

lemma utf8_Nil [simp]: "utf8 []"
  by (simp add: utf8.simps)

lemma utf8_ascii: "byte_of c < 0x80 \<Longrightarrow> utf8 (c # s) \<longleftrightarrow> utf8 s"
  by (subst utf8.simps) (simp add: decode_rune_def rune_error_def)

lemma utf8_multi:
  assumes "utf8 (c # s)" "0x80 \<le> byte_of c" "decode_rune (c # s) = (r, w)"
  shows "utf8 (drop w (c # s))" "2 \<le> w" "encode_rune r = take w (c # s)"
    "list_all (\<lambda>c. 0x80 \<le> byte_of c) (take w (c # s))" "w \<le> length (c # s)"
proof -
  from assms(1,3) utf8.simps [of "c # s"]
  have v: "w \<noteq> 1 \<or> r \<noteq> rune_error" "utf8 (drop (max 1 w) (c # s))" by auto
  from multi_byte [OF assms(3,2) v(1)] show "2 \<le> w" "encode_rune r = take w (c # s)"
    "list_all (\<lambda>c. 0x80 \<le> byte_of c) (take w (c # s))" by simp_all
  with v(2) show "utf8 (drop w (c # s))" by (simp add: max_def)
  show "w \<le> length (c # s)" using decode_rune_width [of "c # s"] assms(3) by simp
qed

lemma ascii_utf8: "list_all (\<lambda>c. byte_of c < 0x80) s \<Longrightarrow> utf8 s"
  by (induction s) (simp_all add: utf8_ascii)

subsection \<open>Scanning what is written\<close>

definition passes :: "bytes \<Rightarrow> bool" where
  "passes x \<longleftrightarrow> (\<forall>t. scan_string (x @ t) = map_option (\<lambda>(b, r). (x @ b, r)) (scan_string t))"

lemma passes_append: "passes x \<Longrightarrow> passes y \<Longrightarrow> passes (x @ y)"
  by (simp add: passes_def option.map_comp comp_def case_prod_unfold)

lemma passes_Nil [simp]: "passes []"
  by (simp add: passes_def case_prod_unfold option.map_ident)

lemma passes_high: "list_all (\<lambda>c. 0x80 \<le> byte_of c) x \<Longrightarrow> passes x"
proof (induction x)
  case (Cons c x)
  then have "c \<noteq> CHR 0x22" "c \<noteq> CHR 0x5C" by (auto simp: byte_of_def)
  with Cons show ?case
    by (auto simp: passes_def option.map_comp comp_def case_prod_unfold)
qed simp

lemma is_hex_digit: "is_hex (hex_digit n)"
proof -
  have "list_all (\<lambda>k. is_hex (hex_digit k)) [0..<16]" by code_simp
  then have "is_hex (hex_digit (n mod 16))" by (auto simp: list_all_iff)
  then show ?thesis by (simp add: hex_digit_def)
qed

lemma hex4_eq:
  "hex4 n = [CHR 0x5C, CHR ''u'', hex_digit (n div 4096), hex_digit (n div 256), hex_digit (n div 16), hex_digit n]"
proof -
  have "hex_pad 4 n = hex_pad (Suc (Suc (Suc (Suc 0)))) n" by (rule arg_cong2 [of _ _ n n]) simp_all
  then show ?thesis by (simp add: hex4_def div_mult2_eq [symmetric])
qed

lemma passes_hex4: "passes (hex4 n)"
  by (simp add: passes_def hex4_eq is_hex_digit is_escape_def option.map_comp comp_def case_prod_unfold)

lemma char_of_quote: "char_of (34 :: nat) = CHR 0x22" "char_of (92 :: nat) = CHR 0x5C"
  by code_simp+

lemma passes_escape: "b < 0x80 \<Longrightarrow> passes (escape_byte b)"
proof -
  assume b: "b < 0x80"
  show ?thesis
  proof (cases "safe_byte b")
    case True
    then have "byte_of (char_of b) = b" using b by (simp add: byte_of_def)
    moreover from this True have "char_of b \<noteq> CHR 0x22" "char_of b \<noteq> CHR 0x5C"
      by (auto simp: safe_byte_def byte_of_def dest!: arg_cong [of _ _ byte_of])
    ultimately have "char_of b \<noteq> CHR 0x22" "char_of b \<noteq> CHR 0x5C" "byte_of (char_of b) = b"
      by blast+
    with True show ?thesis
      by (simp add: escape_byte_def passes_def case_prod_unfold safe_byte_def)
  next
    case False
    then show ?thesis
      using passes_hex4
      by (auto simp: escape_byte_def passes_def is_escape_def case_prod_unfold char_of_quote)
  qed
qed

lemma passes_json_body: "passes (json_body s)"
proof (induction s rule: json_body.induct)
  case (1 s)
  show ?case
  proof (cases s)
    case Nil
    then show ?thesis by (simp add: json_body.simps)
  next
    case (Cons c u)
    obtain r w where d: "decode_rune s = (r, w)" by fastforce
    have high: "passes (take w s)" if "\<not> byte_of c < 0x80" "\<not> (w = 1 \<and> r = rune_error)"
      using multi_byte [of c u r w] d that Cons by (auto intro: passes_high)
    show ?thesis
      using 1 [OF _ d [symmetric] refl] Cons d high
      by (subst json_body.simps) (auto intro!: passes_append passes_escape passes_hex4)
  qed
qed

lemma scan_json_body: "scan_string (json_body s @ CHR 0x22 # r) = Some (json_body s, r)"
  using passes_json_body [of s] by (simp add: passes_def)

lemma string_literal: "scan_string (json_body s @ [CHR 0x22]) = Some (json_body s, [])"
  using scan_json_body [of s "[]"] by simp

subsection \<open>Reading it back\<close>

definition stands_for :: "bytes \<Rightarrow> bytes \<Rightarrow> bool" where
  "stands_for x b \<longleftrightarrow> (\<forall>t. unquote (x @ t) = b @ unquote t)"

lemma hex_val_digit: "hex_val (hex_digit n) = n mod 16"
proof -
  have "list_all (\<lambda>k. hex_val (hex_digit k) = k) [0..<16]" by code_simp
  then have "hex_val (hex_digit (n mod 16)) = n mod 16" by (auto simp: list_all_iff)
  then show ?thesis by (simp add: hex_digit_def)
qed

lemma u4_hex4:
  assumes "n < 65536"
  shows "u4 (drop 2 (hex4 n) @ t) = n"
proof -
  have join: "16 * (k div 16) + k mod 16 = k" for k :: nat by simp
  have "n div 4096 < 16" using assms by simp
  then have top: "n div 4096 mod 16 = n div 256 div 16" by (simp add: div_mult2_eq [symmetric])
  have mid: "n div 256 = n div 16 div 16" by (simp add: div_mult2_eq [symmetric])
  have "u4 (drop 2 (hex4 n) @ t) =
      16 * (16 * (16 * (n div 4096 mod 16) + n div 256 mod 16) + n div 16 mod 16) + n mod 16"
    by (simp add: hex4_eq u4_def hex_val_digit)
  also have "\<dots> = n" unfolding top join unfolding mid join ..
  finally show ?thesis .
qed

lemma decode_prefix2: "decode_rune2 b s = (r, w) \<Longrightarrow> w \<noteq> 1 \<Longrightarrow> decode_rune2 b (take (w - 1) s @ t) = (r, w)"
  by (auto simp: decode_rune2_def split: list.splits if_splits)

lemma decode_prefix3: "decode_rune3 b s = (r, w) \<Longrightarrow> w \<noteq> 1 \<Longrightarrow> decode_rune3 b (take (w - 1) s @ t) = (r, w)"
  by (cases s; cases "tl s") (auto simp: decode_rune3_def split: if_splits)

lemma decode_prefix4: "decode_rune4 b s = (r, w) \<Longrightarrow> w \<noteq> 1 \<Longrightarrow> decode_rune4 b (take (w - 1) s @ t) = (r, w)"
  by (cases s; cases "tl s"; cases "tl (tl s)") (auto simp: decode_rune4_def split: if_splits)

lemma decode_prefix:
  assumes "decode_rune (c # s) = (r, w)" "0x80 \<le> byte_of c" "w \<noteq> 1"
  shows "decode_rune (take w (c # s) @ t) = (r, w)"
proof -
  have "w \<noteq> 0" using decode_rune_width [of "c # s"] assms(1) by simp
  then have "take w (c # s) @ t = c # take (w - 1) s @ t" by (cases w) simp_all
  moreover have "decode_rune (c # take (w - 1) s @ t) = (r, w)"
    using assms decode_prefix2 [of "byte_of c" s r w t] decode_prefix3 [of "byte_of c" s r w t]
      decode_prefix4 [of "byte_of c" s r w t]
    by (auto simp: decode_rune_def Let_def split: if_splits)
  ultimately show ?thesis by simp
qed

lemma unquote_Nil [simp]: "unquote [] = []"
  by (simp add: unquote.simps)

lemma unquote_plain: "c \<noteq> CHR 0x5C \<Longrightarrow> byte_of c < 0x80 \<Longrightarrow> unquote (c # t) = c # unquote t"
  by (subst unquote.simps) simp

lemma unquote_escape: "e \<noteq> CHR ''u'' \<Longrightarrow> unquote (CHR 0x5C # e # t) = unescape e # unquote t"
  by (subst unquote.simps) simp

lemma unquote_hex4:
  assumes "n < 65536" "\<not> (0xD800 \<le> n \<and> n \<le> 0xDFFF)"
  shows "unquote (hex4 n @ t) = encode_rune n @ unquote t"
proof -
  have h: "hex4 n @ t = CHR 0x5C # CHR ''u'' # drop 2 (hex4 n) @ t" by (simp add: hex4_eq)
  have "unquote_u (drop 2 (hex4 n) @ t) = (encode_rune n, 4)"
    using assms u4_hex4 [OF assms(1), of t] by (auto simp: unquote_u_def Let_def)
  then show ?thesis unfolding h by (subst unquote.simps) (simp add: hex4_eq)
qed

lemma unquote_escape_byte:
  assumes "b < 0x80"
  shows "unquote (escape_byte b @ t) = char_of b # unquote t"
proof (cases "safe_byte b")
  case True
  then have "byte_of (char_of b) = b" using assms by (simp add: byte_of_def)
  moreover from this True have "char_of b \<noteq> CHR 0x5C"
    by (auto simp: safe_byte_def byte_of_def dest!: arg_cong [of _ _ byte_of])
  ultimately show ?thesis using True assms by (simp add: escape_byte_def unquote_plain)
next
  case False
  have named: "char_of (8 :: nat) = CHR 0x08" "char_of (9 :: nat) = CHR 0x09"
    "char_of (10 :: nat) = CHR 0x0A" "char_of (12 :: nat) = CHR 0x0C"
    "char_of (13 :: nat) = CHR 0x0D" by code_simp+
  have "encode_rune b = [char_of b]" using assms by (simp add: encode_rune_def byte_char_def)
  with False assms show ?thesis
    by (auto simp: escape_byte_def unquote_escape unquote_hex4 unescape_def named char_of_quote)
qed

lemma unquote_multi:
  assumes "utf8 (c # s)" "0x80 \<le> byte_of c" "decode_rune (c # s) = (r, w)"
  shows "unquote (take w (c # s) @ t) = take w (c # s) @ unquote t"
proof -
  note m = utf8_multi [OF assms]
  then have "w \<noteq> 1" by simp
  note d = decode_prefix [OF assms(3,2) this, of t]
  have "take w (c # s) @ t = c # take (w - 1) s @ t" using m(2) by (cases w) simp_all
  moreover have "c \<noteq> CHR 0x5C" using assms(2) by (auto simp: byte_of_def)
  ultimately have "unquote (take w (c # s) @ t) = encode_rune r @ unquote (drop (max 1 w) (take w (c # s) @ t))"
    using assms(2) d by (subst unquote.simps) simp
  then show ?thesis using m(2,3,5) by (simp add: max_def)
qed

text \<open>A UTF-8 string is read back as it was.\<close>

lemma unquote_json_body: "utf8 s \<Longrightarrow> unquote (json_body s) = s"
proof (induction s rule: json_body.induct)
  case (1 s)
  show ?case
  proof (cases s)
    case Nil
    then show ?thesis by (simp add: json_body.simps)
  next
    case (Cons c u)
    obtain r w where d: "decode_rune s = (r, w)" by fastforce
    show ?thesis
    proof (cases "byte_of c < 0x80")
      case True
      then have "unquote (json_body u) = u"
        using 1(1) [OF _ d [symmetric] refl] 1(5) Cons by (simp add: utf8_ascii)
      moreover have "json_body s = escape_byte (byte_of c) @ json_body u"
        using True Cons by (subst json_body.simps) (simp split: prod.split)
      ultimately show ?thesis using True Cons by (simp add: unquote_escape_byte byte_of_def)
    next
      case False
      have cs: "utf8 (c # u)" "0x80 \<le> byte_of c" "decode_rune (c # u) = (r, w)"
        using 1(5) d Cons False by auto
      note m = utf8_multi [OF cs]
      from m(2) have "w \<noteq> 1" by simp
      have again: "unquote (json_body (drop w s)) = drop w s"
        using 1(3,4) [OF _ d [symmetric] refl] m(1) \<open>w \<noteq> 1\<close> False Cons by auto
      show ?thesis
      proof (cases "r = 0x2028 \<or> r = 0x2029")
        case True
        then have "json_body s = hex4 r @ json_body (drop w s)"
          using False Cons d \<open>w \<noteq> 1\<close> by (subst json_body.simps) simp
        moreover have "r < 65536" "\<not> (0xD800 \<le> r \<and> r \<le> 0xDFFF)" using True by auto
        ultimately show ?thesis using again m(3) Cons by (simp add: unquote_hex4)
      next
        case plain_rune: False
        then have "json_body s = take w s @ json_body (drop w s)"
          using False Cons d \<open>w \<noteq> 1\<close> by (subst json_body.simps) simp
        then show ?thesis using unquote_multi [OF cs] again Cons by simp
      qed
    qed
  qed
qed

end
