(* ===== verification/JsonDecode.thy ===== *)
theory JsonDecode
  imports JsonText
begin

text \<open>
  The decoding half of \<open>encoding/json\<close> for the kinds the program's types use. A decoder takes the
  bytes a value was read from, the value, and what the destination holds, and gives the new
  contents or \<open>None\<close> for an error: Go's decoder carries on after a mismatched type and reports
  the first error at the end, so for the caller any error is an error.

  Passing the destination along is what makes repeated keys behave as in Go: a later
  occurrence is decoded into what an earlier one left, element by element for a slice. (The
  backing array of a slice that was shortened is not modelled; it can be seen only by a key
  that occurs three times.) \<open>null\<close> leaves a scalar or a struct as it is and clears a pointer, a
  map or a slice.
\<close>

type_synonym 'a decoder = "bytes \<Rightarrow> json \<Rightarrow> 'a \<Rightarrow> 'a option"

fun dec_string :: "string decoder" where
  "dec_string raw (JStr s) x = Some s"
| "dec_string raw JNull x = Some x"
| "dec_string raw _ x = None"

fun dec_bool :: "bool decoder" where
  "dec_bool raw (JBool b) x = Some b"
| "dec_bool raw JNull x = Some x"
| "dec_bool raw _ x = None"

definition dec_digits :: "bytes \<Rightarrow> int" where
  "dec_digits ds = foldl (\<lambda>a c. 10 * a + int (digit_val c)) 0 ds"

text \<open>\<open>strconv.ParseInt\<close> of a number literal, base 10, 64 bits.\<close>

definition parse_int :: "bytes \<Rightarrow> int option" where
  "parse_int b =
     (case scan_sign b of (sg, ds) \<Rightarrow>
        if ds = [] \<or> \<not> list_all is_digit ds then None
        else let n = (if sg = [] then dec_digits ds else - dec_digits ds) in
          if - (2 ^ 63) \<le> n \<and> n < 2 ^ 63 then Some n else None)"

fun dec_int :: "int decoder" where
  "dec_int raw (JNum b) x = parse_int b"
| "dec_int raw JNull x = Some x"
| "dec_int raw _ x = None"

text \<open>
  \<open>strconv.ParseFloat\<close> of a number literal: the nearest \<open>float64\<close> to the decimal, an error when
  that is infinite.
\<close>

definition decimal_value :: "bytes \<Rightarrow> rat" where
  "decimal_value b =
     (case scan_sign b of (sg, s1) \<Rightarrow>
      case scan_digits s1 of (i, s2) \<Rightarrow>
      let f = (case s2 of c # r \<Rightarrow> if c = CHR ''.'' then fst (scan_digits r) else [] | [] \<Rightarrow> []);
          s3 = (case s2 of c # r \<Rightarrow> if c = CHR ''.'' then snd (scan_digits r) else s2 | [] \<Rightarrow> []);
          e = (case s3 of
                 [] \<Rightarrow> 0
               | c # r \<Rightarrow>
                   let n = dec_digits (drop (length (exp_sign r)) r) in
                   if exp_sign r = ''-'' then - n else n);
          m = of_int (dec_digits (i @ f)) * pow_rat 10 (e - int (length f)) in
      if sg = [] then m else - m)"

definition parse_float :: "bytes \<Rightarrow> float64 option" where
  "parse_float b =
     (case f64_of_rat (decimal_value b) of
        Fin x \<Rightarrow> Some (Fin x)
      | _ \<Rightarrow> None)"

fun dec_float :: "float64 decoder" where
  "dec_float raw (JNum b) x = parse_float b"
| "dec_float raw JNull x = Some x"
| "dec_float raw _ x = None"

text \<open>\<open>json.RawMessage\<close> takes the bytes, \<open>null\<close> included.\<close>

definition dec_raw :: "bytes decoder" where
  "dec_raw raw v x = Some raw"

text \<open>Slices, pointers, maps: the zero value of the element type comes first.\<close>

fun dec_elems :: "'a \<Rightarrow> 'a decoder \<Rightarrow> (bytes \<times> json) list \<Rightarrow> 'a list \<Rightarrow> 'a list option" where
  "dec_elems z d [] cur = Some []"
| "dec_elems z d ((raw, v) # xs) cur =
     (case d raw v (case cur of [] \<Rightarrow> z | c # _ \<Rightarrow> c) of
        None \<Rightarrow> None
      | Some x \<Rightarrow> map_option ((#) x) (dec_elems z d xs (tl cur)))"

fun dec_list :: "'a \<Rightarrow> 'a decoder \<Rightarrow> 'a list decoder" where
  "dec_list z d raw (JArr xs) cur = dec_elems z d xs cur"
| "dec_list z d raw JNull cur = Some []"
| "dec_list z d raw _ cur = None"

definition dec_opt :: "'a \<Rightarrow> 'a decoder \<Rightarrow> 'a option decoder" where
  "dec_opt z d raw v cur =
     (if v = JNull then Some None
      else map_option Some (d raw v (case cur of None \<Rightarrow> z | Some x \<Rightarrow> x)))"

fun dec_entries :: "'a \<Rightarrow> 'a decoder \<Rightarrow> (string \<times> bytes \<times> json) list \<Rightarrow> 'a gomap \<Rightarrow> 'a gomap option" where
  "dec_entries z d [] m = Some m"
| "dec_entries z d ((k, raw, v) # ms) m =
     (case d raw v z of
        None \<Rightarrow> None
      | Some x \<Rightarrow> dec_entries z d ms (m_put k x m))"

fun dec_map :: "'a \<Rightarrow> 'a decoder \<Rightarrow> 'a gomap decoder" where
  "dec_map z d raw (JObj ms) m = dec_entries z d ms m"
| "dec_map z d raw JNull m = Some m_empty"
| "dec_map z d raw _ m = None"

text \<open>
  Structs: a field has a name and sets its part of the record. A key is matched exactly or,
  failing that, under case folding; the names are ASCII, and the only other runes that fold to
  ASCII letters are U+017F to S and U+212A to K.
\<close>

type_synonym 'r field = "string \<times> 'r decoder"

definition upper :: "char \<Rightarrow> char" where
  "upper c = (if 97 \<le> byte_of c \<and> byte_of c \<le> 122 then byte_char (byte_of c - 32) else c)"

fun fold_name :: "string \<Rightarrow> string" where
  "fold_name (c1 # c2 # c3 # s) =
     (if [c1, c2] = [CHR 0xC5, CHR 0xBF] then CHR ''S'' # fold_name (c3 # s)
      else if [c1, c2, c3] = [CHR 0xE2, CHR 0x84, CHR 0xAA] then CHR ''K'' # fold_name s
      else upper c1 # fold_name (c2 # c3 # s))"
| "fold_name [c1, c2] =
     (if [c1, c2] = [CHR 0xC5, CHR 0xBF] then ''S'' else [upper c1, upper c2])"
| "fold_name [c1] = [upper c1]"
| "fold_name [] = []"

definition find_field :: "'r field list \<Rightarrow> string \<Rightarrow> 'r decoder option" where
  "find_field fs k =
     (case List.find (\<lambda>f. fst f = k) fs of
        Some f \<Rightarrow> Some (snd f)
      | None \<Rightarrow> map_option snd (List.find (\<lambda>f. fold_name (fst f) = fold_name k) fs))"

text \<open>\<open>strict\<close> is \<open>DisallowUnknownFields\<close>.\<close>

fun dec_members :: "bool \<Rightarrow> 'r field list \<Rightarrow> (string \<times> bytes \<times> json) list \<Rightarrow> 'r \<Rightarrow> 'r option" where
  "dec_members strict fs [] x = Some x"
| "dec_members strict fs ((k, raw, v) # ms) x =
     (case find_field fs k of
        None \<Rightarrow> if strict then None else dec_members strict fs ms x
      | Some d \<Rightarrow>
          (case d raw v x of
             None \<Rightarrow> None
           | Some y \<Rightarrow> dec_members strict fs ms y))"

fun dec_struct :: "bool \<Rightarrow> 'r field list \<Rightarrow> 'r decoder" where
  "dec_struct strict fs raw (JObj ms) x = dec_members strict fs ms x"
| "dec_struct strict fs raw JNull x = Some x"
| "dec_struct strict fs raw _ x = None"

text \<open>A field of a record: how to read it, how to replace it, and the decoder of its type.\<close>

definition fld :: "string \<Rightarrow> ('r \<Rightarrow> 'a) \<Rightarrow> ('a \<Rightarrow> 'r \<Rightarrow> 'r) \<Rightarrow> 'a decoder \<Rightarrow> 'r field" where
  "fld name get put d = (name, \<lambda>raw v x. map_option (\<lambda>y. put y x) (d raw v (get x)))"

subsection \<open>What decoding keeps\<close>

text \<open>A value whose strings are UTF-8, as every value that was parsed is.\<close>

fun sound :: "json \<Rightarrow> bool" where
  "sound (JStr s) \<longleftrightarrow> utf8 s"
| "sound (JArr xs) \<longleftrightarrow> list_all (\<lambda>(raw, v). sound v) xs"
| "sound (JObj ms) \<longleftrightarrow> list_all (\<lambda>(k, raw, v). utf8 k \<and> sound v) ms"
| "sound _ \<longleftrightarrow> True"

text \<open>\<open>keeps P d\<close>: a decoder that is given contents with a property yields contents with it.\<close>

definition keeps :: "('a \<Rightarrow> bool) \<Rightarrow> 'a decoder \<Rightarrow> bool" where
  "keeps P d \<longleftrightarrow> (\<forall>raw v x y. sound v \<longrightarrow> P x \<longrightarrow> d raw v x = Some y \<longrightarrow> P y)"

named_theorems keep_rules \<open>which properties which decoders keep\<close>

lemma keepsI: "(\<And>raw v x y. sound v \<Longrightarrow> P x \<Longrightarrow> d raw v x = Some y \<Longrightarrow> P y) \<Longrightarrow> keeps P d"
  unfolding keeps_def by blast

lemma keepsD: "keeps P d \<Longrightarrow> d raw v x = Some y \<Longrightarrow> P x \<Longrightarrow> sound v \<Longrightarrow> P y"
  unfolding keeps_def by blast

lemma keeps_True [keep_rules]: "keeps (\<lambda>x. True) d"
  by (simp add: keeps_def)

lemma keeps_utf8 [keep_rules]: "keeps utf8 dec_string"
  by (rule keepsI, elim dec_string.elims) auto

definition is_finite :: "float64 \<Rightarrow> bool" where
  "is_finite x \<longleftrightarrow> (\<exists>q. x = Fin q)"

lemma keeps_float [keep_rules]: "keeps is_finite dec_float"
proof (rule keepsI)
  fix raw v x y
  assume "is_finite x" "dec_float raw v x = Some y"
  then show "is_finite y"
    by (cases v) (auto simp: parse_float_def is_finite_def split: float64.splits dest: sym)
qed

lemma keeps_list [keep_rules]:
  assumes d: "keeps P d" "P z"
  shows "keeps (list_all P) (dec_list z d)"
proof -
  have "dec_elems z d xs cur = Some ys \<Longrightarrow> list_all P cur \<Longrightarrow> list_all (\<lambda>(raw, v). sound v) xs \<Longrightarrow>
      list_all P ys" for xs cur ys
  proof (induction xs arbitrary: cur ys)
    case (Cons rv xs)
    obtain raw v where rv: "rv = (raw, v)" by fastforce
    let ?c = "case cur of [] \<Rightarrow> z | c # _ \<Rightarrow> c"
    from Cons.prems(1) rv obtain y ys' where y: "d raw v ?c = Some y"
      "dec_elems z d xs (tl cur) = Some ys'" "ys = y # ys'"
      by (auto split: option.splits)
    have "P ?c" using d(2) Cons.prems(2) by (cases cur) auto
    then have "P y" using keepsD [OF d(1) y(1)] Cons.prems(3) rv by simp
    moreover have "list_all P (tl cur)" using Cons.prems(2) by (cases cur) auto
    ultimately show ?case using Cons.IH [OF y(2)] Cons.prems(3) y(3) by simp
  qed simp
  then show ?thesis
    by (intro keepsI, elim dec_list.elims) auto
qed

lemma keeps_opt [keep_rules]:
  assumes "keeps P d" "P z"
  shows "keeps (pred_option P) (dec_opt z d)"
  by (rule keepsI) (use assms in \<open>auto simp: dec_opt_def split: if_splits option.splits dest: keepsD\<close>)

definition map_all :: "('a \<Rightarrow> bool) \<Rightarrow> 'a gomap \<Rightarrow> bool" where
  "map_all P m \<longleftrightarrow> wf_map m \<and> (\<forall>k x. m_get m k = Some x \<longrightarrow> utf8 k \<and> P x)"

lemma map_all_empty [simp]: "map_all P m_empty" "map_all P []"
  using gm.invar_empty by (auto simp: map_all_def m_empty_def)

lemma map_all_put: "map_all P m \<Longrightarrow> utf8 k \<Longrightarrow> P x \<Longrightarrow> map_all P (m_put k x m)"
  by (simp add: map_all_def)

lemma keeps_map [keep_rules]:
  assumes d: "keeps P d" "P z"
  shows "keeps (map_all P) (dec_map z d)"
proof -
  have "dec_entries z d ms m = Some m' \<Longrightarrow> map_all P m \<Longrightarrow> sound (JObj ms) \<Longrightarrow> map_all P m'" for ms m m'
  proof (induction ms arbitrary: m)
    case (Cons e ms)
    obtain k raw v where e: "e = (k, raw, v)" by (cases e)
    from Cons.prems(1) e obtain y where y: "d raw v z = Some y"
      "dec_entries z d ms (m_put k y m) = Some m'"
      by (auto split: option.splits)
    have "P y" using keepsD [OF d(1) y(1) d(2)] Cons.prems(3) e by simp
    then show ?case using Cons.IH y(2) map_all_put [OF Cons.prems(2)] Cons.prems(3) e by simp
  qed simp
  then show ?thesis
    by (intro keepsI, elim dec_map.elims) auto
qed

lemma find_field_mem: "find_field fs k = Some d \<Longrightarrow> \<exists>n. (n, d) \<in> set fs"
  by (auto simp: find_field_def find_Some_iff_first split: option.splits)

lemma keeps_struct [keep_rules]:
  assumes "list_all (\<lambda>f. keeps P (snd f)) fs"
  shows "keeps P (dec_struct strict fs)"
proof -
  have "dec_members strict fs ms x = Some y \<Longrightarrow> P x \<Longrightarrow> sound (JObj ms) \<Longrightarrow> P y" for ms x y
  proof (induction ms arbitrary: x)
    case (Cons e ms)
    obtain k raw v where e: "e = (k, raw, v)" by (cases e)
    show ?case
    proof (cases "find_field fs k")
      case None
      with Cons e show ?thesis by (auto split: if_splits)
    next
      case (Some d)
      then have "keeps P d" using assms find_field_mem [OF Some] by (auto simp: list_all_iff)
      with Cons e Some show ?thesis by (auto split: option.splits dest: keepsD)
    qed
  qed simp
  then show ?thesis
    by (intro keepsI, elim dec_struct.elims) auto
qed

lemma keeps_fld [keep_rules]:
  assumes "keeps Q d" "\<And>x. P x \<Longrightarrow> Q (get x)" "\<And>x y. P x \<Longrightarrow> Q y \<Longrightarrow> P (put y x)"
  shows "keeps P (snd (fld n get put d))"
  by (rule keepsI) (use assms in \<open>auto simp: fld_def dest: keepsD\<close>)

lemma keeps_fld_other [keep_rules]:
  "(\<And>x y. P x \<Longrightarrow> P (put y x)) \<Longrightarrow> keeps P (snd (fld n get put d))"
  by (auto simp: keeps_def fld_def)

end
