(* ===== verification/GoTime.thy ===== *)
theory GoTime
  imports JsonDecode Attestation "HOL-Library.Monad_Syntax"
begin

text \<open>
  \<open>time.Time.UnmarshalJSON\<close>: \<open>time.Parse\<close> with the layout of RFC 3339, as lenient as the library
  is: a one-digit hour, a comma before the fraction, more than nine fraction digits (cut off)
  and zone offsets up to 24:60 are accepted. The bytes are taken as they stand in the
  document, so an escape inside the quotes is an error.
\<close>

definition getnum :: "bool \<Rightarrow> bytes \<Rightarrow> (nat \<times> bytes) option" where
  "getnum fixed s =
     (case s of
        [] \<Rightarrow> None
      | c1 # r \<Rightarrow>
          if \<not> is_digit c1 then None
          else (case r of
             c2 # r2 \<Rightarrow>
               if is_digit c2 then Some (10 * digit_val c1 + digit_val c2, r2)
               else if fixed then None else Some (digit_val c1, r)
           | [] \<Rightarrow> if fixed then None else Some (digit_val c1, [])))"

definition expect :: "char \<Rightarrow> bytes \<Rightarrow> bytes option" where
  "expect c s = (case s of [] \<Rightarrow> None | x # r \<Rightarrow> if x = c then Some r else None)"

definition get_year :: "bytes \<Rightarrow> (int \<times> bytes) option" where
  "get_year s =
     (if length (take 4 s) = 4 \<and> list_all is_digit (take 4 s)
      then Some (dec_digits (take 4 s), drop 4 s) else None)"

text \<open>A fraction the layout does not have: its nanoseconds, the digits after nine dropped.\<close>

definition get_fraction :: "bytes \<Rightarrow> int \<times> bytes" where
  "get_fraction s =
     (case s of
        c # d # r \<Rightarrow>
          if (c = CHR ''.'' \<or> c = CHR '','') \<and> is_digit d then
            (let ds = takeWhile is_digit (d # r); ns = take 9 ds in
             (dec_digits ns * 10 ^ (9 - length ns), dropWhile is_digit (d # r)))
          else (0, s)
      | _ \<Rightarrow> (0, s))"

text \<open>\<open>Z\<close>, or a sign, two digits, a colon and two digits.\<close>

definition get_zone :: "bytes \<Rightarrow> (int \<times> bytes) option" where
  "get_zone s =
     (case s of
        [] \<Rightarrow> None
      | c # r \<Rightarrow>
          if c = CHR ''Z'' then Some (0, r)
          else do {
            (hr, r1) \<leftarrow> getnum True r;
            r2 \<leftarrow> expect (CHR '':'') r1;
            (mm, r3) \<leftarrow> getnum True r2;
            if hr > 24 \<or> mm > 60 then None
            else if c = CHR ''+'' then Some (int (hr * 60 + mm) * 60, r3)
            else if c = CHR ''-'' then Some (- int (hr * 60 + mm) * 60, r3)
            else None
          })"

definition is_leap :: "int \<Rightarrow> bool" where
  "is_leap y \<longleftrightarrow> 4 dvd y \<and> (\<not> 100 dvd y \<or> 400 dvd y)"

definition days_in :: "int \<Rightarrow> nat \<Rightarrow> nat" where
  "days_in y m =
     (if m = 2 then (if is_leap y then 29 else 28)
      else if m \<in> set [4, 6, 9, 11] then 30 else 31)"

text \<open>Days from 1 January of the year 1 to 1 January of a year, and to a date.\<close>

definition days_to_year :: "int \<Rightarrow> int" where
  "days_to_year y = 365 * (y - 1) + (y - 1) div 4 - (y - 1) div 100 + (y - 1) div 400"

definition days_to :: "int \<Rightarrow> nat \<Rightarrow> nat \<Rightarrow> int" where
  "days_to y m d = days_to_year y + int (\<Sum>k\<leftarrow>[1..<m]. days_in y k) + int d - 1"

definition parse_time :: "bytes \<Rightarrow> Time option" where
  "parse_time s = do {
     (y, s) \<leftarrow> get_year s;
     s \<leftarrow> expect (CHR ''-'') s;
     (mo, s) \<leftarrow> getnum True s;
     s \<leftarrow> expect (CHR ''-'') s;
     (d, s) \<leftarrow> getnum True s;
     s \<leftarrow> expect (CHR ''T'') s;
     (h, s) \<leftarrow> getnum False s;
     s \<leftarrow> expect (CHR '':'') s;
     (mi, s) \<leftarrow> getnum True s;
     s \<leftarrow> expect (CHR '':'') s;
     (se, s) \<leftarrow> getnum True s;
     let (ns, s) = get_fraction s;
     (off, s) \<leftarrow> get_zone s;
     if s \<noteq> [] \<or> mo < 1 \<or> 12 < mo \<or> 24 \<le> h \<or> 60 \<le> mi \<or> 60 \<le> se \<or> d < 1 \<or> days_in y mo < d
     then None
     else Some \<lparr>tmSec = ((days_to y mo d * 24 + int h) * 60 + int mi) * 60 + int se - off,
       tmNsec = ns, tmOffset = off\<rparr>
   }"

definition dec_time :: "Time decoder" where
  "dec_time raw v x =
     (if raw = ''null'' then Some x
      else if 2 \<le> length raw \<and> hd raw = CHR 0x22 \<and> last raw = CHR 0x22
      then parse_time (butlast (tl raw))
      else None)"

end
