(* ===== verification/JsonPrefix.thy ===== *)
theory JsonPrefix
  imports Json
begin

text \<open>
  A JSON value is read without a look at what follows it, unless it is a number at the end of
  the input. Decoding the first value of a stream and decoding a whole document therefore
  agree on the value, and only the second sees what follows.
\<close>

lemma skip_ws_append: "skip_ws s \<noteq> [] \<Longrightarrow> skip_ws (s @ t) = skip_ws s @ t"
  by (induction s) (auto simp: skip_ws_def)

lemma skip_ws_append_Cons: "skip_ws s = c # r \<Longrightarrow> skip_ws (s @ t) = c # r @ t"
  using skip_ws_append [of s t] by simp

lemma scan_string_append:
  "scan_string s = Some (b, r) \<Longrightarrow> scan_string (s @ t) = Some (b, r @ t)"
proof (induction s arbitrary: b rule: length_induct)
  case (1 s)
  then obtain c u where s: "s = c # u" by (cases s) auto
  from 1(2) [unfolded s] show ?case
    by (cases rule: scan_string_cases) (use 1(1) s in \<open>auto simp: is_escape_def\<close>)
qed

lemma scan_digits_append_more:
  "scan_digits s = (ds, r) \<Longrightarrow> r \<noteq> [] \<Longrightarrow> scan_digits (s @ t) = (ds, r @ t)"
  unfolding scan_digits_def by (induction s arbitrary: ds) (auto split: if_splits)

lemma scan_int_append:
  "scan_int s = Some (b, r) \<Longrightarrow> r \<noteq> [] \<Longrightarrow> scan_int (s @ t) = Some (b, r @ t)"
  using scan_digits_append_more [of s b r t]
  by (auto simp: scan_int_def split: list.splits if_splits)

lemma scan_frac_append:
  "scan_frac s = Some (b, r) \<Longrightarrow> r \<noteq> [] \<Longrightarrow> scan_frac (s @ t) = Some (b, r @ t)"
proof (cases s)
  case (Cons c u)
  assume *: "scan_frac s = Some (b, r)" "r \<noteq> []"
  obtain ds r' where d: "scan_digits u = (ds, r')" by fastforce
  show ?thesis
  proof (cases "c = CHR ''.''")
    case True
    with * Cons d have "r' = r" "ds \<noteq> []" "b = c # ds"
      by (auto simp: scan_frac_def split: if_splits)
    with True Cons *(2) scan_digits_append_more [OF d, of t] show ?thesis
      by (simp add: scan_frac_def)
  next
    case False
    with * show ?thesis unfolding Cons by (auto simp: scan_frac_def)
  qed
qed (simp add: scan_frac_def)

lemma exp_sign_append: "u \<noteq> [] \<Longrightarrow> exp_sign (u @ t) = exp_sign u"
  by (cases u) (simp_all add: exp_sign_def)

lemma scan_exp_append:
  "scan_exp s = Some (b, r) \<Longrightarrow> r \<noteq> [] \<Longrightarrow> scan_exp (s @ t) = Some (b, r @ t)"
proof (cases s)
  case (Cons c u)
  assume *: "scan_exp s = Some (b, r)" "r \<noteq> []"
  let ?k = "length (exp_sign u)"
  obtain ds r' where d: "scan_digits (drop ?k u) = (ds, r')" by fastforce
  show ?thesis
  proof (cases "c = CHR ''e'' \<or> c = CHR ''E''")
    case True
    with * Cons d have r': "r' = r" "ds \<noteq> []" "b = c # exp_sign u @ ds"
      by (auto simp: scan_exp_def split: if_splits)
    then have "u \<noteq> []" using d *(2) by (auto simp: scan_digits_def)
    moreover have "?k \<le> length u"
      by (simp add: exp_sign_def) (metis length_takeWhile_le length_take min.bounded_iff)
    ultimately have "scan_digits (drop (length (exp_sign (u @ t))) (u @ t)) = (ds, r @ t)"
      using scan_digits_append_more [OF d, of t] r' *(2) by (simp add: exp_sign_append)
    with True Cons r' \<open>u \<noteq> []\<close> show ?thesis by (simp add: scan_exp_def exp_sign_append)
  next
    case False
    with * Cons show ?thesis by (auto simp: scan_exp_def)
  qed
qed (simp add: scan_exp_def)

lemma scan_number_append:
  assumes "scan_number s = Some (b, r)" "r \<noteq> []"
  shows "scan_number (s @ t) = Some (b, r @ t)"
proof -
  obtain sg s1 where sg: "scan_sign s = (sg, s1)" by fastforce
  from assms(1) sg obtain i s2 f s3 e where
    st: "scan_int s1 = Some (i, s2)" "scan_frac s2 = Some (f, s3)" "scan_exp s3 = Some (e, r)"
    and b: "b = sg @ i @ f @ e"
    by (auto simp: scan_number_def split: option.splits)
  then have ne: "s3 \<noteq> []" "s2 \<noteq> []" "s1 \<noteq> []"
    using assms(2) by (auto dest!: scan_int_consumes scan_frac_consumes scan_exp_consumes)
  then have "s \<noteq> []" using sg by (auto simp: scan_sign_def)
  then have "scan_sign (s @ t) = (sg, s1 @ t)"
    using sg by (cases s) (auto simp: scan_sign_def split: if_splits)
  then show ?thesis
    using scan_int_append [OF st(1) ne(2)] scan_frac_append [OF st(2) ne(1)]
      scan_exp_append [OF st(3) assms(2)]
    by (simp add: scan_number_def b)
qed

fun is_number :: "json \<Rightarrow> bool" where
  "is_number (JNum b) = True"
| "is_number _ = False"

lemma literal_append: "literal w v s = Some (x, r) \<Longrightarrow> literal w v (s @ t) = Some (x, r @ t)"
  by (auto simp: literal_def has_prefix_iff split: if_splits)

lemma scalar_append:
  assumes "scalar s = Some (v, r)" "r \<noteq> [] \<or> \<not> is_number v"
  shows "scalar (s @ t) = Some (v, r @ t)"
proof -
  from assms(1) obtain c u where s: "s = c # u" by (cases s) (auto simp: scalar_def)
  show ?thesis
    using assms unfolding s
    by (auto simp: scalar_def split: if_splits
        dest: scan_string_append [of _ _ _ t] literal_append [of _ _ _ _ _ t]
          scan_number_append [of _ _ _ t])
qed

lemma consumed_append: "shorter r s \<Longrightarrow> consumed (s @ t) (r @ t) = consumed s r"
  by (auto simp: consumed_def shorter_def)

lemma parse_key_append: "parse_key s = Some (k, r) \<Longrightarrow> parse_key (s @ t) = Some (k, r @ t)"
  by (auto simp: parse_key_def skip_ws_append_Cons split: list.splits option.splits if_splits
      dest: scan_string_append [of _ _ _ t])

lemma parse_append:
  "parse_value n d s = Some (v, r) \<Longrightarrow> r \<noteq> [] \<or> \<not> is_number v \<Longrightarrow>
     parse_value n d (s @ t) = Some (v, r @ t)"
  "parse_elems n d s = Some (xs, r) \<Longrightarrow> parse_elems n d (s @ t) = Some (xs, r @ t)"
  "parse_members n d s = Some (ms, r) \<Longrightarrow> parse_members n d (s @ t) = Some (ms, r @ t)"
proof (induction n d s and n d s and n d s arbitrary: v r and xs r and ms r
    rule: parse_value_parse_elems_parse_members.induct)
  case (2 n d s)
  from "2.prems"(1) obtain c u where s: "skip_ws s = c # u"
    by (auto simp: parse_value.simps split: list.splits)
  note s' = skip_ws_append_Cons [OF s, of t]
  show ?case
  proof (cases "c = CHR ''{'' \<or> c = CHR ''[''")
    case True
    then obtain c' u' where u: "skip_ws u = c' # u'" "d \<noteq> 0"
      using "2.prems" s by (auto simp: parse_value.simps split: list.splits if_splits)
    show ?thesis
      using "2.prems" s s' u True skip_ws_append_Cons [OF u(1), of t] "2.IH"
      by (auto simp: parse_value.simps split: if_splits)
  next
    case False
    then have "scalar (c # u) = Some (v, r)"
      using "2.prems" s by (simp add: parse_value.simps)
    with "2.prems"(2) have "scalar (c # u @ t) = Some (v, r @ t)"
      using scalar_append [of "c # u" v r t] by simp
    with False s' show ?thesis by (simp add: parse_value.simps)
  qed
next
  case (4 n d s)
  then obtain v0 r0 c r' where v: "parse_value n d (skip_ws s) = Some (v0, r0)"
    and r': "skip_ws r0 = c # r'"
    by (auto simp: parse_elems.simps split: option.splits list.splits)
  have ne: "skip_ws s \<noteq> []" using parse_shorter(1) [OF v] by (auto simp: shorter_def)
  have "r0 \<noteq> []" using r' by (auto simp: skip_ws_def)
  then have v': "parse_value n d (skip_ws s @ t) = Some (v0, r0 @ t)" using "4.IH"(1) [OF v] by simp
  show ?case
    using "4.prems" v v' r' skip_ws_append [OF ne, of t] skip_ws_append_Cons [OF r', of t]
      consumed_append [OF parse_shorter(1) [OF v]] "4.IH"(2) [OF v refl r']
    by (auto simp: parse_elems.simps split: if_splits)
next
  case (6 n d s)
  then obtain k s3 v0 r0 c r' where k: "parse_key s = Some (k, s3)"
    and v: "parse_value n d (skip_ws s3) = Some (v0, r0)" and r': "skip_ws r0 = c # r'"
    by (auto simp: parse_members.simps split: option.splits list.splits)
  have ne: "skip_ws s3 \<noteq> []" using parse_shorter(1) [OF v] by (auto simp: shorter_def)
  have "r0 \<noteq> []" using r' by (auto simp: skip_ws_def)
  then have v': "parse_value n d (skip_ws s3 @ t) = Some (v0, r0 @ t)"
    using "6.IH"(1) [OF k refl v] by simp
  show ?case
    using "6.prems" k v v' r' parse_key_append [OF k, of t] skip_ws_append [OF ne, of t]
      skip_ws_append_Cons [OF r', of t] consumed_append [OF parse_shorter(1) [OF v]]
      "6.IH"(2) [OF k refl v refl r']
    by (auto simp: parse_members.simps split: if_splits)
qed (simp_all add: parse_value.simps parse_elems.simps parse_members.simps)

text \<open>Nor does it matter how much deeper the nesting might go.\<close>

lemma parse_deeper:
  "parse_value n d s = Some (v, r) \<Longrightarrow> d \<le> d' \<Longrightarrow> parse_value n d' s = Some (v, r)"
  "parse_elems n d s = Some (xs, r) \<Longrightarrow> d \<le> d' \<Longrightarrow> parse_elems n d' s = Some (xs, r)"
  "parse_members n d s = Some (ms, r) \<Longrightarrow> d \<le> d' \<Longrightarrow> parse_members n d' s = Some (ms, r)"
proof (induction n d s and n d s and n d s arbitrary: d' v r and d' xs r and d' ms r
    rule: parse_value_parse_elems_parse_members.induct)
  case (2 n d s)
  have le: "d - 1 \<le> d' - 1" using "2.prems"(2) by simp
  from "2.prems"(1) obtain c u where s: "skip_ws s = c # u"
    by (auto simp: parse_value.simps split: list.splits)
  show ?case
  proof (cases "c = CHR ''{'' \<or> c = CHR ''[''")
    case True
    then obtain c' u' where u: "skip_ws u = c' # u'" "d \<noteq> 0"
      using "2.prems" s by (auto simp: parse_value.simps split: list.splits if_splits)
    have m: "parse_members n (d - 1) u = Some x \<Longrightarrow> parse_members n (d' - 1) u = Some x"
      if "c = CHR ''{''" "c' \<noteq> CHR ''}''" for x
      using "2.IH"(1) [OF s that(1) u(2) u(1) that(2) _ le] by (cases x) simp
    have e: "parse_elems n (d - 1) u = Some x \<Longrightarrow> parse_elems n (d' - 1) u = Some x"
      if "c = CHR ''[''" "c' \<noteq> CHR '']''" for x
      using "2.IH"(2) [OF s _ that(1) u(2) u(1) that(2) _ le] that by (cases x) simp
    show ?thesis
      using "2.prems" s u True m e by (auto simp: parse_value.simps split: if_splits)
  next
    case False
    with "2.prems" s show ?thesis by (simp add: parse_value.simps)
  qed
next
  case (4 n d s)
  from "4.prems"(1) obtain v0 r0 where v: "parse_value n d (skip_ws s) = Some (v0, r0)"
    by (auto simp: parse_elems.simps split: option.splits)
  note v' = "4.IH"(1) [OF v "4.prems"(2)]
  from "4.prems"(1) v obtain c r' where r': "skip_ws r0 = c # r'"
    by (auto simp: parse_elems.simps split: list.splits)
  have e: "parse_elems n d r' = Some x \<Longrightarrow> parse_elems n d' r' = Some x" if "c = CHR '',''" for x
    using "4.IH"(2) [OF v refl r' _ that _ "4.prems"(2)] that by (cases x) simp
  show ?case
    using "4.prems"(1) v v' r' e by (auto simp: parse_elems.simps split: if_splits)
next
  case (6 n d s)
  from "6.prems"(1) obtain k s3 v0 r0 where k: "parse_key s = Some (k, s3)"
    and v: "parse_value n d (skip_ws s3) = Some (v0, r0)"
    by (auto simp: parse_members.simps split: option.splits)
  note v' = "6.IH"(1) [OF k refl v "6.prems"(2)]
  from "6.prems"(1) k v obtain c r' where r': "skip_ws r0 = c # r'"
    by (auto simp: parse_members.simps split: list.splits)
  have e: "parse_members n d r' = Some x \<Longrightarrow> parse_members n d' r' = Some x"
    if "c = CHR '',''" for x
    using "6.IH"(2) [OF k refl v refl r' _ that _ "6.prems"(2)] that by (cases x) simp
  show ?case
    using "6.prems"(1) k v v' r' e by (auto simp: parse_members.simps split: if_splits)
qed (simp_all add: parse_value.simps parse_elems.simps parse_members.simps)

subsection \<open>Whole documents and streams\<close>

lemma parse_top_append:
  assumes "parse_value (parse_fuel s) d (skip_ws s) = Some (v, r)" "r \<noteq> [] \<or> \<not> is_number v"
  shows "parse_value (parse_fuel (s @ t)) d (skip_ws (s @ t)) = Some (v, r @ t)"
    and "consumed (skip_ws (s @ t)) (r @ t) = consumed (skip_ws s) r"
proof -
  have sh: "shorter r (skip_ws s)" by (rule parse_shorter(1) [OF assms(1)])
  then have ne: "skip_ws s \<noteq> []" by (auto simp: shorter_def)
  have "parse_value (parse_fuel (s @ t)) d (skip_ws s) = Some (v, r)"
    using assms(1) skip_ws_length [of s]
    by (subst parse_fuel_enough(1) [of _ _ "parse_fuel s"]) (simp_all add: parse_fuel_def)
  from parse_append(1) [OF this assms(2)] ne
  show "parse_value (parse_fuel (s @ t)) d (skip_ws (s @ t)) = Some (v, r @ t)"
    by (simp add: skip_ws_append)
  show "consumed (skip_ws (s @ t)) (r @ t) = consumed (skip_ws s) r"
    using consumed_append [OF sh] ne by (simp add: skip_ws_append)
qed

lemma parse_first_append:
  assumes "parse_first s = Some (raw, v)" "\<not> is_number v"
  shows "parse_first (s @ t) = Some (raw, v)"
proof -
  from assms(1) obtain r where r: "parse_value (parse_fuel s) max_depth (skip_ws s) = Some (v, r)"
    "raw = consumed (skip_ws s) r"
    by (auto simp: parse_first_def split: option.splits)
  from parse_top_append [OF r(1), of t] assms(2) r(2) show ?thesis
    by (simp add: parse_first_def)
qed

lemma parse_whole_first:
  "parse_whole s = Some (raw, v) \<Longrightarrow> parse_first s = Some (raw, v)"
  by (auto simp: parse_whole_def parse_first_def split: option.splits if_splits)

lemma parse_whole_append_space:
  assumes "parse_whole s = Some (raw, v)" "\<not> is_number v"
  shows "parse_whole (s @ t) = (if skip_ws t = [] then Some (raw, v) else None)"
proof -
  from assms(1) obtain r where r: "parse_value (parse_fuel s) max_depth (skip_ws s) = Some (v, r)"
    "raw = consumed (skip_ws s) r" "skip_ws r = []"
    by (auto simp: parse_whole_def split: option.splits if_splits)
  then have "skip_ws (r @ t) = skip_ws t"
    by (simp add: skip_ws_def dropWhile_append)
  with parse_top_append [OF r(1), of t] assms(2) r(2) show ?thesis
    by (simp add: parse_whole_def)
qed

end
