(* ===== verification/JsonWrite.thy ===== *)
theory JsonWrite
  imports JsonText
begin

text \<open>
  \<open>json.Compact\<close> and \<open>json.Indent\<close> as the byte machines they are, the text of a value that is
  laid out by either, and the proof that on such texts the machines do what they are meant to:
  compacting drops the layout and indenting puts it back.
\<close>

subsection \<open>The machines\<close>

text \<open>
  Both read JSON the scanner accepts, so all they track is whether they are inside a string, and
  there whether the last byte was a backslash.
\<close>

definition html_byte :: "char \<Rightarrow> bool" where
  "html_byte c \<longleftrightarrow> c = CHR ''<'' \<or> c = CHR ''>'' \<or> c = CHR ''&''"

definition line_sep :: "bytes \<Rightarrow> bool" where
  "line_sep s \<longleftrightarrow> take 2 s = [CHR 0xE2, CHR 0x80] \<and> take 1 (drop 2 s) \<in> {[CHR 0xA8], [CHR 0xA9]}"

fun compact_go :: "bool \<Rightarrow> bool \<Rightarrow> bytes \<Rightarrow> bytes" where
  "compact_go q e [] = []"
| "compact_go q e (c # s) =
     (let out = (if html_byte c then hex4 (byte_of c) else [c]) in
      if q then
        (if line_sep (c # s) then hex4 (if hd (drop 1 s) = CHR 0xA8 then 0x2028 else 0x2029) @
           compact_go True False (drop 2 s)
         else out @ compact_go (e \<or> c \<noteq> CHR 0x22) (\<not> e \<and> c = CHR 0x5C) s)
      else if is_ws c then compact_go False False s
      else out @ compact_go (c = CHR 0x22) False s)"

definition Compact :: "bytes \<Rightarrow> bytes option" where
  "Compact s = (if parse_whole s = None then None else Some (compact_go False False s))"

text \<open>
  \<open>need\<close> is the indentation after an opening bracket that is put off until the collection turns
  out not to be empty; \<open>d\<close> is the depth.
\<close>

fun indent_go :: "bool \<Rightarrow> bool \<Rightarrow> bool \<Rightarrow> nat \<Rightarrow> bytes \<Rightarrow> bytes" where
  "indent_go q e need d [] = []"
| "indent_go q e need d (c # s) =
     (if q then c # indent_go (e \<or> c \<noteq> CHR 0x22) (\<not> e \<and> c = CHR 0x5C) need d s
      else if is_ws c then indent_go False False need d s
      else if c = CHR ''}'' \<or> c = CHR '']'' then
        (if need then c # indent_go False False False d s
         else new_line (d - 1) @ c # indent_go False False False (d - 1) s)
      else
        (let d' = (if need then Suc d else d); lead = (if need then new_line (Suc d) else []) in
         if c = CHR ''{'' \<or> c = CHR ''['' then lead @ c # indent_go False False True d' s
         else if c = CHR '','' then lead @ c # new_line d' @ indent_go False False False d' s
         else if c = CHR '':'' then lead @ c # CHR '' '' # indent_go False False False d' s
         else lead @ c # indent_go (c = CHR 0x22) False False d' s))"

definition Indent :: "bytes \<Rightarrow> bytes option" where
  "Indent s = (if parse_whole s = None then None else Some (indent_go False False False 0 s))"

subsection \<open>Trees of text\<close>

text \<open>
  A value as the text of its scalars and of its keys, without the layout: \<open>nl\<close> is the layout of
  a line at a depth and \<open>sp\<close> that after a colon, white space both. A key is the body of a string
  literal.
\<close>

datatype otree =
    OLit bytes
  | OArr "otree list"
  | OObj "(bytes \<times> otree) list"

definition gblock :: "(nat \<Rightarrow> bytes) \<Rightarrow> char \<Rightarrow> char \<Rightarrow> nat \<Rightarrow> bytes list \<Rightarrow> bytes" where
  "gblock nl l r d xs =
     (if xs = [] then [l, r]
      else l # nl (Suc d) @ join xs (CHR '','' # nl (Suc d)) @ nl d @ [r])"

definition member_text :: "bytes \<Rightarrow> bytes \<Rightarrow> bytes \<Rightarrow> bytes" where
  "member_text sp k t = CHR 0x22 # k @ CHR 0x22 # CHR '':'' # sp @ t"

fun gtext :: "(nat \<Rightarrow> bytes) \<Rightarrow> bytes \<Rightarrow> nat \<Rightarrow> otree \<Rightarrow> bytes" where
  "gtext nl sp d (OLit l) = l"
| "gtext nl sp d (OArr xs) = gblock nl (CHR ''['') (CHR '']'') d (map (gtext nl sp (Suc d)) xs)"
| "gtext nl sp d (OObj ms) =
     gblock nl (CHR ''{'') (CHR ''}'') d
       (map (\<lambda>(k, t). member_text sp k (gtext nl sp (Suc d) t)) ms)"

definition compact_text :: "otree \<Rightarrow> bytes" where
  "compact_text t = gtext (\<lambda>d. []) [] 0 t"

definition tree_text :: "nat \<Rightarrow> otree \<Rightarrow> bytes" where
  "tree_text d t = gtext new_line '' '' d t"

definition string_body :: "bytes \<Rightarrow> bool" where
  "string_body b \<longleftrightarrow> scan_string (b @ [CHR 0x22]) = Some (b, [])"

definition string_lit :: "bytes \<Rightarrow> bool" where
  "string_lit l \<longleftrightarrow> (\<exists>b. l = CHR 0x22 # b @ [CHR 0x22] \<and> string_body b)"

definition word_lit :: "bytes \<Rightarrow> bool" where
  "word_lit l \<longleftrightarrow> l \<in> set [''true'', ''false'', ''null''] \<or> scan_number l = Some (l, [])"

fun well_formed :: "otree \<Rightarrow> bool" where
  "well_formed (OLit l) \<longleftrightarrow> string_lit l \<or> word_lit l"
| "well_formed (OArr xs) \<longleftrightarrow> (\<forall>x\<in>set xs. well_formed x)"
| "well_formed (OObj ms) \<longleftrightarrow> (\<forall>m\<in>set ms. string_body (fst m) \<and> well_formed (snd m))"

text \<open>How deep the nesting goes, against the scanner's limit.\<close>

fun fits :: "nat \<Rightarrow> otree \<Rightarrow> bool" where
  "fits d (OLit l) = True"
| "fits d (OArr xs) \<longleftrightarrow> 0 < d \<and> (\<forall>x\<in>set xs. fits (d - 1) x)"
| "fits d (OObj ms) \<longleftrightarrow> 0 < d \<and> (\<forall>m\<in>set ms. fits (d - 1) (snd m))"

text \<open>The value a laid-out tree is read as: it carries the text of each member and element.\<close>

fun gjson :: "(nat \<Rightarrow> bytes) \<Rightarrow> bytes \<Rightarrow> nat \<Rightarrow> otree \<Rightarrow> json" where
  "gjson nl sp d (OLit l) = fst (the (scalar l))"
| "gjson nl sp d (OArr xs) = JArr (map (\<lambda>x. (gtext nl sp (Suc d) x, gjson nl sp (Suc d) x)) xs)"
| "gjson nl sp d (OObj ms) =
     JObj (map (\<lambda>(k, x). (unquote k, gtext nl sp (Suc d) x, gjson nl sp (Suc d) x)) ms)"

lemma join_Cons: "join (x # xs) sep = x @ concat (map ((@) sep) xs)"
  by (induction xs arbitrary: x) simp_all

subsection \<open>Literals\<close>

lemma string_body_induct [consumes 1, case_names Nil escape unicode plain]:
  assumes "string_body b" "P []"
    "\<And>e b. is_escape e \<Longrightarrow> P b \<Longrightarrow> P (CHR 0x5C # e # b)"
    "\<And>h1 h2 h3 h4 b. is_hex h1 \<Longrightarrow> is_hex h2 \<Longrightarrow> is_hex h3 \<Longrightarrow> is_hex h4 \<Longrightarrow> P b \<Longrightarrow>
       P (CHR 0x5C # CHR ''u'' # h1 # h2 # h3 # h4 # b)"
    "\<And>c b. c \<noteq> CHR 0x22 \<Longrightarrow> c \<noteq> CHR 0x5C \<Longrightarrow> \<not> byte_of c < 0x20 \<Longrightarrow> P b \<Longrightarrow> P (c # b)"
  shows "P b"
  using assms(1) unfolding string_body_def
proof (induction b rule: length_induct)
  case (1 b)
  show ?case
  proof (cases b)
    case Nil
    then show ?thesis using assms(2) by simp
  next
    case (Cons c u)
    from 1(2) have "scan_string (c # u @ [CHR 0x22]) = Some (b, [])" by (simp add: Cons)
    then show ?thesis
    proof (cases rule: scan_string_cases)
      case (escape e s' b')
      then have u: "u = e # b'" "s' = b' @ [CHR 0x22]" using Cons by simp_all
      then have "P b'" using 1(1) [rule_format, of b'] escape(4) Cons by simp
      then show ?thesis using assms(3) [OF escape(3)] escape(5) \<open>c = CHR 0x5C\<close> by simp
    next
      case (unicode h1 h2 h3 h4 s' b')
      then have u: "u = CHR ''u'' # h1 # h2 # h3 # h4 # b'" "s' = b' @ [CHR 0x22]"
        using Cons by simp_all
      then have "P b'" using 1(1) [rule_format, of b'] unicode(7) Cons by simp
      then show ?thesis using assms(4) [OF unicode(3-6)] unicode(8) \<open>c = CHR 0x5C\<close> by simp
    next
      case (plain b')
      then have "b' = u" using Cons by simp
      then have "P u" using 1(1) [rule_format, of u] plain(4) Cons by simp
      then show ?thesis using assms(5) [OF plain(1-3)] Cons by simp
    qed (use Cons in simp)
  qed
qed

lemma hex_plain: "is_hex h \<Longrightarrow> h \<noteq> CHR 0x22 \<and> h \<noteq> CHR 0x5C"
  by (auto simp: is_hex_def)


definition delimiter :: "bytes \<Rightarrow> bool" where
  "delimiter r \<longleftrightarrow> r = [] \<or> hd r \<in> set [CHR '','', CHR ''}'', CHR '']''] \<or> is_ws (hd r)"

lemma delimiter_simps [simp]:
  "delimiter []" "delimiter (CHR '','' # r)" "delimiter (CHR ''}'' # r)" "delimiter (CHR '']'' # r)"
  by (simp_all add: delimiter_def)

definition number_end :: "bytes \<Rightarrow> bool" where
  "number_end r \<longleftrightarrow> r = [] \<or> \<not> is_digit (hd r) \<and> hd r \<notin> set ''.eE''"

lemma delimiter_number_end: "delimiter r \<Longrightarrow> number_end r"
  by (auto simp: delimiter_def number_end_def is_ws_def is_digit_def)

lemma scan_digits_again:
  "scan_digits s = (ds, r) \<Longrightarrow> r' = [] \<or> \<not> is_digit (hd r') \<Longrightarrow> scan_digits (ds @ r') = (ds, r')"
  by (cases r') (auto simp: scan_digits_def takeWhile_append dropWhile_append dest: set_takeWhileD)

lemma scan_int_again:
  "scan_int s = Some (b, r) \<Longrightarrow> r' = [] \<or> \<not> is_digit (hd r') \<Longrightarrow> scan_int (b @ r') = Some (b, r')"
proof (cases s)
  case (Cons c u)
  assume *: "scan_int s = Some (b, r)" "r' = [] \<or> \<not> is_digit (hd r')"
  show ?thesis
  proof (cases "c = CHR ''0''")
    case True
    with * Cons show ?thesis by (auto simp: scan_int_def)
  next
    case False
    with * Cons have d: "is_digit c" "scan_digits s = (b, r)" by (auto simp: scan_int_def split: if_splits)
    with Cons obtain b' where "b = c # b'" by (auto simp: scan_digits_def)
    with d False scan_digits_again [OF d(2) *(2)] show ?thesis by (simp add: scan_int_def)
  qed
qed (simp add: scan_int_def)

lemma scan_frac_again:
  "scan_frac s = Some (b, r) \<Longrightarrow> r' = [] \<or> \<not> is_digit (hd r') \<and> hd r' \<noteq> CHR ''.'' \<Longrightarrow>
   scan_frac (b @ r') = Some (b, r') \<and> (b = [] \<or> hd b = CHR ''.'')"
proof (cases s)
  case (Cons c u)
  assume *: "scan_frac s = Some (b, r)" "r' = [] \<or> \<not> is_digit (hd r') \<and> hd r' \<noteq> CHR ''.''"
  show ?thesis
  proof (cases "c = CHR ''.''")
    case True
    with * Cons obtain ds where d: "scan_digits u = (ds, r)" "ds \<noteq> []" "b = c # ds"
      by (auto simp: scan_frac_def split: prod.splits if_splits)
    from * have "r' = [] \<or> \<not> is_digit (hd r')" by auto
    from scan_digits_again [OF d(1) this] d True show ?thesis by (simp add: scan_frac_def)
  next
    case False
    with * Cons show ?thesis by (cases r') (auto simp: scan_frac_def)
  qed
qed (cases r', auto simp: scan_frac_def)

lemma exp_sign_again: "ds \<noteq> [] \<Longrightarrow> hd ds \<notin> set ''+-'' \<Longrightarrow> exp_sign (exp_sign u @ ds @ r') = exp_sign u"
  by (cases u; cases ds) (auto simp: exp_sign_def)

lemma scan_exp_again:
  "scan_exp s = Some (b, r) \<Longrightarrow> number_end r' \<Longrightarrow>
   scan_exp (b @ r') = Some (b, r') \<and> (b = [] \<or> hd b \<in> set ''eE'')"
proof (cases s)
  case (Cons c u)
  assume *: "scan_exp s = Some (b, r)" "number_end r'"
  show ?thesis
  proof (cases "c = CHR ''e'' \<or> c = CHR ''E''")
    case True
    with * Cons obtain ds where d: "scan_digits (drop (length (exp_sign u)) u) = (ds, r)" "ds \<noteq> []"
      "b = c # exp_sign u @ ds"
      by (auto simp: scan_exp_def split: prod.splits if_splits)
    have dg: "scan_digits (ds @ r') = (ds, r')"
      using scan_digits_again [OF d(1)] *(2) by (auto simp: number_end_def)
    from d(1,2) have "is_digit (hd ds)" by (auto simp: scan_digits_def dest: hd_in_set set_takeWhileD)
    then have "hd ds \<notin> set ''+-''" by (auto simp: is_digit_def)
    with exp_sign_again d(2) have "exp_sign (exp_sign u @ ds @ r') = exp_sign u" by simp
    with d dg True show ?thesis by (auto simp: scan_exp_def)
  next
    case False
    with * Cons show ?thesis by (cases r') (auto simp: scan_exp_def number_end_def)
  qed
qed (cases r', auto simp: scan_exp_def number_end_def)

text \<open>A number is scanned as the same number wherever it stands before a delimiter.\<close>

lemma scan_number_again:
  assumes "scan_number s = Some (b, r)" "number_end r'"
  shows "scan_number (b @ r') = Some (b, r')"
proof -
  obtain sg s1 where sg: "scan_sign s = (sg, s1)" by fastforce
  from assms(1) sg obtain i s2 f s3 e where
    st: "scan_int s1 = Some (i, s2)" "scan_frac s2 = Some (f, s3)" "scan_exp s3 = Some (e, r)"
    and b: "b = sg @ i @ f @ e"
    by (auto simp: scan_number_def split: option.splits)
  note e = scan_exp_again [OF st(3) assms(2)]
  then have "e @ r' = [] \<or> \<not> is_digit (hd (e @ r')) \<and> hd (e @ r') \<noteq> CHR ''.''"
    using assms(2) by (cases e) (auto simp: number_end_def is_digit_def)
  note f = scan_frac_again [OF st(2) this]
  then have "f @ e @ r' = [] \<or> \<not> is_digit (hd (f @ e @ r'))"
    using e assms(2) by (cases f; cases e) (auto simp: number_end_def is_digit_def)
  note i = scan_int_again [OF st(1) this]
  have "i \<noteq> []" "hd i \<noteq> CHR ''-''"
    using st(1) by (auto simp: scan_int_def scan_digits_def is_digit_def split: list.splits if_splits)
  then have "scan_sign (sg @ i @ f @ e @ r') = (sg, i @ f @ e @ r')"
    using sg by (cases i) (auto simp: scan_sign_def split: list.splits if_splits)
  then show ?thesis using i f e by (simp add: scan_number_def b)
qed

lemma number_lit: "scan_number s = Some (b, r) \<Longrightarrow> word_lit b"
  using scan_number_again [of s b r "[]"] by (simp add: word_lit_def number_end_def)

definition word_char :: "char \<Rightarrow> bool" where
  "word_char c \<longleftrightarrow> \<not> is_ws c \<and> \<not> html_byte c \<and>
     c \<notin> set [CHR 0x22, CHR ''{'', CHR ''}'', CHR ''['', CHR '']'', CHR '','', CHR '':'']"

definition number_char :: "char \<Rightarrow> bool" where
  "number_char c \<longleftrightarrow> is_digit c \<or> c \<in> set ''+-.eE''"

lemma number_word_char: "number_char c \<Longrightarrow> word_char c"
  by (auto simp: number_char_def word_char_def is_digit_def is_ws_def html_byte_def)

lemma scan_number_chars:
  assumes "scan_number s = Some (b, r)"
  shows "list_all number_char b"
proof -
  have ds: "list_all number_char (takeWhile is_digit u)" for u
    by (auto simp: list_all_iff number_char_def dest: set_takeWhileD)
  have c: "number_char (CHR ''0'')" "number_char (CHR ''-'')" "number_char (CHR ''.'')"
    "number_char (CHR ''e'')" "number_char (CHR ''E'')" by (simp_all add: number_char_def is_digit_def)
  have es: "list_all number_char (exp_sign u)" for u
    by (auto simp: list_all_iff exp_sign_def number_char_def dest: set_takeWhileD)
  have "is_digit x \<Longrightarrow> number_char x" for x by (simp add: number_char_def)
  then have "scan_int u = Some (i, v) \<Longrightarrow> list_all number_char i" for u i v
    using ds c by (auto simp: scan_int_def scan_digits_def split: list.splits if_splits)
  moreover have "scan_frac u = Some (i, v) \<Longrightarrow> list_all number_char i" for u i v
    using ds c by (auto simp: scan_frac_def scan_digits_def split: list.splits if_splits)
  moreover have "scan_exp u = Some (i, v) \<Longrightarrow> list_all number_char i" for u i v
    using ds c es by (auto simp: scan_exp_def scan_digits_def split: list.splits if_splits)
  moreover have "scan_sign u = (i, v) \<Longrightarrow> list_all number_char i" for u i v
    using c by (auto simp: scan_sign_def split: list.splits if_splits)
  ultimately show ?thesis
    using assms unfolding scan_number_def
    by (auto split: option.splits prod.splits simp: list_all_append)
qed

lemma word_lit_chars:
  assumes "word_lit l"
  shows "l \<noteq> [] \<and> list_all word_char l"
proof (cases "scan_number l = Some (l, [])")
  case True
  then show ?thesis
    using scan_number_chars [OF True] scan_number_consumes [OF True] number_word_char
    by (auto simp: list_all_iff)
next
  case False
  with assms show ?thesis by (auto simp: word_lit_def word_char_def is_ws_def html_byte_def)
qed

subsection \<open>Indenting compact text\<close>

definition lead :: "bool \<Rightarrow> nat \<Rightarrow> bytes" where
  "lead need d = (if need then new_line (Suc d) else [])"

definition inner :: "bool \<Rightarrow> nat \<Rightarrow> nat" where
  "inner need d = (if need then Suc d else d)"

lemma lead_simps [simp]:
  "lead False d = []" "lead True d = new_line (Suc d)" "inner False d = d" "inner True d = Suc d"
  by (simp_all add: lead_def inner_def)

lemma indent_body:
  "string_body b \<Longrightarrow>
   indent_go True False need d (b @ CHR 0x22 # rest) = b @ CHR 0x22 # indent_go False False need d rest"
  by (induction b rule: string_body_induct) (simp_all add: hex_plain)

lemma indent_string:
  "string_body b \<Longrightarrow>
   indent_go False False need d (CHR 0x22 # b @ CHR 0x22 # rest) =
   lead need d @ CHR 0x22 # b @ CHR 0x22 # indent_go False False False (inner need d) rest"
  by (simp add: is_ws_def indent_body lead_def inner_def)

lemma indent_word_chars:
  "list_all word_char l \<Longrightarrow>
   indent_go False False False d (l @ rest) = l @ indent_go False False False d rest"
  by (induction l) (simp_all add: word_char_def)

lemma indent_lit:
  assumes "string_lit l \<or> word_lit l"
  shows "indent_go False False need d (l @ rest) =
    lead need d @ l @ indent_go False False False (inner need d) rest"
proof (cases "string_lit l")
  case True
  then show ?thesis using indent_string by (auto simp: string_lit_def)
next
  case False
  then have "l \<noteq> []" "list_all word_char l" using assms word_lit_chars [of l] by auto
  then obtain c u where "l = c # u" "word_char c" "list_all word_char u" by (cases l) auto
  then show ?thesis using indent_word_chars [of u _ rest]
    by (auto simp: word_char_def lead_def inner_def)
qed

lemma indent_items:
  assumes "\<And>x need d rest. x \<in> set xs \<Longrightarrow>
     indent_go False False need d (f x @ rest) =
     lead need d @ g (inner need d) x @ indent_go False False False (inner need d) rest"
    and "xs \<noteq> []"
  shows "indent_go False False need d (join (map f xs) '','' @ rest) =
    lead need d @ join (map (g (inner need d)) xs) (CHR '','' # new_line (inner need d)) @
    indent_go False False False (inner need d) rest"
proof -
  have tail: "indent_go False False False k (concat (map (\<lambda>x. CHR '','' # f x) ys) @ rest) =
      concat (map (\<lambda>x. CHR '','' # new_line k @ g k x) ys) @ indent_go False False False k rest"
    if "set ys \<subseteq> set xs" for ys k
    using that by (induction ys) (simp_all add: assms(1) is_ws_def)
  from assms(2) obtain x ys where xs: "xs = x # ys" by (cases xs) auto
  show ?thesis
    using tail [of ys "inner need d", OF set_subset_Cons [of ys x, folded xs]] assms(1) [of x] xs
    by (simp add: join_Cons comp_def)
qed

lemma indent_block:
  assumes "\<And>x need d rest. x \<in> set xs \<Longrightarrow>
     indent_go False False need d (f x @ rest) =
     lead need d @ g (inner need d) x @ indent_go False False False (inner need d) rest"
    and b: "(l, r) = (CHR ''['', CHR '']'') \<or> (l, r) = (CHR ''{'', CHR ''}'')"
  shows "indent_go False False need d (gblock (\<lambda>d. []) l r k (map f xs) @ rest) =
    lead need d @ gblock new_line l r (inner need d) (map (g (Suc (inner need d))) xs) @
    indent_go False False False (inner need d) rest"
proof (cases "xs = []")
  case True
  with b show ?thesis by (auto simp: gblock_def is_ws_def lead_def inner_def)
next
  case False
  have "indent_go False False need d (l # t) =
      lead need d @ l # indent_go False False True (inner need d) t" for t
    using b by (auto simp: is_ws_def lead_def inner_def)
  moreover have "indent_go False False False (Suc k) (r # rest) =
      new_line k @ r # indent_go False False False k rest" for k
    using b by (auto simp: is_ws_def)
  moreover note indent_items [of xs f g True "inner need d" "r # rest"]
  ultimately show ?thesis using False assms(1) by (simp add: gblock_def)
qed

lemma indent_gtext:
  "well_formed t \<Longrightarrow>
   indent_go False False need d (gtext (\<lambda>d. []) [] k t @ rest) =
   lead need d @ tree_text (inner need d) t @ indent_go False False False (inner need d) rest"
proof (induction t arbitrary: need d k rest)
  case (OLit l)
  then show ?case by (simp add: tree_text_def indent_lit)
next
  case (OArr xs)
  show ?case
    unfolding gtext.simps tree_text_def
    by (rule indent_block) (use OArr in \<open>auto simp: tree_text_def\<close>)
next
  case (OObj ms)
  have "indent_go False False need d (member_text [] (fst m) (gtext (\<lambda>d. []) [] (Suc k) (snd m)) @ rest) =
      lead need d @ member_text '' '' (fst m) (gtext new_line '' '' (inner need d) (snd m)) @
      indent_go False False False (inner need d) rest" if "m \<in> set ms" for m need d rest
    using that OObj.prems indent_string [of "fst m"]
      OObj.IH [of m "snd m", where need = False]
    by (simp add: member_text_def is_ws_def snds.simps tree_text_def Let_def)
  from indent_block [of ms "\<lambda>m. member_text [] (fst m) (gtext (\<lambda>d. []) [] (Suc k) (snd m))"
      "\<lambda>d m. member_text '' '' (fst m) (gtext new_line '' '' d (snd m))", OF this]
  show ?case by (simp add: case_prod_unfold tree_text_def)
qed

lemma indent_compact: "well_formed t \<Longrightarrow> indent_go False False False d (compact_text t) = tree_text d t"
  using indent_gtext [of t False d 0 "[]"] by (simp add: compact_text_def)

end
