(* ===== verification/JsonSound.thy ===== *)
theory JsonSound
  imports JsonDecode JsonWrite
begin

text \<open>
  Every string that comes out of a document is UTF-8, whatever bytes went in: unquoting turns
  ill-formed sequences and unpaired surrogates into the replacement character.
\<close>

lemma byte_of_byte_char: "n < 256 \<Longrightarrow> byte_of (byte_char n) = n"
  by (simp add: byte_of_def byte_char_def)

lemma cont_byte: "x < 64 \<Longrightarrow> is_cont (byte_char (0x80 + x)) \<and> byte_of (byte_char (0x80 + x)) = 0x80 + x"
  by (simp add: is_cont_def byte_of_byte_char)

lemma utf8_step:
  assumes "decode_rune (c # s) = (r, w)" "2 \<le> w"
  shows "utf8 (c # s) \<longleftrightarrow> utf8 (drop w (c # s))"
  using assms by (subst utf8.simps) (simp add: max_def)

lemma utf8_two:
  assumes "2 \<le> a" "a < 32" "x < 64"
  shows "utf8 (byte_char (0xC0 + a) # byte_char (0x80 + x) # s) \<longleftrightarrow> utf8 s"
proof -
  have "decode_rune (byte_char (0xC0 + a) # byte_char (0x80 + x) # s) = (a * 64 + x, 2)"
    using assms cont_byte [of x] by (simp add: decode_rune_def decode_rune2_def byte_of_byte_char)
  from utf8_step [OF this] show ?thesis by simp
qed

lemma utf8_three:
  assumes "a < 16" "x < 64" "y < 64" "a = 0 \<longrightarrow> 32 \<le> x" "a = 13 \<longrightarrow> x < 32"
  shows "utf8 (byte_char (0xE0 + a) # byte_char (0x80 + x) # byte_char (0x80 + y) # s) \<longleftrightarrow> utf8 s"
proof -
  have "decode_rune (byte_char (0xE0 + a) # byte_char (0x80 + x) # byte_char (0x80 + y) # s) =
      ((a * 64 + x) * 64 + y, 3)"
    using assms cont_byte [of x] cont_byte [of y]
    by (auto simp add: decode_rune_def decode_rune3_def byte_of_byte_char)
  from utf8_step [OF this] show ?thesis by simp
qed

lemma utf8_four:
  assumes "a < 5" "x < 64" "y < 64" "z < 64" "a = 0 \<longrightarrow> 16 \<le> x" "a = 4 \<longrightarrow> x < 16"
  shows "utf8 (byte_char (0xF0 + a) # byte_char (0x80 + x) # byte_char (0x80 + y) # byte_char (0x80 + z) # s)
    \<longleftrightarrow> utf8 s"
proof -
  have "decode_rune (byte_char (0xF0 + a) # byte_char (0x80 + x) # byte_char (0x80 + y) # byte_char (0x80 + z) # s) =
      (((a * 64 + x) * 64 + y) * 64 + z, 4)"
    using assms cont_byte [of x] cont_byte [of y] cont_byte [of z]
    by (auto simp add: decode_rune_def decode_rune4_def byte_of_byte_char)
  from utf8_step [OF this] show ?thesis by simp
qed

lemma utf8_encode_rune: "utf8 (encode_rune r @ s) \<longleftrightarrow> utf8 s"
proof -
  define n where "n = (if 0x10FFFF < r \<or> 0xD800 \<le> r \<and> r \<le> 0xDFFF then rune_error else r)"
  have n: "n \<le> 0x10FFFF" "\<not> (0xD800 \<le> n \<and> n \<le> 0xDFFF)" by (auto simp: n_def rune_error_def)
  have m: "k mod 64 < 64" for k :: nat by simp
  consider (one) "n < 0x80" | (two) "0x80 \<le> n" "n < 0x800" | (three) "0x800 \<le> n" "n < 0x10000"
    | (four) "0x10000 \<le> n" by linarith
  then show ?thesis
  proof cases
    case one
    then have "encode_rune r = [byte_char n]" by (simp add: encode_rune_def Let_def n_def [symmetric])
    with one show ?thesis by (simp add: utf8_ascii byte_of_byte_char)
  next
    case two
    then have "encode_rune r = [byte_char (0xC0 + n div 64), byte_char (0x80 + n mod 64)]"
      by (simp add: encode_rune_def Let_def n_def [symmetric])
    moreover have "2 \<le> n div 64" "n div 64 < 32" using two by simp_all
    ultimately show ?thesis using utf8_two [OF _ _ m] by simp
  next
    case three
    then have e: "encode_rune r = [byte_char (0xE0 + n div 4096), byte_char (0x80 + n div 64 mod 64), byte_char (0x80 + n mod 64)]"
      by (simp add: encode_rune_def Let_def n_def [symmetric])
    define k where "k = n div 64"
    have k: "n div 4096 = k div 64" "32 \<le> k" "k < 1024" "\<not> (864 \<le> k \<and> k \<le> 895)"
      using three n(2) by (auto simp: k_def div_mult2_eq [symmetric])
    have "k div 64 < 16" using k(3) by simp
    moreover have "32 \<le> k mod 64" if "k div 64 = 0" using that k(2) by simp
    moreover have "k mod 64 < 32" if "k div 64 = 13"
    proof -
      have "k = 13 * 64 + k mod 64" using that div_mult_mod_eq [of k 64] by simp
      with k(4) show ?thesis by linarith
    qed
    ultimately show ?thesis using utf8_three [OF _ m m] by (simp add: e k(1) k_def [symmetric])
  next
    case four
    then have e: "encode_rune r = [byte_char (0xF0 + n div 262144), byte_char (0x80 + n div 4096 mod 64),
        byte_char (0x80 + n div 64 mod 64), byte_char (0x80 + n mod 64)]"
      by (simp add: encode_rune_def Let_def n_def [symmetric])
    define k where "k = n div 4096"
    have k: "n div 262144 = k div 64" "16 \<le> k" "k \<le> 271"
      using four n(1) by (auto simp: k_def div_mult2_eq [symmetric])
    have "k div 64 < 5" using k(3) by simp
    moreover have "16 \<le> k mod 64" if "k div 64 = 0" using that k(2) by simp
    moreover have "k mod 64 < 16" if "k div 64 = 4"
    proof -
      have "k = 4 * 64 + k mod 64" using that div_mult_mod_eq [of k 64] by simp
      with k(3) show ?thesis by linarith
    qed
    ultimately show ?thesis using utf8_four [OF _ m m m] by (simp add: e k(1) k_def [symmetric])
  qed
qed

subsection \<open>Unquoting\<close>

lemma string_body_suffix: "passes x \<Longrightarrow> string_body (x @ y) \<Longrightarrow> string_body y"
  by (auto simp: string_body_def passes_def)

lemma passes_plain: "c \<noteq> CHR 0x22 \<Longrightarrow> c \<noteq> CHR 0x5C \<Longrightarrow> \<not> byte_of c < 0x20 \<Longrightarrow> passes [c]"
  by (simp add: passes_def case_prod_unfold)

lemma string_body_cases:
  assumes "string_body (c # u)"
  obtains (escape) e b where "c = CHR 0x5C" "u = e # b" "is_escape e" "string_body b"
  | (unicode) h1 h2 h3 h4 b where "c = CHR 0x5C" "u = CHR ''u'' # h1 # h2 # h3 # h4 # b" "string_body b"
  | (plain) "c \<noteq> CHR 0x22" "c \<noteq> CHR 0x5C" "\<not> byte_of c < 0x20" "string_body u"
proof -
  from assms have "scan_string (c # u @ [CHR 0x22]) = Some (c # u, [])" by (simp add: string_body_def)
  then show thesis
  proof (cases rule: scan_string_cases)
    case (escape e s' b')
    then have "u = e # b'" "s' = b' @ [CHR 0x22]" by simp_all
    with escape that(1) show thesis by (simp add: string_body_def)
  next
    case (unicode h1 h2 h3 h4 s' b')
    then have "u = CHR ''u'' # h1 # h2 # h3 # h4 # b'" "s' = b' @ [CHR 0x22]" by simp_all
    with unicode that(2) show thesis by (simp add: string_body_def)
  next
    case (plain b')
    with that(3) show thesis by (simp add: string_body_def)
  qed simp
qed

lemma unescape_ascii: "is_escape e \<Longrightarrow> byte_of (unescape e) < 0x80"
proof -
  have "list_all (\<lambda>e. byte_of (unescape e) < 0x80)
      [CHR 0x22, CHR 0x5C, CHR ''/'', CHR ''b'', CHR ''f'', CHR ''n'', CHR ''r'', CHR ''t'']"
    by (simp add: unescape_def byte_of_def)
  then show "is_escape e \<Longrightarrow> byte_of (unescape e) < 0x80"
    unfolding is_escape_def list_all_iff by blast
qed

lemma utf8_unquote: "string_body b \<Longrightarrow> utf8 (unquote b)"
proof (induction b rule: length_induct)
  case (1 b)
  have IH: "string_body d \<Longrightarrow> length d < length b \<Longrightarrow> utf8 (unquote d)" for d using 1(1) by blast
  show ?case
  proof (cases b)
    case (Cons c u)
    from 1(2) [unfolded Cons] show ?thesis
    proof (cases rule: string_body_cases)
      case (escape e d)
      then have "e \<noteq> CHR ''u''" by (auto simp: is_escape_def)
      then have "unquote b = unescape e # unquote d" using escape by (simp add: Cons unquote_escape)
      with IH [of d] escape unescape_ascii [OF escape(3)] show ?thesis by (simp add: Cons utf8_ascii)
    next
      case (unicode h1 h2 h3 h4 d)
      let ?h = "h1 # h2 # h3 # h4 # d"
      obtain e n where q: "unquote_u ?h = (e, n)" by fastforce
      have "unquote b = e @ unquote (drop n ?h)"
        unfolding Cons unicode(1,2) by (subst unquote.simps) (simp add: q)
      moreover have "(\<exists>r. e = encode_rune r) \<and> (n = 4 \<or> n = 10 \<and> take 2 d = [CHR 0x5C, CHR ''u''])"
        using q by (auto simp: unquote_u_def Let_def split: if_splits)
      moreover have "utf8 (unquote d)" using IH [OF unicode(3)] by (simp add: Cons unicode)
      moreover have "utf8 (unquote (drop 6 d))" if two: "take 2 d = [CHR 0x5C, CHR ''u'']"
      proof -
        from two obtain d' where d: "d = CHR 0x5C # CHR ''u'' # d'" by (cases d; cases "tl d") auto
        from unicode(3) [unfolded d] obtain b' where "CHR ''u'' # d' = CHR ''u'' # b'" "string_body (drop 4 d')"
          by (cases rule: string_body_cases) (auto simp: is_escape_def)
        with IH [of "drop 4 d'"] show ?thesis by (simp add: Cons unicode d)
      qed
      ultimately show ?thesis by (auto simp: utf8_encode_rune)
    next
      case plain
      show ?thesis
      proof (cases "byte_of c < 0x80")
        case True
        with plain IH [of u] show ?thesis by (simp add: Cons unquote_plain utf8_ascii)
      next
        case high: False
        obtain r w where d: "decode_rune (c # u) = (r, w)" by fastforce
        have un: "unquote b = encode_rune r @ unquote (drop (max 1 w) (c # u))"
          unfolding Cons using high plain(2) d by (subst unquote.simps) simp
        have w: "1 \<le> w" "w \<le> length (c # u)" using decode_rune_width [of "c # u"] d by simp_all
        have "passes (take w (c # u))"
        proof (cases "w = 1")
          case True
          then show ?thesis using passes_plain [OF plain(1-3)] by simp
        next
          case False
          with multi_byte [OF d] high show ?thesis by (auto intro: passes_high)
        qed
        moreover have "string_body (take w (c # u) @ drop w (c # u))" using 1(2) Cons by simp
        ultimately have "string_body (drop w (c # u))" by (rule string_body_suffix)
        with IH [of "drop w (c # u)"] w un show ?thesis by (simp add: Cons utf8_encode_rune max_def)
      qed
    qed
  qed simp
qed

lemma utf8_scanned: "scan_string s = Some (b, r) \<Longrightarrow> utf8 (unquote b)"
proof -
  assume "scan_string s = Some (b, r)"
  then have "string_body b"
  proof (induction s arbitrary: b rule: length_induct)
    case (1 s)
    then obtain c u where s: "s = c # u" by (cases s) auto
    from 1(2) [unfolded s] show ?case
    proof (cases rule: scan_string_cases)
      case (escape e s' b')
      from 1(1) [rule_format, of s' b'] this s have "string_body b'" by simp
      with escape show ?thesis by (simp add: string_body_def)
    next
      case (unicode h1 h2 h3 h4 s' b')
      from 1(1) [rule_format, of s' b'] this s have "string_body b'" by simp
      with unicode show ?thesis by (simp add: string_body_def is_escape_def)
    next
      case (plain b')
      from 1(1) [rule_format, of u b'] this s have "string_body b'" by simp
      with plain show ?thesis by (simp add: string_body_def)
    qed (simp add: string_body_def)
  qed
  then show ?thesis by (rule utf8_unquote)
qed

subsection \<open>Documents\<close>

lemma scalar_sound: "scalar s = Some (v, r) \<Longrightarrow> sound v"
proof -
  assume "scalar s = Some (v, r)"
  then have "v \<in> {JBool True, JBool False, JNull} \<or> (\<exists>t b. v = JStr (unquote b) \<and> scan_string t = Some (b, r)) \<or>
      (\<exists>b. v = JNum b)"
    unfolding scalar_def literal_def
    by (simp split: list.split_asm if_split_asm) blast+
  then show "sound v" using utf8_scanned by auto
qed

lemma parse_key_utf8: "parse_key s = Some (k, r) \<Longrightarrow> utf8 k"
  by (auto simp: parse_key_def split: list.splits option.splits if_splits dest: utf8_scanned)

lemma parse_sound:
  "parse_value n d s = Some (v, r) \<Longrightarrow> sound v"
  "parse_elems n d s = Some (xs, r) \<Longrightarrow> sound (JArr xs)"
  "parse_members n d s = Some (ms, r) \<Longrightarrow> sound (JObj ms)"
proof (induction n d s and n d s and n d s arbitrary: v r and xs r and ms r
    rule: parse_value_parse_elems_parse_members.induct)
  case (2 n d s)
  from "2.prems" obtain c u where s: "skip_ws s = c # u"
    by (auto simp: parse_value.simps split: list.splits)
  show ?case
  proof (cases "c = CHR ''{'' \<or> c = CHR ''[''")
    case True
    then obtain c' u' where u: "skip_ws u = c' # u'" "d \<noteq> 0"
      using "2.prems" s by (auto simp: parse_value.simps split: list.splits if_splits)
    show ?thesis
      using "2.prems" s u True "2.IH"(1) [OF s _ u(2,1)] "2.IH"(2) [OF s _ _ u(2,1)]
      by (auto simp: parse_value.simps split: if_splits)
  next
    case False
    with "2.prems" s scalar_sound show ?thesis by (simp add: parse_value.simps)
  qed
next
  case (4 n d s)
  then obtain v0 r0 c r' where v: "parse_value n d (skip_ws s) = Some (v0, r0)"
    and r': "skip_ws r0 = c # r'"
    by (auto simp: parse_elems.simps split: option.splits list.splits)
  show ?case
    using "4.prems" v r' "4.IH"(1) [OF v] "4.IH"(2) [OF v refl r']
    by (auto simp: parse_elems.simps split: if_splits)
next
  case (6 n d s)
  then obtain k s3 v0 r0 c r' where k: "parse_key s = Some (k, s3)"
    and v: "parse_value n d (skip_ws s3) = Some (v0, r0)" and r': "skip_ws r0 = c # r'"
    by (auto simp: parse_members.simps split: option.splits list.splits)
  show ?case
    using "6.prems" k v r' "6.IH"(1) [OF k refl v] "6.IH"(2) [OF k refl v refl r'] parse_key_utf8 [OF k]
    by (auto simp: parse_members.simps split: if_splits)
qed (simp_all add: parse_value.simps parse_elems.simps parse_members.simps)

lemma parse_whole_sound: "parse_whole s = Some (raw, v) \<Longrightarrow> sound v"
  by (auto simp: parse_whole_def split: option.splits if_splits dest: parse_sound(1))

lemma parse_first_sound: "parse_first s = Some (raw, v) \<Longrightarrow> sound v"
  by (auto simp: parse_first_def split: option.splits dest: parse_sound(1))

end
