(* ===== verification/ParseFiles.thy ===== *)
theory ParseFiles
  imports GoTime Validate ConfigFile Loading JsonPrefix JsonSound
begin

text \<open>
  \<open>attestation.Parse\<close>, \<open>ParseConfig\<close> and \<open>ReadConfig\<close>: the field names of the struct tags, the
  decoder each field type gets, and the two ways the program reads JSON. \<open>Parse\<close> reads a whole
  document and ignores keys it does not know; \<open>ParseConfig\<close> reads the first value of a stream and
  refuses them.
\<close>

subsection \<open>Zero values\<close>

definition zero_subject :: Subject where
  "zero_subject = \<lparr>sName = [], sDigest = m_empty\<rparr>"

definition zero_identity :: ServerIdentity where
  "zero_identity = \<lparr>siName = [], siVersion = [], siProtocol = []\<rparr>"

definition zero_time :: Time where
  "zero_time = \<lparr>tmSec = 0, tmNsec = 0, tmOffset = 0\<rparr>"

definition new_verdict :: Verdict where
  "new_verdict =
     \<lparr>vID = [], vPhase = [], vStatus = [], vSeverity = [], vEvidence = [], vDoc = []\<rparr>"

definition zero_score :: Score where
  "zero_score = \<lparr>scTotal = 0, scGrade = [], scAssessed = 0, scOf = 0, scBy = m_empty\<rparr>"

definition zero_plan :: Plan where
  "zero_plan =
     \<lparr>plSpec = [], plCredentials = [], plByValue = [], plOS = [], plArch = [], plKernel = []\<rparr>"

definition zero_evaluation :: Evaluation where
  "zero_evaluation =
     \<lparr>SubjectKind = [],
      EvTarget = \<lparr>tTransport = [], tEndpoint = [], tServer = None\<rparr>,
      JudgedAgainst = \<lparr>SpecRevision = [], Rubric = [], CheckInventory = []\<rparr>,
      EvInstrument = \<lparr>iName = [], iVersion = [], iSchemaVersion = 0\<rparr>,
      RanAt = zero_time, Took = [], Verdicts = [], EvCounts = zero_counts, EvScore = None,
      Blocked = [], TraceID = [], EvPlan = None\<rparr>"

definition zero_statement :: Statement where
  "zero_statement =
     \<lparr>stType = [], stSubject = [], stPredicateType = [], Predicate = zero_evaluation\<rparr>"

definition zero_policy :: Policy where
  "zero_policy = \<lparr>MinScore = 0, DenyFailIn = [], RequireAttestation = None\<rparr>"

definition zero_config :: Config where
  "zero_config = \<lparr>Targets = m_empty, cfPolicy = zero_policy, PassthroughMethods = []\<rparr>"

subsection \<open>The struct tags\<close>

definition dec_strings :: "string list decoder" where
  "dec_strings = dec_list [] dec_string"

definition dec_subject :: "Subject decoder" where
  "dec_subject = dec_struct False
     [fld ''name'' sName (\<lambda>y x. x\<lparr>sName := y\<rparr>) dec_string,
      fld ''digest'' sDigest (\<lambda>y x. x\<lparr>sDigest := y\<rparr>) (dec_map [] dec_string)]"

definition dec_identity :: "ServerIdentity decoder" where
  "dec_identity = dec_struct False
     [fld ''name'' siName (\<lambda>y x. x\<lparr>siName := y\<rparr>) dec_string,
      fld ''version'' siVersion (\<lambda>y x. x\<lparr>siVersion := y\<rparr>) dec_string,
      fld ''protocolVersion'' siProtocol (\<lambda>y x. x\<lparr>siProtocol := y\<rparr>) dec_string]"

definition dec_target :: "Target decoder" where
  "dec_target = dec_struct False
     [fld ''transport'' tTransport (\<lambda>y x. x\<lparr>tTransport := y\<rparr>) dec_string,
      fld ''endpoint'' tEndpoint (\<lambda>y x. x\<lparr>tEndpoint := y\<rparr>) dec_string,
      fld ''server'' tServer (\<lambda>y x. x\<lparr>tServer := y\<rparr>) (dec_opt zero_identity dec_identity)]"

definition dec_basis :: "Basis decoder" where
  "dec_basis = dec_struct False
     [fld ''specRevision'' SpecRevision (\<lambda>y x. x\<lparr>SpecRevision := y\<rparr>) dec_string,
      fld ''rubric'' Rubric (\<lambda>y x. x\<lparr>Rubric := y\<rparr>) dec_string,
      fld ''checkInventory'' CheckInventory (\<lambda>y x. x\<lparr>CheckInventory := y\<rparr>) dec_string]"

definition dec_instrument :: "Instrument decoder" where
  "dec_instrument = dec_struct False
     [fld ''name'' iName (\<lambda>y x. x\<lparr>iName := y\<rparr>) dec_string,
      fld ''version'' iVersion (\<lambda>y x. x\<lparr>iVersion := y\<rparr>) dec_string,
      fld ''reportSchemaVersion'' iSchemaVersion (\<lambda>y x. x\<lparr>iSchemaVersion := y\<rparr>) dec_int]"

definition dec_verdict :: "Verdict decoder" where
  "dec_verdict = dec_struct False
     [fld ''id'' vID (\<lambda>y x. x\<lparr>vID := y\<rparr>) dec_string,
      fld ''phase'' vPhase (\<lambda>y x. x\<lparr>vPhase := y\<rparr>) dec_string,
      fld ''status'' vStatus (\<lambda>y x. x\<lparr>vStatus := y\<rparr>) dec_string,
      fld ''severity'' vSeverity (\<lambda>y x. x\<lparr>vSeverity := y\<rparr>) dec_string,
      fld ''evidence'' vEvidence (\<lambda>y x. x\<lparr>vEvidence := y\<rparr>) dec_strings,
      fld ''doc'' vDoc (\<lambda>y x. x\<lparr>vDoc := y\<rparr>) dec_string]"

definition dec_counts :: "Counts decoder" where
  "dec_counts = dec_struct False
     [fld ''pass'' nPass (\<lambda>y x. x\<lparr>nPass := y\<rparr>) dec_int,
      fld ''warn'' nWarn (\<lambda>y x. x\<lparr>nWarn := y\<rparr>) dec_int,
      fld ''fail'' nFail (\<lambda>y x. x\<lparr>nFail := y\<rparr>) dec_int,
      fld ''skip'' nSkip (\<lambda>y x. x\<lparr>nSkip := y\<rparr>) dec_int,
      fld ''info'' nInfo (\<lambda>y x. x\<lparr>nInfo := y\<rparr>) dec_int]"

definition dec_score :: "Score decoder" where
  "dec_score = dec_struct False
     [fld ''total'' scTotal (\<lambda>y x. x\<lparr>scTotal := y\<rparr>) dec_float,
      fld ''grade'' scGrade (\<lambda>y x. x\<lparr>scGrade := y\<rparr>) dec_string,
      fld ''categoriesAssessed'' scAssessed (\<lambda>y x. x\<lparr>scAssessed := y\<rparr>) dec_int,
      fld ''categoriesTotal'' scOf (\<lambda>y x. x\<lparr>scOf := y\<rparr>) dec_int,
      fld ''byCategory'' scBy (\<lambda>y x. x\<lparr>scBy := y\<rparr>) (dec_map 0 dec_float)]"

definition dec_plan :: "Plan decoder" where
  "dec_plan = dec_struct False
     [fld ''spec'' plSpec (\<lambda>y x. x\<lparr>plSpec := y\<rparr>) dec_raw,
      fld ''credentials'' plCredentials (\<lambda>y x. x\<lparr>plCredentials := y\<rparr>) dec_string,
      fld ''credentialsByValue'' plByValue (\<lambda>y x. x\<lparr>plByValue := y\<rparr>) dec_strings,
      fld ''os'' plOS (\<lambda>y x. x\<lparr>plOS := y\<rparr>) dec_string,
      fld ''arch'' plArch (\<lambda>y x. x\<lparr>plArch := y\<rparr>) dec_string,
      fld ''kernel'' plKernel (\<lambda>y x. x\<lparr>plKernel := y\<rparr>) dec_string]"

definition dec_evaluation :: "Evaluation decoder" where
  "dec_evaluation = dec_struct False
     [fld ''subjectKind'' SubjectKind (\<lambda>y x. x\<lparr>SubjectKind := y\<rparr>) dec_string,
      fld ''target'' EvTarget (\<lambda>y x. x\<lparr>EvTarget := y\<rparr>) dec_target,
      fld ''judgedAgainst'' JudgedAgainst (\<lambda>y x. x\<lparr>JudgedAgainst := y\<rparr>) dec_basis,
      fld ''instrument'' EvInstrument (\<lambda>y x. x\<lparr>EvInstrument := y\<rparr>) dec_instrument,
      fld ''ranAt'' RanAt (\<lambda>y x. x\<lparr>RanAt := y\<rparr>) dec_time,
      fld ''took'' Took (\<lambda>y x. x\<lparr>Took := y\<rparr>) dec_string,
      fld ''verdicts'' Verdicts (\<lambda>y x. x\<lparr>Verdicts := y\<rparr>) (dec_list new_verdict dec_verdict),
      fld ''counts'' EvCounts (\<lambda>y x. x\<lparr>EvCounts := y\<rparr>) dec_counts,
      fld ''score'' EvScore (\<lambda>y x. x\<lparr>EvScore := y\<rparr>) (dec_opt zero_score dec_score),
      fld ''blocked'' Blocked (\<lambda>y x. x\<lparr>Blocked := y\<rparr>) dec_string,
      fld ''traceId'' TraceID (\<lambda>y x. x\<lparr>TraceID := y\<rparr>) dec_string,
      fld ''plan'' EvPlan (\<lambda>y x. x\<lparr>EvPlan := y\<rparr>) (dec_opt zero_plan dec_plan)]"

definition dec_statement :: "Statement decoder" where
  "dec_statement = dec_struct False
     [fld ''_type'' stType (\<lambda>y x. x\<lparr>stType := y\<rparr>) dec_string,
      fld ''subject'' stSubject (\<lambda>y x. x\<lparr>stSubject := y\<rparr>) (dec_list zero_subject dec_subject),
      fld ''predicateType'' stPredicateType (\<lambda>y x. x\<lparr>stPredicateType := y\<rparr>) dec_string,
      fld ''predicate'' Predicate (\<lambda>y x. x\<lparr>Predicate := y\<rparr>) dec_evaluation]"

definition dec_ctarget :: "CTarget decoder" where
  "dec_ctarget = dec_struct True
     [fld ''attestation'' ctAttestation (\<lambda>y x. x\<lparr>ctAttestation := y\<rparr>) dec_string,
      fld ''endpoint'' ctEndpoint (\<lambda>y x. x\<lparr>ctEndpoint := y\<rparr>) dec_string,
      fld ''transport'' ctTransport (\<lambda>y x. x\<lparr>ctTransport := y\<rparr>) dec_string]"

definition dec_policy :: "Policy decoder" where
  "dec_policy = dec_struct True
     [fld ''minScore'' MinScore (\<lambda>y x. x\<lparr>MinScore := y\<rparr>) dec_float,
      fld ''denyFailIn'' DenyFailIn (\<lambda>y x. x\<lparr>DenyFailIn := y\<rparr>) dec_strings,
      fld ''requireAttestation'' RequireAttestation (\<lambda>y x. x\<lparr>RequireAttestation := y\<rparr>)
        (dec_opt False dec_bool)]"

definition dec_config :: "Config decoder" where
  "dec_config = dec_struct True
     [fld ''targets'' Targets (\<lambda>y x. x\<lparr>Targets := y\<rparr>) (dec_map zero_target dec_ctarget),
      fld ''policy'' cfPolicy (\<lambda>y x. x\<lparr>cfPolicy := y\<rparr>) dec_policy,
      fld ''passthroughMethods'' PassthroughMethods (\<lambda>y x. x\<lparr>PassthroughMethods := y\<rparr>)
        dec_strings]"

subsection \<open>\<open>Parse\<close> and \<open>ParseConfig\<close>\<close>

datatype parse_error = NotAStatement | Invalid "problem list"

definition unmarshal_statement :: "bytes \<Rightarrow> Statement option" where
  "unmarshal_statement b =
     (case parse_whole b of
        None \<Rightarrow> None
      | Some (raw, v) \<Rightarrow> dec_statement raw v zero_statement)"

definition Parse :: "bytes \<Rightarrow> parse_error + Statement" where
  "Parse b =
     (case unmarshal_statement b of
        None \<Rightarrow> Inl NotAStatement
      | Some s \<Rightarrow>
          (case Validate s of
             Some ps \<Rightarrow> Inl (Invalid ps)
           | None \<Rightarrow> Inr s))"

datatype read_error =
    ConfigUnreadable string
  | ConfigNotJSON
  | ConfigInvalid "config_error list"

definition decode_config :: "bytes \<Rightarrow> Config option" where
  "decode_config b =
     (case parse_first b of
        None \<Rightarrow> None
      | Some (raw, v) \<Rightarrow> dec_config raw v zero_config)"

definition ParseConfig :: "bytes \<Rightarrow> read_error + Config" where
  "ParseConfig b =
     (case decode_config b of
        None \<Rightarrow> Inl ConfigNotJSON
      | Some c \<Rightarrow>
          (case Config_Validate c of
             Some errs \<Rightarrow> Inl (ConfigInvalid errs)
           | None \<Rightarrow> Inr c))"

text \<open>\<open>os.ReadFile\<close> has no size cap: it reads the stream to its end.\<close>

definition ReadConfig :: "World \<Rightarrow> string \<Rightarrow> read_error + Config" where
  "ReadConfig w path =
     (case openFile w path of
        Inl e \<Rightarrow> Inl (ConfigUnreadable e)
      | Inr f \<Rightarrow>
          (case stError f of
             Some e \<Rightarrow> Inl (ConfigUnreadable e)
           | None \<Rightarrow> ParseConfig (stBytes f)))"

text \<open>The text of a JSON error is the library's; \<open>jt\<close> gives it for the bytes at hand.\<close>

fun parse_error_text :: "(nat \<Rightarrow> bool) \<Rightarrow> string \<Rightarrow> parse_error \<Rightarrow> string" where
  "parse_error_text u jt NotAStatement = ''attestation: not a statement: '' @ jt"
| "parse_error_text u jt (Invalid ps) = problems_text u ps"

fun read_error_text :: "(nat \<Rightarrow> bool) \<Rightarrow> string \<Rightarrow> read_error \<Rightarrow> string" where
  "read_error_text u jt (ConfigUnreadable e) = ''config: '' @ e"
| "read_error_text u jt ConfigNotJSON = ''config: '' @ jt"
| "read_error_text u jt (ConfigInvalid errs) = config_errors_text u errs"

subsection \<open>What decoding guarantees\<close>

text \<open>
  The well-formedness of a decoded statement: maps have distinct keys and every number is
  finite. NaN and the infinities cannot come out of a document.
\<close>

definition wf_subject :: "Subject \<Rightarrow> bool" where
  "wf_subject s \<longleftrightarrow> map_all (\<lambda>x. True) (sDigest s)"

definition wf_score :: "Score \<Rightarrow> bool" where
  "wf_score s \<longleftrightarrow> is_finite (scTotal s) \<and> map_all is_finite (scBy s)"

definition wf_evaluation :: "Evaluation \<Rightarrow> bool" where
  "wf_evaluation e \<longleftrightarrow> pred_option wf_score (EvScore e)"

definition wf_statement :: "Statement \<Rightarrow> bool" where
  "wf_statement s \<longleftrightarrow> list_all wf_subject (stSubject s) \<and> wf_evaluation (Predicate s)"

definition wf_policy :: "Policy \<Rightarrow> bool" where
  "wf_policy p \<longleftrightarrow> is_finite (MinScore p)"

definition wf_config :: "Config \<Rightarrow> bool" where
  "wf_config c \<longleftrightarrow> map_all (\<lambda>x. True) (Targets c) \<and> wf_policy (cfPolicy c)"

lemma is_finite_0 [simp]: "is_finite 0"
  by (simp add: is_finite_def zero_float64_def)

lemmas keep_intros = keeps_fld_other
  keeps_fld [OF keeps_float] keeps_fld [OF keeps_map [OF keeps_float is_finite_0]]
  keeps_fld [OF keeps_map [OF keeps_True TrueI]]

lemma keeps_subject [keep_rules]: "keeps wf_subject dec_subject"
  unfolding dec_subject_def
  by (intro keeps_struct) (auto intro: keep_intros simp: wf_subject_def)

lemma keeps_score [keep_rules]: "keeps wf_score dec_score"
  unfolding dec_score_def
  by (intro keeps_struct) (auto intro: keep_intros simp: wf_score_def)

lemma wf_zero_score [simp]: "wf_score zero_score"
  by (simp add: wf_score_def zero_score_def)

lemma wf_zero_subject [simp]: "wf_subject zero_subject"
  by (simp add: wf_subject_def zero_subject_def)

lemma keeps_evaluation [keep_rules]: "keeps wf_evaluation dec_evaluation"
  unfolding dec_evaluation_def
  by (intro keeps_struct)
    (auto intro: keep_intros keeps_fld [OF keeps_opt [OF keeps_score wf_zero_score]]
      simp: wf_evaluation_def)

lemma keeps_statement [keep_rules]: "keeps wf_statement dec_statement"
  unfolding dec_statement_def
  by (intro keeps_struct)
    (auto intro: keep_intros keeps_fld [OF keeps_evaluation]
      keeps_fld [OF keeps_list [OF keeps_subject wf_zero_subject]] simp: wf_statement_def)

lemma keeps_policy [keep_rules]: "keeps wf_policy dec_policy"
  unfolding dec_policy_def
  by (intro keeps_struct) (auto intro: keep_intros simp: wf_policy_def)

lemma keeps_config [keep_rules]: "keeps wf_config dec_config"
  unfolding dec_config_def
  by (intro keeps_struct)
    (auto intro: keep_intros keeps_fld [OF keeps_policy] simp: wf_config_def)

lemma unmarshal_wf: "unmarshal_statement b = Some s \<Longrightarrow> wf_statement s"
  by (auto simp: unmarshal_statement_def zero_statement_def wf_statement_def zero_evaluation_def
      wf_evaluation_def split: option.splits dest: parse_whole_sound dest!: keepsD [OF keeps_statement])

lemma decode_config_wf: "decode_config b = Some c \<Longrightarrow> wf_config c"
  by (auto simp: decode_config_def zero_config_def wf_config_def zero_policy_def wf_policy_def
      split: option.splits dest: parse_first_sound dest!: keepsD [OF keeps_config])

lemma Parse_Inr: "Parse b = Inr s \<longleftrightarrow> unmarshal_statement b = Some s \<and> Validate s = None"
  by (auto simp: Parse_def split: option.splits)

lemma Parse_valid: "Parse b = Inr s \<Longrightarrow> Validate s = None"
  by (simp add: Parse_Inr)

lemma ParseConfig_Inr:
  "ParseConfig b = Inr c \<longleftrightarrow> decode_config b = Some c \<and> Config_Validate c = None"
  by (auto simp: ParseConfig_def split: option.splits)

end
