(* ===== verification/Samples.thy ===== *)
theory Samples
  imports ParseFiles Fixture
begin

text \<open>
  Two files of the repository, byte for byte, and what the program reads in them:
  \<open>attestation/testdata/statement.json\<close> is the statement \<open>fixture\<close>, and the processor's
  \<open>example/config.json\<close> is the configuration \<open>example_config\<close>. The kernel runs the parser and
  the decoders on the bytes, part by part: a nested value is parsed on its own, and
  \<open>parse_part\<close> carries the result into the value around it.
\<close>

definition qt :: bytes where "qt = [CHR 0x22]"

definition nl :: bytes where "nl = [CHR 0x0A]"

definition verdict1_json :: bytes where
  "verdict1_json =
     ''{'' @ nl @ ''        '' @ qt @ ''id'' @ qt @ '': '' @ qt @
     ''auth.unauthenticated_tools'' @ qt @ '','' @ nl @ ''        '' @ qt @ ''phase'' @ qt @
     '': '' @ qt @ ''auth'' @ qt @ '','' @ nl @ ''        '' @ qt @ ''status'' @ qt @
     '': '' @ qt @ ''pass'' @ qt @ nl @ ''      }''"

definition verdict2_json :: bytes where
  "verdict2_json =
     ''{'' @ nl @ ''        '' @ qt @ ''id'' @ qt @ '': '' @ qt @ ''protocol.origin'' @ qt @
     '','' @ nl @ ''        '' @ qt @ ''phase'' @ qt @ '': '' @ qt @ ''protocol'' @ qt @
     '','' @ nl @ ''        '' @ qt @ ''status'' @ qt @ '': '' @ qt @ ''fail'' @ qt @ '','' @
     nl @ ''        '' @ qt @ ''severity'' @ qt @ '': '' @ qt @ ''major'' @ qt @ '','' @ nl @
     ''        '' @ qt @ ''evidence'' @ qt @ '': ['' @ nl @ ''          '' @ qt @
     ''req#12'' @ qt @ nl @ ''        ]'' @ nl @ ''      }''"

definition subject_json :: bytes where
  "subject_json =
     ''['' @ nl @ ''    {'' @ nl @ ''      '' @ qt @ ''name'' @ qt @ '': '' @ qt @
     ''https://mcp.example.com/mcp'' @ qt @ '','' @ nl @ ''      '' @ qt @ ''digest'' @ qt @
     '': {'' @ nl @ ''        '' @ qt @ ''sha256'' @ qt @ '': '' @ qt @
     ''a386a033799c95c21f3d01b2f0efcf71b95b1ef2a420908ce34e3c1eb41a2325'' @ qt @ nl @
     ''      }'' @ nl @ ''    }'' @ nl @ ''  ]''"

definition target_json :: bytes where
  "target_json =
     ''{'' @ nl @ ''      '' @ qt @ ''transport'' @ qt @ '': '' @ qt @ ''http'' @ qt @
     '','' @ nl @ ''      '' @ qt @ ''endpoint'' @ qt @ '': '' @ qt @
     ''https://mcp.example.com/mcp'' @ qt @ nl @ ''    }''"

definition basis_json :: bytes where
  "basis_json =
     ''{'' @ nl @ ''      '' @ qt @ ''specRevision'' @ qt @ '': '' @ qt @ ''2026-07-28'' @
     qt @ '','' @ nl @ ''      '' @ qt @ ''rubric'' @ qt @ '': '' @ qt @ ''1'' @ qt @ '','' @
     nl @ ''      '' @ qt @ ''checkInventory'' @ qt @ '': '' @ qt @ ''1'' @ qt @ nl @
     ''    }''"

definition instrument_json :: bytes where
  "instrument_json =
     ''{'' @ nl @ ''      '' @ qt @ ''name'' @ qt @ '': '' @ qt @ ''scout'' @ qt @ '','' @
     nl @ ''      '' @ qt @ ''version'' @ qt @ '': '' @ qt @ ''0.0.3'' @ qt @ '','' @ nl @
     ''      '' @ qt @ ''reportSchemaVersion'' @ qt @ '': 1'' @ nl @ ''    }''"

definition verdicts_json :: bytes where
  "verdicts_json =
     ''['' @ nl @ ''      '' @ verdict1_json @ '','' @ nl @ ''      '' @ verdict2_json @ nl @
     ''    ]''"

definition counts_json :: bytes where
  "counts_json =
     ''{'' @ nl @ ''      '' @ qt @ ''pass'' @ qt @ '': 1,'' @ nl @ ''      '' @ qt @
     ''warn'' @ qt @ '': 0,'' @ nl @ ''      '' @ qt @ ''fail'' @ qt @ '': 1,'' @ nl @
     ''      '' @ qt @ ''skip'' @ qt @ '': 0,'' @ nl @ ''      '' @ qt @ ''info'' @ qt @
     '': 0'' @ nl @ ''    }''"

definition score_json :: bytes where
  "score_json =
     ''{'' @ nl @ ''      '' @ qt @ ''total'' @ qt @ '': 88,'' @ nl @ ''      '' @ qt @
     ''grade'' @ qt @ '': '' @ qt @ ''B'' @ qt @ '','' @ nl @ ''      '' @ qt @
     ''categoriesAssessed'' @ qt @ '': 6,'' @ nl @ ''      '' @ qt @ ''categoriesTotal'' @
     qt @ '': 6'' @ nl @ ''    }''"

definition predicate_json :: bytes where
  "predicate_json =
     ''{'' @ nl @ ''    '' @ qt @ ''subjectKind'' @ qt @ '': '' @ qt @
     ''mcp-target-descriptor'' @ qt @ '','' @ nl @ ''    '' @ qt @ ''target'' @ qt @ '': '' @
     target_json @ '','' @ nl @ ''    '' @ qt @ ''judgedAgainst'' @ qt @ '': '' @
     basis_json @ '','' @ nl @ ''    '' @ qt @ ''instrument'' @ qt @ '': '' @
     instrument_json @ '','' @ nl @ ''    '' @ qt @ ''ranAt'' @ qt @ '': '' @ qt @
     ''2026-09-22T12:00:00Z'' @ qt @ '','' @ nl @ ''    '' @ qt @ ''took'' @ qt @ '': '' @
     qt @ ''3.2s'' @ qt @ '','' @ nl @ ''    '' @ qt @ ''verdicts'' @ qt @ '': '' @
     verdicts_json @ '','' @ nl @ ''    '' @ qt @ ''counts'' @ qt @ '': '' @ counts_json @
     '','' @ nl @ ''    '' @ qt @ ''score'' @ qt @ '': '' @ score_json @ nl @ ''  }''"

definition fixture_json :: bytes where
  "fixture_json =
     ''{'' @ nl @ ''  '' @ qt @ ''_type'' @ qt @ '': '' @ qt @
     ''https://in-toto.io/Statement/v1'' @ qt @ '','' @ nl @ ''  '' @ qt @ ''subject'' @ qt @
     '': '' @ subject_json @ '','' @ nl @ ''  '' @ qt @ ''predicateType'' @ qt @ '': '' @
     qt @ ''https://scoutmcp.io/attestation/mcp-evaluation/v1'' @ qt @ '','' @ nl @ ''  '' @
     qt @ ''predicate'' @ qt @ '': '' @ predicate_json @ nl @ ''}'' @ nl"

definition github_json :: bytes where
  "github_json =
     ''{'' @ nl @ ''      '' @ qt @ ''attestation'' @ qt @ '': '' @ qt @
     ''https://attestations.example.com/github-mcp.intoto.json'' @ qt @ '','' @ nl @
     ''      '' @ qt @ ''endpoint'' @ qt @ '': '' @ qt @
     ''https://api.githubcopilot.com/mcp/'' @ qt @ '','' @ nl @ ''      '' @ qt @
     ''transport'' @ qt @ '': '' @ qt @ ''http'' @ qt @ nl @ ''    }''"

definition everything_json :: bytes where
  "everything_json =
     ''{'' @ nl @ ''      '' @ qt @ ''attestation'' @ qt @ '': '' @ qt @
     ''./everything.statement.json'' @ qt @ '','' @ nl @ ''      '' @ qt @ ''endpoint'' @
     qt @ '': '' @ qt @ ''http://localhost:3001/mcp'' @ qt @ '','' @ nl @ ''      '' @ qt @
     ''transport'' @ qt @ '': '' @ qt @ ''http'' @ qt @ nl @ ''    }''"

definition policy_json :: bytes where
  "policy_json =
     ''{'' @ nl @ ''    '' @ qt @ ''minScore'' @ qt @ '': 70,'' @ nl @ ''    '' @ qt @
     ''denyFailIn'' @ qt @ '': ['' @ qt @ ''auth'' @ qt @ '', '' @ qt @ ''protocol'' @ qt @
     ''],'' @ nl @ ''    '' @ qt @ ''requireAttestation'' @ qt @ '': true'' @ nl @ ''  }''"

definition example_json :: bytes where
  "example_json =
     ''{'' @ nl @ ''  '' @ qt @ ''targets'' @ qt @ '': {'' @ nl @ ''    '' @ qt @
     ''github'' @ qt @ '': '' @ github_json @ '','' @ nl @ ''    '' @ qt @ ''everything'' @
     qt @ '': '' @ everything_json @ nl @ ''  },'' @ nl @ ''  '' @ qt @ ''policy'' @ qt @
     '': '' @ policy_json @ '','' @ nl @ ''  '' @ qt @ ''passthroughMethods'' @ qt @
     '': ['' @ qt @ ''initialize'' @ qt @ '', '' @ qt @ ''ping'' @ qt @ '']'' @ nl @ ''}'' @
     nl"

definition example_config :: Config where
  "example_config =
     \<lparr>Targets =
        [(''github'',
          \<lparr>ctAttestation = ''https://attestations.example.com/github-mcp.intoto.json'',
           ctEndpoint = ''https://api.githubcopilot.com/mcp/'', ctTransport = ''http''\<rparr>),
         (''everything'',
          \<lparr>ctAttestation = ''./everything.statement.json'',
           ctEndpoint = ''http://localhost:3001/mcp'', ctTransport = ''http''\<rparr>)],
      cfPolicy =
        \<lparr>MinScore = Fin 70, DenyFailIn = [''auth'', ''protocol''],
         RequireAttestation = Some True\<rparr>,
      PassthroughMethods = [''initialize'', ''ping'']\<rparr>"

lemmas parse_numeral =
  parse_value.simps(2) [of "pred_numeral k" _ "c # s" for k c s, folded numeral_eq_Suc]
  parse_elems.simps(2) [of "pred_numeral k" for k, folded numeral_eq_Suc]
  parse_members.simps(2) [of "pred_numeral k" for k, folded numeral_eq_Suc]

lemmas scan_eval =
  parse_fuel_def skip_ws_def is_ws_def parse_numeral parse_key_def scalar_def literal_def
  unquote.simps is_escape_def is_hex_def byte_of_def scan_number_def scan_sign_def scan_int_def
  scan_frac_def scan_exp_def scan_digits_def is_digit_def qt_def nl_def

text \<open>
  A part of a document: an object or array of nesting depth at most \<open>k\<close>, parsed wherever it
  stands.
\<close>

definition part :: "nat \<Rightarrow> bytes \<Rightarrow> json \<Rightarrow> bool" where
  "part k s v \<longleftrightarrow>
     is_ws (hd s) = False \<and> is_number v = False \<and> parse_value (parse_fuel s) k s = Some (v, [])"

text \<open>A part and what a decoder makes of it.\<close>

definition reads :: "nat \<Rightarrow> 'a decoder \<Rightarrow> 'a \<Rightarrow> bytes \<Rightarrow> 'a \<Rightarrow> bool" where
  "reads k d z s x \<longleftrightarrow> (\<exists>v. part k s v \<and> v \<noteq> JNull \<and> (\<forall>raw. d raw v z = Some x))"

lemma part_Cons: "part k s v \<Longrightarrow> \<exists>c u. s = c # u \<and> \<not> is_ws c"
  by (cases s) (auto simp: part_def parse_fuel_def parse_value.simps skip_ws_def)

lemma part_ws: "part k s v \<Longrightarrow> dropWhile is_ws (s @ t) = s @ t"
  using part_Cons [of k s v] by auto

lemma part_case:
  "part k s v \<Longrightarrow> (case s @ t of [] \<Rightarrow> x | c # r \<Rightarrow> f c r) = f (hd s) (tl s @ t)"
  using part_Cons [of k s v] by auto

lemma part_parse:
  assumes "part k s v" "2 * length s + 2 \<le> n" "k \<le> d"
  shows "parse_value n d (s @ t) = Some (v, t)"
proof -
  from assms(1) have p: "parse_value (parse_fuel s) k s = Some (v, [])"
    by (simp add: part_def)
  have "parse_value n k s = Some (v, [])"
    using p assms(2) parse_value_fuel [of s n k] by simp
  then have "parse_value n d s = Some (v, [])"
    using assms(3) by (rule parse_deeper(1))
  then show ?thesis using parse_append(1) [of n d s v "[]" t] assms(1) by (simp add: part_def)
qed

lemmas part_rules = part_ws part_case part_parse

lemma consumed_part [simp]: "consumed (s @ t) t = s"
  by (simp add: consumed_def)

lemma consumed_time [simp]:
  "consumed (CHR 0x22 # CHR ''2'' # CHR ''0'' # CHR ''2'' # CHR ''6'' # CHR ''-'' # CHR ''0'' # CHR ''9'' #
     CHR ''-'' # CHR ''2'' # CHR ''2'' # CHR ''T'' # CHR ''1'' # CHR ''2'' # CHR '':'' # CHR ''0'' #
     CHR ''0'' # CHR '':'' # CHR ''0'' # CHR ''0'' # CHR ''Z'' # CHR 0x22 # r) r =
   CHR 0x22 # ''2026-09-22T12:00:00Z'' @ [CHR 0x22]"
  by (simp add: consumed_def)

lemmas tag_eval =
  dec_statement_def dec_subject_def dec_evaluation_def dec_target_def dec_basis_def
  dec_instrument_def dec_verdict_def dec_counts_def dec_score_def dec_strings_def dec_opt_def
  dec_config_def dec_policy_def dec_ctarget_def fld_def find_field_def

lemmas value_eval =
  parse_int_def scan_sign_def is_digit_def dec_digits_def digit_val_def byte_of_def
  dec_time_def dec_raw_def

lemmas time_eval =
  parse_time_def get_year_def expect_def getnum_def get_fraction_def get_zone_def is_digit_def
  digit_val_def dec_digits_def byte_of_def days_to_def days_to_year_def days_in_def is_leap_def
  upt_rec

lemmas zero_eval =
  zero_statement_def zero_evaluation_def zero_subject_def zero_time_def zero_counts_def
  new_verdict_def zero_score_def zero_config_def zero_policy_def zero_target_def

lemma parse_float_integer [simp]:
  "parse_float ''88'' = Some (Fin 88)" "parse_float ''70'' = Some (Fin 70)"
proof -
  have "decimal_value ''88'' = 88" "decimal_value ''70'' = 70"
    by (simp_all add: decimal_value_def scan_sign_def scan_digits_def is_digit_def dec_digits_def
        digit_val_def byte_of_def pow_rat_def Let_def)
  moreover have "f64_of_rat 88 = Fin 88" "f64_of_rat 70 = Fin 70" by code_simp+
  ultimately show "parse_float ''88'' = Some (Fin 88)" "parse_float ''70'' = Some (Fin 70)"
    by (simp_all add: parse_float_def)
qed

lemma parse_time_fixture [simp]:
  "parse_time ''2026-09-22T12:00:00Z'' = Some \<lparr>tmSec = 63925675200, tmNsec = 0, tmOffset = 0\<rparr>"
  by (simp add: time_eval)

lemma gomap_eval [simp]:
  "m_put k v [] = [(k, v)]"
  "m_put k v ((k', v') # m) = (if k' = k then (k, v) # m else (k', v') # m_put k v m)"
  by (simp_all add: m_put_def)

lemma m_empty_eval: "m_empty = []"
  by (simp add: m_empty_def)

lemma reads_verdict1:
  "reads 3 dec_verdict new_verdict verdict1_json (fixture_verdicts ! 0)"
  unfolding reads_def part_def verdict1_json_def
  by (simp add: scan_eval) (simp add: tag_eval value_eval zero_eval m_empty_eval fixture_defs)

lemma reads_verdict2:
  "reads 3 dec_verdict new_verdict verdict2_json (fixture_verdicts ! 1)"
  unfolding reads_def part_def verdict2_json_def
  by (simp add: scan_eval) (simp add: tag_eval value_eval zero_eval m_empty_eval fixture_defs)

lemma reads_subject:
  "reads 3 (dec_list zero_subject dec_subject) [] subject_json (stSubject fixture)"
  unfolding reads_def part_def subject_json_def
  by (simp add: scan_eval) (simp add: tag_eval value_eval zero_eval m_empty_eval fixture_defs)

lemma reads_target:
  "reads 3 dec_target (EvTarget zero_evaluation) target_json fixture_target"
  unfolding reads_def part_def target_json_def
  by (simp add: scan_eval) (simp add: tag_eval value_eval zero_eval m_empty_eval fixture_defs)

lemma reads_basis:
  "reads 3 dec_basis (JudgedAgainst zero_evaluation) basis_json (JudgedAgainst fixture_evaluation)"
  unfolding reads_def part_def basis_json_def
  by (simp add: scan_eval) (simp add: tag_eval value_eval zero_eval m_empty_eval fixture_defs)

lemma reads_instrument:
  "reads 3 dec_instrument (EvInstrument zero_evaluation) instrument_json (EvInstrument fixture_evaluation)"
  unfolding reads_def part_def instrument_json_def
  by (simp add: scan_eval) (simp add: tag_eval value_eval zero_eval m_empty_eval fixture_defs)

lemma reads_counts:
  "reads 3 dec_counts zero_counts counts_json (EvCounts fixture_evaluation)"
  unfolding reads_def part_def counts_json_def
  by (simp add: scan_eval) (simp add: tag_eval value_eval zero_eval m_empty_eval fixture_defs)

lemma reads_score:
  "reads 3 dec_score zero_score score_json (the (EvScore fixture_evaluation))"
  unfolding reads_def part_def score_json_def
  by (simp add: scan_eval) (simp add: tag_eval value_eval zero_eval m_empty_eval fixture_defs)

lemma reads_github:
  "reads 3 dec_ctarget zero_target github_json (snd (Targets example_config ! 0))"
  unfolding reads_def part_def github_json_def
  by (simp add: scan_eval) (simp add: tag_eval value_eval zero_eval m_empty_eval example_config_def)

lemma reads_everything:
  "reads 3 dec_ctarget zero_target everything_json (snd (Targets example_config ! 1))"
  unfolding reads_def part_def everything_json_def
  by (simp add: scan_eval) (simp add: tag_eval value_eval zero_eval m_empty_eval example_config_def)

lemma reads_policy:
  "reads 3 dec_policy zero_policy policy_json (cfPolicy example_config)"
  unfolding reads_def part_def policy_json_def
  by (simp add: scan_eval) (simp add: tag_eval value_eval zero_eval m_empty_eval example_config_def)

text \<open>The enclosing values, from the parts they hold.\<close>

lemma length_parts [simp]:
  "length verdict1_json = 103" "length verdict2_json = 177" "length subject_json = 173"
  "length target_json = 82" "length basis_json = 92" "length instrument_json = 87"
  "length counts_json = 91" "length score_json = 104" "length github_json = 169"
  "length everything_json = 132" "length policy_json = 96"
  by (simp_all add: verdict1_json_def verdict2_json_def subject_json_def
      target_json_def basis_json_def instrument_json_def counts_json_def score_json_def
      github_json_def everything_json_def policy_json_def qt_def nl_def)

lemma hd_verdict1 [simp]: "hd verdict1_json = CHR ''{''"
  by (simp add: verdict1_json_def)

lemma reads_verdicts:
  "reads 4 (dec_list new_verdict dec_verdict) [] verdicts_json fixture_verdicts"
proof -
  obtain v1 v2 where v: "part 3 verdict1_json v1" "part 3 verdict2_json v2"
    and d: "\<And>raw. dec_verdict raw v1 new_verdict = Some (fixture_verdicts ! 0)"
      "\<And>raw. dec_verdict raw v2 new_verdict = Some (fixture_verdicts ! 1)"
    using reads_verdict1 reads_verdict2 unfolding reads_def by blast
  have "[fixture_verdicts ! 0, fixture_verdicts ! 1] = fixture_verdicts"
    by (simp add: fixture_verdicts_def)
  with d show ?thesis
    unfolding reads_def part_def
    by (simp add: verdicts_json_def scan_eval part_rules [OF v(1)] part_rules [OF v(2)])
qed

lemma length_verdicts [simp]: "length verdicts_json = 302"
  by (simp add: verdicts_json_def qt_def nl_def)

lemma reads_predicate: "reads 5 dec_evaluation zero_evaluation predicate_json fixture_evaluation"
proof -
  obtain t b i vs c sc where parts: "part 3 target_json t" "part 3 basis_json b"
      "part 3 instrument_json i" "part 4 verdicts_json vs" "part 3 counts_json c"
      "part 3 score_json sc"
    and score: "sc \<noteq> JNull"
    and d: "\<And>raw. dec_target raw t (EvTarget zero_evaluation) = Some fixture_target"
      "\<And>raw. dec_basis raw b (JudgedAgainst zero_evaluation) =
        Some (JudgedAgainst fixture_evaluation)"
      "\<And>raw. dec_instrument raw i (EvInstrument zero_evaluation) =
        Some (EvInstrument fixture_evaluation)"
      "\<And>raw. dec_list new_verdict dec_verdict raw vs [] = Some fixture_verdicts"
      "\<And>raw. dec_counts raw c zero_counts = Some (EvCounts fixture_evaluation)"
      "\<And>raw. dec_score raw sc zero_score = Some (the (EvScore fixture_evaluation))"
    using reads_target reads_basis reads_instrument reads_verdicts reads_counts reads_score
    unfolding reads_def by blast
  note rules = parts [THEN part_ws] parts [THEN part_parse]
  show ?thesis
    unfolding reads_def part_def
    by (simp add: predicate_json_def scan_eval rules)
      (use score d in \<open>simp add: dec_evaluation_def fld_def find_field_def dec_opt_def dec_time_def
        zero_evaluation_def fixture_evaluation_def\<close>)
qed

lemma length_predicate [simp]: "length predicate_json = 971"
  by (simp add: predicate_json_def qt_def nl_def)

lemma unmarshal_fixture: "unmarshal_statement fixture_json = Some fixture"
proof -
  obtain sub ev where parts: "part 3 subject_json sub" "part 5 predicate_json ev"
    and d: "\<And>raw. dec_list zero_subject dec_subject raw sub [] = Some (stSubject fixture)"
      "\<And>raw. dec_evaluation raw ev zero_evaluation = Some fixture_evaluation"
    using reads_subject reads_predicate unfolding reads_def by blast
  note rules = parts [THEN part_ws] parts [THEN part_parse]
  show ?thesis
    unfolding unmarshal_statement_def parse_whole_def
    by (simp add: fixture_json_def scan_eval rules max_depth_def)
      (use d in \<open>simp add: dec_statement_def fld_def find_field_def zero_statement_def fixture_def\<close>)
qed

lemma decode_example: "decode_config example_json = Some example_config"
proof -
  obtain g e p where parts: "part 3 github_json g" "part 3 everything_json e" "part 3 policy_json p"
    and d: "\<And>raw. dec_ctarget raw g zero_target = Some (snd (Targets example_config ! 0))"
      "\<And>raw. dec_ctarget raw e zero_target = Some (snd (Targets example_config ! 1))"
      "\<And>raw. dec_policy raw p zero_policy = Some (cfPolicy example_config)"
    using reads_github reads_everything reads_policy unfolding reads_def by blast
  note rules = parts [THEN part_ws] parts [THEN part_parse]
  show ?thesis
    unfolding decode_config_def parse_first_def
    by (simp add: example_json_def scan_eval rules max_depth_def)
      (use d in \<open>simp add: dec_config_def fld_def find_field_def zero_config_def dec_strings_def
        m_empty_eval example_config_def\<close>)
qed

end
