(* ===== verification/ParseProps.thy ===== *)
theory ParseProps
  imports Samples ValidateProps AdmissionProps
begin

text \<open>
  What \<open>Parse\<close> and \<open>ParseConfig\<close> let through, and what they make of bytes after the document.
\<close>

lemma Validate_example: "Config_Validate example_config = None"
proof -
  have "trim_space ''github'' = ''github''" "trim_space ''everything'' = ''everything''"
    "trim_space ''auth'' = ''auth''" "trim_space ''protocol'' = ''protocol''"
    by (rule trim_space_fixed;
        simp add: leading_space_def trailing_space_def space_runes_def has_suffix_def)+
  then show ?thesis
    by (subst Config_Validate_usable)
      (simp_all add: example_config_def wf_map_def usable_def usable_target_def usable_policy_def
        file_or_https_def https_prefix_def scheme_sep_def transport_def)
qed

lemma Parse_fixture: "Parse fixture_json = Inr fixture"
  by (simp add: Parse_Inr unmarshal_fixture Validate_fixture)

lemma ParseConfig_example: "ParseConfig example_json = Inr example_config"
  by (simp add: ParseConfig_Inr decode_example Validate_example)

text \<open>
  On the repository's own files, byte for byte: the sample statement parses to the value it
  writes down and is accepted, and so does the example configuration.
\<close>

theorem sample_files_accepted:
  "Parse fixture_json = Inr fixture \<and> ParseConfig example_json = Inr example_config"
  by (simp add: Parse_fixture ParseConfig_example)

text \<open>
  C21. Whatever bytes \<open>Parse\<close> is given, a statement it returns is interpretable, its numbers are
  finite and its maps have one value per key: no document reaches the score comparison with a
  NaN.
\<close>

theorem Parse_accepts:
  "case Parse b of
     Inl e \<Rightarrow> True
   | Inr s \<Rightarrow> interpretable s \<and> wf_statement s"
proof (cases "Parse b")
  case (Inr s)
  then have "unmarshal_statement b = Some s" "Validate s = None" by (simp_all add: Parse_Inr)
  with Inr show ?thesis by (simp add: interpretable_of_Validate unmarshal_wf)
qed simp

lemma ParseConfig_usable: "ParseConfig b = Inr c \<Longrightarrow> usable c \<and> wf_config c"
proof -
  assume "ParseConfig b = Inr c"
  then have c: "decode_config b = Some c" "Config_Validate c = None"
    by (simp_all add: ParseConfig_Inr)
  then have "wf_config c" by (simp add: decode_config_wf)
  moreover from this have "wf_map (Targets c)" by (simp add: wf_config_def map_all_def)
  ultimately show ?thesis using c(2) by (simp add: Config_Validate_usable)
qed

text \<open>
  C22. Whatever bytes \<open>ParseConfig\<close> is given, a configuration it returns is usable, and its
  minimum score is a number.
\<close>

theorem ParseConfig_accepts:
  "case ParseConfig b of
     Inl e \<Rightarrow> True
   | Inr c \<Rightarrow> usable c \<and> wf_config c"
  by (simp add: ParseConfig_usable split: sum.split)

subsection \<open>After the document\<close>

lemma dec_struct_number: "dec_struct strict fs raw v z = Some x \<Longrightarrow> \<not> is_number v"
  by (cases v) auto

text \<open>
  C23. A document \<open>Parse\<close> accepts is whole: white space after it is ignored, and anything else
  makes it no statement at all.
\<close>

theorem Parse_whole_document:
  assumes "Parse b = Inr s"
  shows "Parse (b @ t) = (if skip_ws t = [] then Inr s else Inl NotAStatement)"
proof -
  from assms obtain raw v where v: "parse_whole b = Some (raw, v)"
    "dec_statement raw v zero_statement = Some s"
    by (auto simp: Parse_Inr unmarshal_statement_def split: option.splits)
  then have "\<not> is_number v" unfolding dec_statement_def by (blast dest: dec_struct_number)
  with v assms show ?thesis
    by (auto simp: Parse_def unmarshal_statement_def parse_whole_append_space split: option.splits)
qed

theorem Parse_whole_document_witness:
  "Parse (fixture_json @ ''{}'') = Inl NotAStatement"
  using Parse_whole_document [OF Parse_fixture, of "''{}''"] by (simp add: skip_ws_def is_ws_def)

text \<open>
  C24. A configuration is not: whatever follows the first JSON value of the file is never read,
  so a file with a second object, or with a broken tail, is accepted as its first object.
\<close>

theorem ParseConfig_ignores_rest:
  assumes "ParseConfig b = Inr c"
  shows "ParseConfig (b @ t) = Inr c"
proof -
  from assms obtain raw v where v: "parse_first b = Some (raw, v)"
    "dec_config raw v zero_config = Some c" and ok: "Config_Validate c = None"
    by (auto simp: ParseConfig_Inr decode_config_def split: option.splits)
  then have "\<not> is_number v" unfolding dec_config_def by (blast dest: dec_struct_number)
  with v ok parse_first_append [OF v(1)] show ?thesis
    by (simp add: ParseConfig_Inr decode_config_def)
qed

theorem ParseConfig_ignores_rest_witness:
  "ParseConfig (example_json @ ''{ not json'') = Inr example_config"
  using ParseConfig_ignores_rest [OF ParseConfig_example] by simp

end
