(* ===== verification/SnapshotStore.thy ===== *)
theory SnapshotStore
  imports ParseFiles Admission
begin

text \<open>
  The store of \<open>processor/store.go\<close>: \<open>Build\<close> loads and verifies the attestation of every
  configured target in name order, \<open>Reload\<close> replaces the snapshot when the configuration can be
  read, \<open>Decide\<close> and \<open>Passthrough\<close> read one snapshot.

  Loading takes time and the outside may change meanwhile, so \<open>Build\<close> is given one \<open>World\<close> per
  target: \<open>ws i\<close> is what the outside answers while the \<open>i\<close>th target is loaded. Log lines are
  left out.
\<close>

subsection \<open>The code\<close>

record Snapshot =
  snConfig :: Config
  Statements :: "Statement gomap"
  UnusableMap :: "string gomap"
  entries :: "entry gomap"
  passthrough :: "bool gomap"

text \<open>The mutex makes reading and writing \<open>snap\<close> atomic; \<open>log\<close> is not modelled.\<close>

record Store =
  configPath :: string
  stLoader :: Loader
  snap :: "Snapshot option"

definition NewStore :: "string \<Rightarrow> Loader option \<Rightarrow> Store" where
  "NewStore path l =
     \<lparr>configPath = path,
      stLoader = (case l of None \<Rightarrow> \<lparr>ldMaxBytes = 0, ldTimeout = 0\<rparr> | Some l \<Rightarrow> l),
      snap = None\<rparr>"

definition current :: "Store \<Rightarrow> Snapshot option" where
  "current s = snap s"

datatype verify_error =
    Unreadable load_error
  | InvalidStatement string parse_error
  | DoesNotCover string string string string

definition verify :: "World \<Rightarrow> Loader \<Rightarrow> CTarget \<Rightarrow> verify_error + Statement" where
  "verify w l t =
     (case Load w l (ctAttestation t) of
        Inl e \<Rightarrow> Inl (Unreadable e)
      | Inr b \<Rightarrow>
          (case Parse b of
             Inl e \<Rightarrow> Inl (InvalidStatement (jsonErr w b) e)
           | Inr st \<Rightarrow>
               (case Validate st of
                  Some ps \<Rightarrow> Inl (InvalidStatement (jsonErr w b) (Invalid ps))
                | None \<Rightarrow>
                    if \<not> Covers st (transport t) (ctEndpoint t)
                    then Inl (DoesNotCover (transport t) (ctEndpoint t)
                      (tTransport (EvTarget (Predicate st))) (tEndpoint (EvTarget (Predicate st))))
                    else Inr st)))"

fun verify_error_text :: "(nat \<Rightarrow> bool) \<Rightarrow> verify_error \<Rightarrow> string" where
  "verify_error_text u (Unreadable e) = ''unreadable: '' @ load_error_text e"
| "verify_error_text u (InvalidStatement jt e) = ''invalid: '' @ parse_error_text u jt e"
| "verify_error_text u (DoesNotCover tr ep tr' ep') =
     ''does not cover '' @ tr @ '' '' @ ep @ '' (it is about '' @ tr' @ '' '' @ ep' @ '')''"

definition set_unusable :: "string \<Rightarrow> string \<Rightarrow> Snapshot \<Rightarrow> Snapshot" where
  "set_unusable name r sn =
     sn\<lparr>UnusableMap := m_put name r (UnusableMap sn),
        entries := m_put name \<lparr>eStatement = None, eReason = r\<rparr> (entries sn)\<rparr>"

definition set_verified :: "string \<Rightarrow> Statement \<Rightarrow> Snapshot \<Rightarrow> Snapshot" where
  "set_verified name st sn =
     sn\<lparr>Statements := m_put name st (Statements sn),
        entries := m_put name \<lparr>eStatement = Some st, eReason = []\<rparr> (entries sn)\<rparr>"

fun build_loop ::
  "Config \<Rightarrow> Loader \<Rightarrow> (nat \<Rightarrow> World) \<Rightarrow> nat \<Rightarrow> string list \<Rightarrow> Snapshot \<Rightarrow> string + Snapshot" where
  "build_loop cfg l ws i [] sn = Inr sn"
| "build_loop cfg l ws i (name # names) sn =
     (case ctxErr (ws i) of
        Some e \<Rightarrow> Inl e
      | None \<Rightarrow>
          (case verify (ws i) l (target_at (Targets cfg) name) of
             Inl e \<Rightarrow>
               build_loop cfg l ws (Suc i) names
                 (set_unusable name (verify_error_text (uniPrint (ws i)) e) sn)
           | Inr st \<Rightarrow> build_loop cfg l ws (Suc i) names (set_verified name st sn)))"

definition passthrough_set :: "Config \<Rightarrow> bool gomap" where
  "passthrough_set cfg = fold (\<lambda>m. m_put m True) (PassthroughMethods cfg) m_empty"

definition Build :: "Config \<Rightarrow> Loader \<Rightarrow> (nat \<Rightarrow> World) \<Rightarrow> string + Snapshot" where
  "Build cfg l ws =
     build_loop cfg l ws 0 (sorted_keys (Targets cfg))
       \<lparr>snConfig = cfg, Statements = m_empty, UnusableMap = m_empty, entries = m_empty,
        passthrough = passthrough_set cfg\<rparr>"

datatype reload_error = ConfigFailed read_error | ContextEnded string

text \<open>
  The error and the store after: nil and the new snapshot, or an error and the store as it was.
  The configuration is read in \<open>ws 0\<close>, the targets in the worlds after it.
\<close>

definition Reload :: "(nat \<Rightarrow> World) \<Rightarrow> Store \<Rightarrow> reload_error option \<times> Store" where
  "Reload ws s =
     (case ReadConfig (ws 0) (configPath s) of
        Inl e \<Rightarrow> (Some (ConfigFailed e), s)
      | Inr cfg \<Rightarrow>
          (case Build cfg (stLoader s) (\<lambda>i. ws (Suc i)) of
             Inl e \<Rightarrow> (Some (ContextEnded e), s)
           | Inr sn \<Rightarrow> (None, s\<lparr>snap := Some sn\<rparr>)))"

definition Decide :: "Snapshot \<Rightarrow> string \<Rightarrow> Decision" where
  "Decide sn target = Evaluate (cfPolicy (snConfig sn)) target (m_get (entries sn) target)"

definition Passthrough :: "Snapshot \<Rightarrow> string \<Rightarrow> bool" where
  "Passthrough sn m = m_flag (passthrough sn) m"

definition ErrNotLoaded :: string where
  "ErrNotLoaded = ''processor: no configuration loaded''"

definition scoreOf :: "Statement \<Rightarrow> string" where
  "scoreOf st =
     (case EvScore (Predicate st) of
        None \<Rightarrow> ''none''
      | Some s \<Rightarrow> format_g (scTotal s) @ '' ('' @ scGrade s @ '')'')"

subsection \<open>One target\<close>

lemma verify_Inr:
  "verify w l t = Inr st \<longleftrightarrow>
   (\<exists>b. Load w l (ctAttestation t) = Inr b \<and> Parse b = Inr st \<and>
     Covers st (transport t) (ctEndpoint t))"
  by (auto simp: verify_def split: sum.splits option.splits if_splits dest: Parse_valid)

text \<open>The second validation never speaks: \<open>Parse\<close> has validated the statement.\<close>

lemma verify_second_Validate:
  "verify w l t =
     (case Load w l (ctAttestation t) of
        Inl e \<Rightarrow> Inl (Unreadable e)
      | Inr b \<Rightarrow>
          (case Parse b of
             Inl e \<Rightarrow> Inl (InvalidStatement (jsonErr w b) e)
           | Inr st \<Rightarrow>
               if Covers st (transport t) (ctEndpoint t) then Inr st
               else Inl (DoesNotCover (transport t) (ctEndpoint t)
                 (tTransport (EvTarget (Predicate st))) (tEndpoint (EvTarget (Predicate st))))))"
  by (auto simp: verify_def dest: Parse_valid split: sum.split option.split)

definition entry_for :: "World \<Rightarrow> Loader \<Rightarrow> CTarget \<Rightarrow> entry" where
  "entry_for w l t =
     (case verify w l t of
        Inl e \<Rightarrow> \<lparr>eStatement = None, eReason = verify_error_text (uniPrint w) e\<rparr>
      | Inr st \<Rightarrow> \<lparr>eStatement = Some st, eReason = []\<rparr>)"

lemma eStatement_entry_for: "eStatement (entry_for w l t) = Some st \<longleftrightarrow> verify w l t = Inr st"
  by (simp add: entry_for_def split: sum.split)

subsection \<open>What a snapshot holds\<close>

text \<open>What the three maps say of a name, and what they say once an entry is recorded.\<close>

type_synonym slot = "entry option \<times> Statement option \<times> string option"

definition slot :: "Snapshot \<Rightarrow> string \<Rightarrow> slot" where
  "slot sn n = (m_get (entries sn) n, m_get (Statements sn) n, m_get (UnusableMap sn) n)"

definition slot_of :: "entry \<Rightarrow> slot" where
  "slot_of en =
     (Some en, eStatement en, if eStatement en = None then Some (eReason en) else None)"

definition blank :: slot where
  "blank = (None, None, None)"

lemma slot_set_unusable:
  "slot sn name = blank \<Longrightarrow>
   slot (set_unusable name r sn) n =
   (if n = name then slot_of \<lparr>eStatement = None, eReason = r\<rparr> else slot sn n)"
  by (auto simp: slot_def set_unusable_def slot_of_def blank_def)

lemma slot_set_verified:
  "slot sn name = blank \<Longrightarrow>
   slot (set_verified name st sn) n =
   (if n = name then slot_of \<lparr>eStatement = Some st, eReason = []\<rparr> else slot sn n)"
  by (auto simp: slot_def set_verified_def slot_of_def blank_def)

lemma set_other [simp]:
  "snConfig (set_unusable name r sn) = snConfig sn"
  "snConfig (set_verified name st sn) = snConfig sn"
  "passthrough (set_unusable name r sn) = passthrough sn"
  "passthrough (set_verified name st sn) = passthrough sn"
  by (simp_all add: set_unusable_def set_verified_def)

text \<open>One round of the loop, as recording an entry.\<close>

definition record_entry :: "string \<Rightarrow> entry \<Rightarrow> Snapshot \<Rightarrow> Snapshot" where
  "record_entry name en sn =
     (case eStatement en of
        None \<Rightarrow> set_unusable name (eReason en) sn
      | Some st \<Rightarrow> set_verified name st sn)"

lemma build_loop_Cons:
  "build_loop cfg l ws i (name # names) sn =
   (case ctxErr (ws i) of
      Some e \<Rightarrow> Inl e
    | None \<Rightarrow> build_loop cfg l ws (Suc i) names
        (record_entry name (entry_for (ws i) l (target_at (Targets cfg) name)) sn))"
  by (simp add: entry_for_def record_entry_def split: option.split sum.split)

lemma slot_record_entry:
  "slot sn name = blank \<Longrightarrow> eStatement en = None \<or> eReason en = [] \<Longrightarrow>
   slot (record_entry name en sn) n = (if n = name then slot_of en else slot sn n)"
  by (cases en) (auto simp: record_entry_def slot_set_unusable slot_set_verified split: option.split)

lemma record_entry_other [simp]:
  "snConfig (record_entry name en sn) = snConfig sn"
  "passthrough (record_entry name en sn) = passthrough sn"
  by (simp_all add: record_entry_def split: option.split)

lemma entry_for_shape: "eStatement (entry_for w l t) = None \<or> eReason (entry_for w l t) = []"
  by (simp add: entry_for_def split: sum.split)

lemma build_loop_Inr:
  assumes "build_loop cfg l ws i names sn = Inr sn'" "distinct names"
    and "\<And>n. n \<in> set names \<Longrightarrow> slot sn n = blank"
  shows "(\<forall>j<length names. slot sn' (names ! j) =
            slot_of (entry_for (ws (i + j)) l (target_at (Targets cfg) (names ! j)))) \<and>
         (\<forall>n. n \<notin> set names \<longrightarrow> slot sn' n = slot sn n) \<and>
         snConfig sn' = snConfig sn \<and> passthrough sn' = passthrough sn"
  using assms
proof (induction names arbitrary: i sn)
  case (Cons name names)
  let ?en = "entry_for (ws i) l (target_at (Targets cfg) name)"
  let ?sn = "record_entry name ?en sn"
  have slots: "slot ?sn n = (if n = name then slot_of ?en else slot sn n)" for n
    using Cons.prems(3) [of name] entry_for_shape by (simp add: slot_record_entry)
  from Cons.prems(1) have loop: "build_loop cfg l ws (Suc i) names ?sn = Inr sn'"
    unfolding build_loop_Cons by (auto split: option.splits)
  have "slot ?sn n = blank" if "n \<in> set names" for n
    using that Cons.prems by (auto simp: slots)
  note IH = Cons.IH [OF loop _ this]
  show ?case
    using IH Cons.prems(2) slots by (auto simp: nth_Cons split: nat.split)
qed simp

lemma build_loop_Inl:
  "build_loop cfg l ws i names sn = Inl e \<Longrightarrow>
   \<exists>j<length names. ctxErr (ws (i + j)) = Some e"
proof (induction names arbitrary: i sn)
  case (Cons name names)
  show ?case
  proof (cases "ctxErr (ws i)")
    case None
    with Cons.prems Cons.IH [of "Suc i"] obtain j
      where "j < length names" "ctxErr (ws (Suc i + j)) = Some e"
      unfolding build_loop_Cons by auto
    then show ?thesis by (intro exI [of _ "Suc j"]) simp
  next
    case (Some x)
    with Cons.prems show ?thesis unfolding build_loop_Cons by auto
  qed
qed simp

text \<open>The step at which the loop comes to a name.\<close>

definition turn :: "Config \<Rightarrow> string \<Rightarrow> nat" where
  "turn cfg n = length (takeWhile (\<lambda>k. k \<noteq> n) (sorted_keys (Targets cfg)))"

lemma turn_nth:
  "m_get (Targets cfg) n = Some t \<Longrightarrow>
   turn cfg n < length (sorted_keys (Targets cfg)) \<and> sorted_keys (Targets cfg) ! turn cfg n = n"
proof -
  assume "m_get (Targets cfg) n = Some t"
  then have n: "n \<in> set (sorted_keys (Targets cfg))" by (auto simp: set_sorted_keys)
  moreover have "n \<in> set ks \<Longrightarrow> length (takeWhile (\<lambda>k. k \<noteq> n) ks) < length ks" for ks
    by (induction ks) auto
  ultimately have l: "turn cfg n < length (sorted_keys (Targets cfg))"
    unfolding turn_def by blast
  then show ?thesis
    using nth_length_takeWhile [of "\<lambda>k. k \<noteq> n" "sorted_keys (Targets cfg)"] by (simp add: turn_def)
qed

lemma slot_blank_start:
  "slot \<lparr>snConfig = cfg, Statements = m_empty, UnusableMap = m_empty, entries = m_empty,
      passthrough = p\<rparr> n = blank"
  by (simp add: slot_def blank_def)

text \<open>The snapshot, name by name.\<close>

lemma Build_slots:
  assumes "Build cfg l ws = Inr sn" "wf_map (Targets cfg)"
  shows "slot sn n =
    (case m_get (Targets cfg) n of
       None \<Rightarrow> blank
     | Some t \<Rightarrow> slot_of (entry_for (ws (turn cfg n)) l t))"
proof -
  note loop = build_loop_Inr [OF assms(1) [unfolded Build_def] distinct_sorted_keys [OF assms(2)],
      simplified slot_blank_start, OF refl]
  show ?thesis
  proof (cases "m_get (Targets cfg) n")
    case None
    then have "n \<notin> set (sorted_keys (Targets cfg))" by (simp add: set_sorted_keys)
    with loop None show ?thesis by simp
  next
    case (Some t)
    with loop turn_nth [OF Some] target_at_Some [OF Some] show ?thesis by auto
  qed
qed

lemma Build_other:
  assumes "Build cfg l ws = Inr sn"
  shows "snConfig sn = cfg" "passthrough sn = passthrough_set cfg"
proof -
  have "build_loop cfg l ws i names s = Inr s' \<Longrightarrow> snConfig s' = snConfig s \<and> passthrough s' = passthrough s"
    for i names s s'
    by (induction names arbitrary: i s) (auto simp: build_loop_Cons simp del: build_loop.simps(2)
        split: option.splits)
  from this [OF assms [unfolded Build_def]]
  show "snConfig sn = cfg" "passthrough sn = passthrough_set cfg" by simp_all
qed

lemma Passthrough_Build:
  "Build cfg l ws = Inr sn \<Longrightarrow> Passthrough sn m \<longleftrightarrow> m \<in> set (PassthroughMethods cfg)"
  using gm.get_fold_put [of "\<lambda>c. c" "\<lambda>c. True" "PassthroughMethods cfg" m_empty m]
    find_map_True [of m "rev (PassthroughMethods cfg)"]
  by (auto simp: Passthrough_def Build_other passthrough_set_def m_flag_def split: option.splits)

end
