(* ===== verification/Site.thy ===== *)
theory Site
  imports SnapshotStore ParseProps
begin

text \<open>
  A small installation, the concrete input of the witnesses: one configuration file that names one
  target, whose statement is the repository's sample, and the snapshot that is built from it.
\<close>

definition site_target :: CTarget where
  "site_target =
     \<lparr>ctAttestation = ''search.json'', ctEndpoint = ''https://mcp.example.com/mcp'', ctTransport = []\<rparr>"

definition site_policy :: Policy where
  "site_policy = \<lparr>MinScore = Fin 80, DenyFailIn = [''auth''], RequireAttestation = None\<rparr>"

definition site_config :: Config where
  "site_config =
     \<lparr>Targets = [(''search'', site_target)], cfPolicy = site_policy,
      PassthroughMethods = [''initialize'']\<rparr>"

definition site_json :: bytes where
  "site_json =
     ''{'' @ qt @ ''targets'' @ qt @ '':{'' @ qt @ ''search'' @ qt @ '':{'' @ qt @
     ''attestation'' @ qt @ '':'' @ qt @ ''search.json'' @ qt @ '','' @ qt @ ''endpoint'' @
     qt @ '':'' @ qt @ ''https://mcp.example.com/mcp'' @ qt @ ''}},'' @ qt @ ''policy'' @
     qt @ '':{'' @ qt @ ''minScore'' @ qt @ '':80,'' @ qt @ ''denyFailIn'' @ qt @ '':['' @
     qt @ ''auth'' @ qt @ '']},'' @ qt @ ''passthroughMethods'' @ qt @ '':['' @ qt @
     ''initialize'' @ qt @ '']}''"

definition site_world :: World where
  "site_world =
     \<lparr>openFile = (\<lambda>p.
        if p = ''config.json'' then Inr \<lparr>stBytes = site_json, stError = None\<rparr>
        else if p = ''search.json'' then Inr \<lparr>stBytes = fixture_json, stError = None\<rparr>
        else Inl ''no such file''),
      httpGet = (\<lambda>url timeout. DoFailed ''no network''),
      ctxErr = None, uniPrint = (\<lambda>r. False), jsonErr = (\<lambda>b. ''invalid'')\<rparr>"

definition site_snapshot :: Snapshot where
  "site_snapshot =
     \<lparr>snConfig = site_config, Statements = [(''search'', fixture)], UnusableMap = [],
      entries = [(''search'', \<lparr>eStatement = Some fixture, eReason = []\<rparr>)],
      passthrough = [(''initialize'', True)]\<rparr>"

definition site_store :: Store where
  "site_store = NewStore ''config.json'' None"

subsection \<open>The configuration file\<close>

lemma parse_float_80 [simp]: "parse_float ''80'' = Some (Fin 80)"
proof -
  have "decimal_value ''80'' = 80"
    by (simp add: decimal_value_def scan_sign_def scan_digits_def is_digit_def dec_digits_def
        digit_val_def byte_of_def pow_rat_def Let_def)
  moreover have "f64_of_rat 80 = Fin 80" by code_simp
  ultimately show ?thesis by (simp add: parse_float_def)
qed

lemma decode_site: "decode_config site_json = Some site_config"
  unfolding decode_config_def parse_first_def
  by (simp add: site_json_def scan_eval max_depth_def)
    (simp add: tag_eval value_eval zero_eval m_empty_eval site_config_def site_target_def
      site_policy_def)

lemma wf_site: "wf_map (Targets site_config)"
  by (simp add: wf_map_def site_config_def)

lemma usable_site: "usable site_config"
  by (simp add: site_config_def site_target_def site_policy_def usable_def usable_target_def
      usable_policy_def file_or_https_def https_prefix_def scheme_sep_def transport_def)

lemma ReadConfig_site: "ReadConfig site_world ''config.json'' = Inr site_config"
  using usable_site
  by (simp add: ReadConfig_def site_world_def ParseConfig_Inr decode_site
      Config_Validate_usable [OF wf_site])

subsection \<open>The snapshot\<close>

lemma Covers_site: "Covers fixture ''http'' ''https://mcp.example.com/mcp''"
  using Covers_valid [OF Validate_fixture]
  by (simp add: fixture_def fixture_evaluation_def fixture_target_def fixture_endpoint_def
      descriptor_of_def descriptor_def)

lemma length_fixture_json: "length fixture_json = 1297"
  by (simp add: fixture_json_def qt_def nl_def)

lemma Load_site: "Load site_world zero_loader ''search.json'' = Inr fixture_json"
proof -
  have "capped zero_loader \<lparr>stBytes = fixture_json, stError = None\<rparr> = Inr fixture_json"
    using small_cap(2)
    by (intro capped_accepts) (simp_all add: maxBytes_zero_loader sint_DefaultMaxBytes length_fixture_json)
  then show ?thesis
    by (simp add: Load_def read_file_def site_world_def https_prefix_def scheme_sep_def)
qed

lemma verify_site: "verify site_world zero_loader site_target = Inr fixture"
  by (simp add: verify_Inr site_target_def Load_site Parse_fixture transport_def Covers_site)

lemma Build_site: "Build site_config zero_loader (\<lambda>i. site_world) = Inr site_snapshot"
proof -
  have "sorted_keys (Targets site_config) = [''search'']"
    by (simp add: sorted_keys_def m_keys_def site_config_def)
  moreover have "target_at (Targets site_config) ''search'' = site_target"
    by (simp add: target_at_def m_get_def site_config_def)
  moreover have "ctxErr site_world = None" by (simp add: site_world_def)
  ultimately show ?thesis
    by (simp add: Build_def verify_site set_verified_def site_snapshot_def passthrough_set_def
        m_empty_def) (simp add: site_config_def)
qed

lemma Reload_site: "Reload (\<lambda>i. site_world) site_store = (None, site_store\<lparr>snap := Some site_snapshot\<rparr>)"
  using Build_site
  by (simp add: Reload_def site_store_def NewStore_def ReadConfig_site zero_loader_def)

end
