(* ===== verification/StoreProps.thy ===== *)
theory StoreProps
  imports SnapshotStore Site
begin

text \<open>
  What a snapshot holds, what a reload does, and what a decision on a snapshot rests on.
  \<open>snapshot_ok\<close> is the invariant of every snapshot \<open>Build\<close> makes: the interface the request
  handler relies on.
\<close>

subsection \<open>The invariant\<close>

text \<open>A statement that vouches for a target: it is valid and covers the target.\<close>

definition vouches :: "Statement \<Rightarrow> CTarget \<Rightarrow> bool" where
  "vouches st t \<longleftrightarrow> Validate st = None \<and> Covers st (transport t) (ctEndpoint t)"

definition entry_ok :: "entry \<Rightarrow> CTarget \<Rightarrow> bool" where
  "entry_ok en t \<longleftrightarrow>
     (case eStatement en of None \<Rightarrow> True | Some st \<Rightarrow> vouches st t \<and> wf_statement st)"

definition snapshot_ok :: "Snapshot \<Rightarrow> bool" where
  "snapshot_ok sn \<longleftrightarrow>
     (\<forall>n. case m_get (Targets (snConfig sn)) n of
        None \<Rightarrow> slot sn n = blank
      | Some t \<Rightarrow> (\<exists>en. slot sn n = slot_of en \<and> entry_ok en t)) \<and>
     (\<forall>m. Passthrough sn m \<longleftrightarrow> m \<in> set (PassthroughMethods (snConfig sn)))"

lemma entry_for_ok: "entry_ok (entry_for w l t) t"
  by (auto simp: entry_ok_def eStatement_entry_for verify_Inr vouches_def Parse_Inr unmarshal_wf
      split: option.split)

lemma Build_ok:
  assumes "Build cfg l ws = Inr sn" "wf_map (Targets cfg)"
  shows "snapshot_ok sn"
  unfolding snapshot_ok_def Build_other(1) [OF assms(1)]
  using Build_slots [OF assms] entry_for_ok Passthrough_Build [OF assms(1)]
  by (auto split: option.split)

subsection \<open>\<open>Build\<close>\<close>

text \<open>
  C12. Every configured target is in exactly one of the two tables of a snapshot, verified or
  unusable, and no other name is in either: no target is lost, and none is both.
\<close>

theorem Build_partition:
  assumes "wf_map (Targets cfg)" "Build cfg l ws = Inr sn"
  shows "case m_get (Targets cfg) n of
      None \<Rightarrow> m_get (Statements sn) n = None \<and> m_get (UnusableMap sn) n = None
    | Some t \<Rightarrow> (m_get (Statements sn) n = None) \<noteq> (m_get (UnusableMap sn) n = None)"
  using Build_slots [OF assms(2,1), of n]
  by (auto simp: slot_def blank_def slot_of_def split: option.splits if_splits)

theorem Build_partition_witness:
  "m_get (UnusableMap site_snapshot) ''search'' = None"
  using Build_partition [OF wf_site Build_site, of "''search''"]
  by (simp add: site_config_def site_snapshot_def m_get_def)

text \<open>
  C11. The statements of a snapshot are exactly the verified ones: a name has one if and only if
  it is configured and what its source held, at the moment it was loaded, parses to a valid
  statement that covers the configured endpoint. What happens to one target depends on no
  other.
\<close>

theorem Build_statements:
  assumes "wf_map (Targets cfg)" "Build cfg l ws = Inr sn"
  shows "m_get (Statements sn) n = Some st \<longleftrightarrow>
    (\<exists>t b. m_get (Targets cfg) n = Some t \<and>
       Load (ws (turn cfg n)) l (ctAttestation t) = Inr b \<and> Parse b = Inr st \<and>
       Covers st (transport t) (ctEndpoint t))"
  using Build_slots [OF assms(2,1), of n]
  by (auto simp: slot_def blank_def slot_of_def eStatement_entry_for verify_Inr split: option.splits)

theorem Build_statements_witness:
  "\<exists>b. Load site_world zero_loader ''search.json'' = Inr b \<and> Parse b = Inr fixture"
  using Build_statements [OF wf_site Build_site, of "''search''" fixture]
  by (auto simp: site_config_def site_snapshot_def m_get_def site_target_def)

text \<open>
  \<open>Build\<close> always finishes with a snapshot while the context lives, whatever the files and the
  network do; it fails only with the context's own error.
\<close>

theorem Build_finishes:
  "case Build cfg l ws of
     Inr sn \<Rightarrow> snConfig sn = cfg
   | Inl e \<Rightarrow> \<exists>i<length (Targets cfg). ctxErr (ws i) = Some e"
proof (cases "Build cfg l ws")
  case (Inl e)
  then show ?thesis
    using build_loop_Inl [OF Inl [unfolded Build_def]] by (simp add: sorted_keys_def m_keys_def)
next
  case (Inr sn)
  then show ?thesis using Build_other [OF Inr] by simp
qed

subsection \<open>Decisions on a snapshot\<close>

lemma ok_entry:
  assumes "snapshot_ok sn"
  shows "(case m_get (Targets (snConfig sn)) n of
      None \<Rightarrow> m_get (entries sn) n = None
    | Some t \<Rightarrow> \<exists>en. m_get (entries sn) n = Some en \<and> entry_ok en t)"
  using assms unfolding snapshot_ok_def
  by (auto simp: slot_def slot_of_def blank_def split: option.splits) (metis option.distinct(1) option.inject)+

lemma ok_usable_entry:
  assumes "snapshot_ok sn" "usable_entry (m_get (entries sn) n) = Some st"
  shows "\<exists>t. m_get (Targets (snConfig sn)) n = Some t \<and> vouches st t \<and> wf_statement st"
  using ok_entry [OF assms(1), of n] assms(2)
  by (auto simp: usable_entry_def entry_ok_def split: option.splits)

lemma Decide_Allow:
  "Allow (Decide sn n) \<longleftrightarrow>
   (case usable_entry (m_get (entries sn) n) of
      None \<Rightarrow> \<not> Requires (cfPolicy (snConfig sn))
    | Some st \<Rightarrow> admissible (cfPolicy (snConfig sn)) st)"
  by (simp add: Decide_def gate_simps)

lemma Decide_dStatement: "dStatement (Decide sn n) = usable_entry (m_get (entries sn) n)"
  by (simp add: Decide_def gate_simps)

subsection \<open>\<open>Reload\<close>\<close>

text \<open>What a store may hold: nothing yet, or a snapshot of a usable configuration.\<close>

definition store_ok :: "Store \<Rightarrow> bool" where
  "store_ok s \<longleftrightarrow>
     (case snap s of
        None \<Rightarrow> True
      | Some sn \<Rightarrow> snapshot_ok sn \<and> usable (snConfig sn) \<and> wf_config (snConfig sn))"

lemma ReadConfig_Inr:
  "ReadConfig w path = Inr cfg \<Longrightarrow>
   usable cfg \<and> wf_config cfg \<and>
   (\<exists>b. openFile w path = Inr \<lparr>stBytes = b, stError = None\<rparr> \<and> ParseConfig b = Inr cfg)"
proof -
  assume "ReadConfig w path = Inr cfg"
  then obtain f where f: "openFile w path = Inr f" "stError f = None" "ParseConfig (stBytes f) = Inr cfg"
    by (auto simp: ReadConfig_def split: sum.splits option.splits)
  moreover from f(1,2) have "openFile w path = Inr \<lparr>stBytes = stBytes f, stError = None\<rparr>"
    by (cases f) simp
  moreover have "usable cfg \<and> wf_config cfg" using ParseConfig_usable [OF f(3)] .
  ultimately show ?thesis by blast
qed

lemma Reload_cases:
  "(\<exists>e. Reload ws s = (Some e, s)) \<or>
   (\<exists>cfg sn. Reload ws s = (None, s\<lparr>snap := Some sn\<rparr>) \<and>
      ReadConfig (ws 0) (configPath s) = Inr cfg \<and>
      Build cfg (stLoader s) (\<lambda>i. ws (Suc i)) = Inr sn)"
  by (auto simp: Reload_def split: sum.split)

lemma Reload_failed: "Reload ws s = (Some e, s') \<Longrightarrow> s' = s"
  using Reload_cases [of ws s] by auto

lemma Reload_ok:
  assumes "Reload ws s = (None, s')"
  shows "\<exists>sn. s' = s\<lparr>snap := Some sn\<rparr> \<and> snapshot_ok sn \<and> usable (snConfig sn) \<and>
    wf_config (snConfig sn) \<and> ReadConfig (ws 0) (configPath s) = Inr (snConfig sn)"
proof -
  from Reload_cases [of ws s] assms obtain cfg sn where
    r: "s' = s\<lparr>snap := Some sn\<rparr>" "ReadConfig (ws 0) (configPath s) = Inr cfg"
    and b: "Build cfg (stLoader s) (\<lambda>i. ws (Suc i)) = Inr sn" by auto
  from ReadConfig_Inr [OF r(2)] have c: "usable cfg" "wf_config cfg" by auto
  then have "snapshot_ok sn" using Build_ok [OF b] by (simp add: wf_config_def map_all_def)
  with r c Build_other(1) [OF b] show ?thesis by auto
qed

text \<open>
  C10. A reload replaces the whole snapshot or nothing: with an error the store is unchanged, and
  without one it holds a snapshot built from the configuration just read, which is usable and
  whose every statement is valid and covers its target.
\<close>

theorem Reload_all_or_nothing:
  "case Reload ws s of
     (Some e, s') \<Rightarrow> s' = s
   | (None, s') \<Rightarrow>
       (\<exists>sn. s' = s\<lparr>snap := Some sn\<rparr> \<and> snapshot_ok sn \<and> usable (snConfig sn) \<and>
          ReadConfig (ws 0) (configPath s) = Inr (snConfig sn))"
  using Reload_ok [of ws s] Reload_failed [of ws s]
  by (auto split: prod.split option.split)

end
