(* ===== verification/GateServer.thy ===== *)
theory GateServer
  imports StoreProps
begin

text \<open>
  The request handler of \<open>processor/server.go\<close> and the messages it exchanges. Every backend a
  request names is decided on one snapshot, the first that is denied denies the call, and the
  scores seen ride along on a pass.

  The metadata struct is built by the protobuf library; \<open>new_struct\<close> is its constructor on the
  scores, \<open>None\<close> when it refuses them (it does so for strings that are not UTF-8).

  The interface between the handler and the decisions it asks for is the locale \<open>gate\<close>; what a
  pass means is proved there, and \<open>Decide\<close> on a snapshot is its interpretation.
\<close>

subsection \<open>The code\<close>

text \<open>Of the request the handler reads the backends and the method.\<close>

record McpRequest =
  ServiceNames :: "string list"
  Method :: string

definition GetServiceNames :: "McpRequest option \<Rightarrow> string list" where
  "GetServiceNames r = (case r of None \<Rightarrow> [] | Some x \<Rightarrow> ServiceNames x)"

definition GetMethod :: "McpRequest option \<Rightarrow> string" where
  "GetMethod r = (case r of None \<Rightarrow> [] | Some x \<Rightarrow> Method x)"

datatype auth_code = UNKNOWN | PERMISSION_DENIED | RESOURCE_EXHAUSTED | INVALID

datatype 'md request_result =
    RequestPass "'md option"
  | RequestError auth_code string

datatype response_result = ResponsePass

datatype rpc_error = RpcUnavailable string

type_synonym scores = "(float64 \<times> string) gomap"

definition pass :: "(scores \<Rightarrow> 'md option) \<Rightarrow> scores \<Rightarrow> 'md request_result" where
  "pass new_struct sc =
     (if length sc = 0 then RequestPass None
      else case new_struct sc of
        None \<Rightarrow> RequestPass None
      | Some md \<Rightarrow> RequestPass (Some md))"

definition add_score :: "string \<Rightarrow> Decision \<Rightarrow> scores \<Rightarrow> scores" where
  "add_score name d sc =
     (case dStatement d of
        None \<Rightarrow> sc
      | Some st \<Rightarrow>
          (case EvScore (Predicate st) of
             None \<Rightarrow> sc
           | Some s \<Rightarrow> m_put name (scTotal s, scGrade s) sc))"

text \<open>The loop over the backends: a denial's reason, or the scores collected.\<close>

fun check_targets :: "(string \<Rightarrow> Decision) \<Rightarrow> string list \<Rightarrow> scores \<Rightarrow> reason + scores" where
  "check_targets decide [] sc = Inr sc"
| "check_targets decide (name # names) sc =
     (let d = decide name in
      if \<not> Allow d then Inl (Reason d)
      else check_targets decide names (add_score name d sc))"

text \<open>\<open>u\<close> tells printable runes, for the text of a reason.\<close>

definition CheckRequest ::
  "(nat \<Rightarrow> bool) \<Rightarrow> (scores \<Rightarrow> 'md option) \<Rightarrow> Store \<Rightarrow> McpRequest option \<Rightarrow> rpc_error + 'md request_result" where
  "CheckRequest u new_struct s req =
     (case current s of
        None \<Rightarrow> Inl (RpcUnavailable ErrNotLoaded)
      | Some sn \<Rightarrow>
          if Passthrough sn (GetMethod req) then Inr (pass new_struct m_empty)
          else (case check_targets (Decide sn) (GetServiceNames req) m_empty of
             Inl r \<Rightarrow> Inr (RequestError PERMISSION_DENIED (reason_text u r))
           | Inr sc \<Rightarrow> Inr (pass new_struct sc)))"

definition CheckResponse :: "Store \<Rightarrow> rpc_error + response_result" where
  "CheckResponse s = Inr ResponsePass"

subsection \<open>The loop\<close>

lemma check_targets_Inr:
  "(\<exists>sc'. check_targets decide names sc = Inr sc') \<longleftrightarrow> (\<forall>n\<in>set names. Allow (decide n))"
  by (induction names arbitrary: sc) (simp_all add: Let_def)

lemma check_targets_Inl:
  "check_targets decide names sc = Inl r \<longleftrightarrow>
   (\<exists>n. List.find (\<lambda>n. \<not> Allow (decide n)) names = Some n \<and> r = Reason (decide n))"
  by (induction names arbitrary: sc) (auto simp: Let_def)

definition score_of :: "Decision \<Rightarrow> (float64 \<times> string) option" where
  "score_of d =
     (case dStatement d of
        None \<Rightarrow> None
      | Some st \<Rightarrow> map_option (\<lambda>s. (scTotal s, scGrade s)) (EvScore (Predicate st)))"

lemma m_get_add_score:
  "m_get (add_score name d sc) n =
   (if n = name \<and> score_of d \<noteq> None then score_of d else m_get sc n)"
  by (auto simp: add_score_def score_of_def split: option.split)

lemma check_targets_scores:
  "check_targets decide names sc = Inr sc' \<Longrightarrow>
   m_get sc' n =
   (if n \<in> set names \<and> score_of (decide n) \<noteq> None then score_of (decide n) else m_get sc n)"
  by (induction names arbitrary: sc)
    (auto simp: Let_def m_get_add_score split: if_splits)

subsection \<open>The interface to the decisions\<close>

text \<open>
  \<open>decide s n\<close> is the decision on a name in a state, \<open>vouched s n st\<close> that a statement speaks for
  the name, \<open>mandatory s\<close> that names without one are refused, \<open>meets s st\<close> that a statement
  satisfies the policy.
\<close>

locale gate =
  fixes good :: "'s \<Rightarrow> bool"
    and decide :: "'s \<Rightarrow> string \<Rightarrow> Decision"
    and vouched :: "'s \<Rightarrow> string \<Rightarrow> Statement \<Rightarrow> bool"
    and mandatory :: "'s \<Rightarrow> bool"
    and meets :: "'s \<Rightarrow> Statement \<Rightarrow> bool"
  assumes rests_on: "good s \<Longrightarrow> dStatement (decide s n) = Some st \<Longrightarrow> vouched s n st"
    and allowed: "good s \<Longrightarrow>
      Allow (decide s n) \<longleftrightarrow>
      (case dStatement (decide s n) of None \<Rightarrow> \<not> mandatory s | Some st \<Rightarrow> meets s st)"
begin

text \<open>
  When a call passes, the statement behind each backend meets the policy; a backend without one
  is let through only when none is mandatory.
\<close>

lemma passes:
  assumes "good s" "check_targets (decide s) names sc = Inr sc'" "n \<in> set names"
  shows "case dStatement (decide s n) of
      None \<Rightarrow> \<not> mandatory s
    | Some st \<Rightarrow> vouched s n st \<and> meets s st"
proof -
  have "Allow (decide s n)" using assms(2,3) check_targets_Inr by blast
  with assms(1) rests_on [OF assms(1)] show ?thesis by (auto simp: allowed split: option.splits)
qed

text \<open>A score passed on is the score of a statement that vouches for its backend.\<close>

lemma scores_vouched:
  assumes "good s" "check_targets (decide s) names m_empty = Inr sc" "m_get sc n = Some (x, g)"
  shows "n \<in> set names \<and>
    (\<exists>st sr. vouched s n st \<and> EvScore (Predicate st) = Some sr \<and> scTotal sr = x \<and> scGrade sr = g)"
  using assms(3) rests_on [OF assms(1)]
  unfolding check_targets_scores [OF assms(2)]
  by (auto simp: score_of_def split: if_splits option.splits)

end

text \<open>A statement that speaks for a name of a snapshot's configuration.\<close>

definition speaks_for :: "Snapshot \<Rightarrow> string \<Rightarrow> Statement \<Rightarrow> bool" where
  "speaks_for sn n st \<longleftrightarrow>
     (\<exists>t. m_get (Targets (snConfig sn)) n = Some t \<and> vouches st t \<and> wf_statement st)"

interpretation sg: gate snapshot_ok Decide speaks_for
    "\<lambda>sn. Requires (cfPolicy (snConfig sn))" "\<lambda>sn. admissible (cfPolicy (snConfig sn))"
proof unfold_locales
  fix sn n st
  assume "snapshot_ok sn" "dStatement (Decide sn n) = Some st"
  then show "speaks_for sn n st"
    by (simp add: speaks_for_def Decide_dStatement ok_usable_entry)
next
  fix sn n
  show "Allow (Decide sn n) \<longleftrightarrow>
      (case dStatement (Decide sn n) of
         None \<Rightarrow> \<not> Requires (cfPolicy (snConfig sn))
       | Some st \<Rightarrow> admissible (cfPolicy (snConfig sn)) st)"
    by (simp add: Decide_Allow Decide_dStatement)
qed

lemma CheckRequest_cases:
  "CheckRequest u ns s req =
   (case snap s of
      None \<Rightarrow> Inl (RpcUnavailable ErrNotLoaded)
    | Some sn \<Rightarrow>
        if Passthrough sn (GetMethod req) then Inr (RequestPass None)
        else (case check_targets (Decide sn) (GetServiceNames req) m_empty of
           Inl r \<Rightarrow> Inr (RequestError PERMISSION_DENIED (reason_text u r))
         | Inr sc \<Rightarrow> Inr (pass ns sc)))"
  by (simp add: CheckRequest_def current_def pass_def m_empty_def split: option.split)

lemma pass_is_pass: "\<exists>md. pass ns sc = RequestPass md"
  by (simp add: pass_def split: option.split)

lemma CheckRequest_pass:
  "CheckRequest u ns s req = Inr (RequestPass md) \<longleftrightarrow>
   (\<exists>sn. snap s = Some sn \<and>
      (if Passthrough sn (GetMethod req) then md = None
       else \<exists>sc. check_targets (Decide sn) (GetServiceNames req) m_empty = Inr sc \<and>
              pass ns sc = RequestPass md))"
  by (auto simp: CheckRequest_cases split: option.split sum.split)

lemma CheckRequest_error:
  "CheckRequest u ns s req = Inr (RequestError c r) \<longleftrightarrow>
   (\<exists>sn rs. snap s = Some sn \<and> \<not> Passthrough sn (GetMethod req) \<and> c = PERMISSION_DENIED \<and>
      check_targets (Decide sn) (GetServiceNames req) m_empty = Inl rs \<and> r = reason_text u rs)"
  using pass_is_pass [of ns]
  by (auto simp: CheckRequest_cases split: option.split sum.split)
    (metis request_result.distinct(1))+

end
