(* ===== verification/GateProps.thy ===== *)
theory GateProps
  imports GateServer
begin

text \<open>
  What an answer of the gate means. The store is one that \<open>Reload\<close> produced (\<open>store_ok\<close>); the
  facts about passes come from the interpretation \<open>sg\<close> of the \<open>gate\<close> interface.
\<close>

lemma store_okD:
  "store_ok s \<Longrightarrow> snap s = Some sn \<Longrightarrow>
   snapshot_ok sn \<and> usable (snConfig sn) \<and> wf_config (snConfig sn)"
  by (simp add: store_ok_def)

subsection \<open>A running gate\<close>

definition site_running :: Store where
  "site_running = site_store\<lparr>snap := Some site_snapshot\<rparr>"

lemma site_running_ok: "store_ok site_running"
proof -
  have "snapshot_ok site_snapshot" using Build_ok [OF Build_site wf_site] .
  moreover have "snConfig site_snapshot = site_config" by (simp add: site_snapshot_def)
  moreover have "wf_config site_config"
    using decode_config_wf [OF decode_site] .
  ultimately show ?thesis by (simp add: store_ok_def site_running_def usable_site)
qed

lemma site_not_passthrough: "\<not> Passthrough site_snapshot ''tools/call''"
  by (simp add: Passthrough_def site_snapshot_def m_flag_def m_get_def)

definition call :: "string list \<Rightarrow> McpRequest option" where
  "call names = Some \<lparr>ServiceNames = names, Method = ''tools/call''\<rparr>"

lemma Decide_site:
  "Decide site_snapshot ''search'' = allow (PassesWithScore ''search'' (Fin 88) ''B'') (Some fixture)"
proof -
  have "failingIn site_policy fixture_verdicts = []"
    by (simp add: failingIn_Nil disqualifies_def site_policy_def fixture_verdicts_def)
  then show ?thesis
    by (simp add: Decide_def Evaluate_def site_snapshot_def site_config_def m_get_def
        score_denial_def fixture_def fixture_evaluation_def site_policy_def zero_float64_def Let_def)
qed

lemma Decide_site_unknown:
  "Decide site_snapshot ''github'' = deny (NotConfigured ''github'') None"
  by (simp add: Decide_def Evaluate_def site_snapshot_def site_config_def site_policy_def m_get_def
      Requires_def)

lemma site_answers:
  "CheckRequest u ns site_running (call [''search'']) =
     Inr (pass ns [(''search'', (Fin 88, ''B''))])"
  "CheckRequest u ns site_running (call [''search'', ''github'']) =
     Inr (RequestError PERMISSION_DENIED (reason_text u (NotConfigured ''github'')))"
  using site_not_passthrough
  by (simp_all add: CheckRequest_def current_def site_running_def GetMethod_def GetServiceNames_def
      call_def Decide_site Decide_site_unknown Let_def add_score_def fixture_def
      fixture_evaluation_def m_empty_def)

subsection \<open>A pass\<close>

text \<open>
  C1. The gate's promise. When a call that is not passed through is answered with a pass, then
  every backend it names is configured and has a statement that is valid, covers the
  configured endpoint, is scored at least the minimum when that is positive, and has no
  failing check in a denied category; a backend without a usable statement is let through
  only when the policy does not require attestations.
\<close>

theorem pass_is_vouched:
  assumes "store_ok s" "snap s = Some sn"
    and "CheckRequest u ns s req = Inr (RequestPass md)"
    and "GetMethod req \<notin> set (PassthroughMethods (snConfig sn))"
    and "n \<in> set (GetServiceNames req)"
  shows "case dStatement (Decide sn n) of
      None \<Rightarrow> \<not> Requires (cfPolicy (snConfig sn))
    | Some st \<Rightarrow>
        (\<exists>t. m_get (Targets (snConfig sn)) n = Some t \<and> Covers st (transport t) (ctEndpoint t)) \<and>
        interpretable st \<and>
        (f64_less 0 (MinScore (cfPolicy (snConfig sn))) \<longrightarrow>
          (\<exists>sc. EvScore (Predicate st) = Some sc \<and>
            \<not> f64_less (scTotal sc) (MinScore (cfPolicy (snConfig sn))) \<and> is_finite (scTotal sc))) \<and>
        (\<forall>v\<in>set (Verdicts (Predicate st)).
          \<not> (vStatus v = ''fail'' \<and> vPhase v \<in> set (DenyFailIn (cfPolicy (snConfig sn)))))"
proof -
  have ok: "snapshot_ok sn" using store_okD [OF assms(1,2)] by simp
  with assms(4) have "\<not> Passthrough sn (GetMethod req)" by (simp add: snapshot_ok_def)
  with assms(2,3) obtain sc where
    "check_targets (Decide sn) (GetServiceNames req) m_empty = Inr sc"
    by (auto simp: CheckRequest_pass)
  note passes = sg.passes [OF ok this assms(5)]
  show ?thesis
  proof (cases "dStatement (Decide sn n)")
    case (Some st)
    with passes have st: "speaks_for sn n st" "admissible (cfPolicy (snConfig sn)) st" by simp_all
    then obtain t where t: "m_get (Targets (snConfig sn)) n = Some t" "vouches st t" "wf_statement st"
      by (auto simp: speaks_for_def)
    moreover have "interpretable st"
      using t(2) interpretable_of_Validate by (simp add: vouches_def)
    moreover have "is_finite (scTotal sc)" if "EvScore (Predicate st) = Some sc" for sc
      using t(3) that by (simp add: wf_statement_def wf_evaluation_def wf_score_def)
    ultimately show ?thesis
      using st(2) Some by (fastforce simp: vouches_def admissible_def score_ok_def disqualifies_def)
  qed (use passes in simp)
qed

theorem pass_is_vouched_witness:
  "interpretable fixture \<and> Covers fixture ''http'' ''https://mcp.example.com/mcp'' \<and>
    (\<exists>sc. EvScore (Predicate fixture) = Some sc \<and> \<not> f64_less (scTotal sc) (Fin 80))"
proof -
  obtain md where "pass (\<lambda>sc. None) [(''search'', (Fin 88, ''B''))] = (RequestPass md :: nat request_result)"
    using pass_is_pass by blast
  then have "CheckRequest (\<lambda>r. True) (\<lambda>sc. None) site_running (call [''search'']) =
      (Inr (RequestPass md) :: rpc_error + nat request_result)"
    by (simp add: site_answers)
  then show ?thesis
    using pass_is_vouched [OF site_running_ok, of site_snapshot "\<lambda>r. True" "\<lambda>sc. None"
        "call [''search'']" md "''search''"]
    by (auto simp: site_running_def Decide_site allow_def)
      (auto simp: site_snapshot_def site_config_def site_policy_def GetMethod_def GetServiceNames_def call_def m_get_def site_target_def transport_def
        zero_float64_def)
qed

text \<open>
  C2. A denial names the first backend, in the order of the request, whose decision is no, with
  that decision's reason and the code PERMISSION_DENIED; there is no other error, and there is
  a denial exactly when some named backend is denied and the method is not passed through.
\<close>

theorem denial_is_first:
  assumes "snap s = Some sn"
  shows "CheckRequest u ns s req = Inr (RequestError c r) \<longleftrightarrow>
    c = PERMISSION_DENIED \<and> \<not> Passthrough sn (GetMethod req) \<and>
    (\<exists>before n after. GetServiceNames req = before @ n # after \<and>
       list_all (\<lambda>k. Allow (Decide sn k)) before \<and> \<not> Allow (Decide sn n) \<and>
       r = reason_text u (Reason (Decide sn n)))"
  unfolding CheckRequest_error
  by (auto simp: assms check_targets_Inl find_Some_iff_first list_all_iff)

theorem denial_is_first_witness:
  "CheckRequest (\<lambda>r. True) (\<lambda>sc. None :: nat option) site_running (call [''search'', ''github'']) =
   Inr (RequestError PERMISSION_DENIED (reason_text (\<lambda>r. True) (NotConfigured ''github'')))"
proof (subst denial_is_first [of _ site_snapshot])
  show "snap site_running = Some site_snapshot" by (simp add: site_running_def)
  have "GetServiceNames (call [''search'', ''github'']) = [''search''] @ ''github'' # []"
    by (simp add: GetServiceNames_def call_def)
  moreover have "list_all (\<lambda>k. Allow (Decide site_snapshot k)) [''search'']"
    "\<not> Allow (Decide site_snapshot ''github'')"
    "Reason (Decide site_snapshot ''github'') = NotConfigured ''github''"
    by (simp_all add: Decide_site Decide_site_unknown)
  moreover have "\<not> Passthrough site_snapshot (GetMethod (call [''search'', ''github'']))"
    using site_not_passthrough by (simp add: GetMethod_def call_def)
  ultimately show "PERMISSION_DENIED = PERMISSION_DENIED \<and>
    \<not> Passthrough site_snapshot (GetMethod (call [''search'', ''github''])) \<and>
    (\<exists>before n after. GetServiceNames (call [''search'', ''github'']) = before @ n # after \<and>
       list_all (\<lambda>k. Allow (Decide site_snapshot k)) before \<and> \<not> Allow (Decide site_snapshot n) \<and>
       reason_text (\<lambda>r. True) (NotConfigured ''github'') = reason_text (\<lambda>r. True) (Reason (Decide site_snapshot n)))"
    by metis
qed

text \<open>
  C16. The gate answers unavailable exactly when nothing is loaded, and it passes a call exactly
  when the method is passed through or every backend named is allowed; naming none is one
  such case.
\<close>

theorem CheckRequest_outcomes:
  "(CheckRequest u ns s req = Inl (RpcUnavailable ErrNotLoaded) \<longleftrightarrow> snap s = None) \<and>
   ((\<exists>md. CheckRequest u ns s req = Inr (RequestPass md)) \<longleftrightarrow>
    (\<exists>sn. snap s = Some sn \<and>
      (Passthrough sn (GetMethod req) \<or>
       list_all (\<lambda>n. Allow (Decide sn n)) (GetServiceNames req))))"
proof
  show "CheckRequest u ns s req = Inl (RpcUnavailable ErrNotLoaded) \<longleftrightarrow> snap s = None"
    by (auto simp: CheckRequest_cases split: option.split sum.split)
  show "(\<exists>md. CheckRequest u ns s req = Inr (RequestPass md)) \<longleftrightarrow>
    (\<exists>sn. snap s = Some sn \<and>
      (Passthrough sn (GetMethod req) \<or>
       list_all (\<lambda>n. Allow (Decide sn n)) (GetServiceNames req)))"
    unfolding list_all_iff check_targets_Inr [of _ _ m_empty, symmetric] CheckRequest_cases
    using pass_is_pass [of ns] by (auto split: option.split sum.split)
qed

text \<open>
  C15. The metadata of a pass: the struct is built from exactly the backends named that have a
  statement with a score, each with the score and grade of a statement that vouches for it.
\<close>

theorem scores_are_vouched:
  assumes "store_ok s" "snap s = Some sn"
    and "CheckRequest u ns s req = Inr (RequestPass (Some md))"
  shows "\<exists>sc. ns sc = Some md \<and> sc \<noteq> [] \<and>
    (\<forall>n x g. m_get sc n = Some (x, g) \<longrightarrow> n \<in> set (GetServiceNames req) \<and>
      (\<exists>st sr. speaks_for sn n st \<and> EvScore (Predicate st) = Some sr \<and>
         scTotal sr = x \<and> scGrade sr = g))"
proof -
  from assms(2,3) obtain sc where
    sc: "check_targets (Decide sn) (GetServiceNames req) m_empty = Inr sc"
    and md: "pass ns sc = RequestPass (Some md)"
    by (auto simp: CheckRequest_pass split: if_splits)
  from md have "ns sc = Some md" "sc \<noteq> []"
    by (auto simp: pass_def split: if_splits option.splits)
  moreover have "snapshot_ok sn" using store_okD [OF assms(1,2)] by simp
  ultimately show ?thesis using sg.scores_vouched [OF _ sc] by blast
qed

theorem scores_are_vouched_witness:
  "\<exists>st sr. speaks_for site_snapshot ''search'' st \<and> EvScore (Predicate st) = Some sr"
proof -
  have "CheckRequest (\<lambda>r. True) (\<lambda>sc. Some (length sc)) site_running (call [''search'']) =
      Inr (RequestPass (Some 1))"
    by (simp add: site_answers pass_def)
  from scores_are_vouched [OF site_running_ok _ this, of site_snapshot]
  obtain sc :: scores where "length sc = 1" and
    sc: "\<forall>n x g. m_get sc n = Some (x, g) \<longrightarrow> n \<in> set (GetServiceNames (call [''search''])) \<and>
      (\<exists>st sr. speaks_for site_snapshot n st \<and> EvScore (Predicate st) = Some sr \<and>
         scTotal sr = x \<and> scGrade sr = g)"
    by (auto simp: site_running_def)
  then obtain n x g where "sc = [(n, (x, g))]" by (auto simp: length_Suc_conv)
  then have "m_get sc n = Some (x, g)" by (simp add: m_get_def)
  with sc have "n \<in> set (GetServiceNames (call [''search'']))"
    "\<exists>st sr. speaks_for site_snapshot n st \<and> EvScore (Predicate st) = Some sr" by blast+
  then show ?thesis by (simp add: GetServiceNames_def call_def)
qed

end
