(* ===== verification/Completion.thy ===== *)
theory Completion
  imports GoStrings
begin

text \<open>
  \<open>cmd/agentgateway-extmcp/completion.go\<close> and the flag set of \<open>main.go\<close> it is generated from: the
  completion scripts for bash, zsh and fish. A flag is its name, its usage and whether its
  value is a boolean.
\<close>

record Flag =
  flName :: string
  flUsage :: string
  flBool :: bool

definition flag_set :: "Flag list" where
  "flag_set = map (\<lambda>(n, us). \<lparr>flName = n, flUsage = us, flBool = False\<rparr>)
     [(''config'', ''configuration file (JSON); required''),
      (''listen'', ''address to serve gRPC on''),
      (''reload-interval'',
       ''re-read the configuration and attestations this often; 0 disables''),
      (''max-bytes'', ''largest attestation accepted, in bytes''),
      (''fetch-timeout'', ''time allowed for one https fetch''),
      (''log-level'', ''debug, info, warn or error''),
      (''completion'', ''print a completion script for bash, zsh or fish, and exit'')]"

definition completionShells :: "string list" where
  "completionShells = [''bash'', ''fish'', ''zsh'']"

definition pathFlags :: "string list" where
  "pathFlags = [''config'']"

definition valueFlags :: "(string \<times> string list) list" where
  "valueFlags =
     [(''completion'', completionShells), (''log-level'', [''debug'', ''info'', ''warn'', ''error''])]"

text \<open>\<open>VisitAll\<close> and the sort: the options in the order of their names.\<close>

definition options :: "Flag list \<Rightarrow> Flag list" where
  "options fs = sort_key flName fs"

definition isBool :: "Flag list \<Rightarrow> string \<Rightarrow> bool" where
  "isBool fs name =
     (case List.find (\<lambda>f. flName f = name) fs of None \<Rightarrow> False | Some f \<Rightarrow> flBool f)"

fun zsh_escape_char :: "char \<Rightarrow> string" where
  "zsh_escape_char c =
     (if c = CHR 0x27 then [CHR 0x27, CHR 0x5C, CHR 0x27, CHR 0x27]
      else if c = CHR ''['' then [CHR 0x5C, CHR ''['']
      else if c = CHR '']'' then [CHR 0x5C, CHR '']'']
      else if c = CHR '':'' then [CHR 0x5C, CHR '':'']
      else [c])"

definition zshEscape :: "string \<Rightarrow> string" where
  "zshEscape s = concat (map zsh_escape_char s)"

abbreviation "dq \<equiv> [CHR 0x22]"
abbreviation "sq \<equiv> [CHR 0x27]"
abbreviation "lf \<equiv> [CHR 0x0A]"
abbreviation "bs \<equiv> [CHR 0x5C]"

definition bash_word :: "Flag \<Rightarrow> string" where
  "bash_word o1 = ''-'' @ flName o1"

definition bash_path_case :: "Flag \<Rightarrow> string" where
  "bash_path_case o1 =
     (if flName o1 \<in> set pathFlags then
        ''    -'' @ flName o1 @ '') COMPREPLY=($(compgen -f -- '' @ dq @ ''$cur'' @ dq @ '')); return ;;'' @ lf
      else [])"

definition bash_value_case :: "(nat \<Rightarrow> bool) \<Rightarrow> Flag \<Rightarrow> string" where
  "bash_value_case u o1 =
     (case map_of valueFlags (flName o1) of
        None \<Rightarrow> []
      | Some ws \<Rightarrow>
          ''    -'' @ flName o1 @ '') COMPREPLY=($(compgen -W '' @ go_quote u (join ws '' '') @ '' -- '' @
          dq @ ''$cur'' @ dq @ '')); return ;;'' @ lf)"

definition bash_cases :: "(nat \<Rightarrow> bool) \<Rightarrow> Flag list \<Rightarrow> string" where
  "bash_cases u opts =
     ''# bash completion for agentgateway-extmcp, generated by agentgateway-extmcp -completion bash'' @ lf @
     ''_agentgateway_extmcp() {'' @ lf @
     ''  local cur='' @ dq @ ''${COMP_WORDS[COMP_CWORD]}'' @ dq @ '' prev='' @ dq @
       ''${COMP_WORDS[COMP_CWORD-1]}'' @ dq @ lf @
     ''  case '' @ dq @ ''$prev'' @ dq @ '' in'' @ lf @
     concat (map bash_path_case opts) @ concat (map (bash_value_case u) opts) @
     ''  esac'' @ lf"

definition bash_script :: "(nat \<Rightarrow> bool) \<Rightarrow> Flag list \<Rightarrow> string" where
  "bash_script u opts =
     bash_cases u opts @
     ''  COMPREPLY=($(compgen -W '' @ go_quote u (join (map bash_word opts) '' '') @ '' -- '' @
       dq @ ''$cur'' @ dq @ ''))'' @ lf @
     ''}'' @ lf @ ''complete -F _agentgateway_extmcp agentgateway-extmcp'' @ lf"

definition zsh_action :: "Flag list \<Rightarrow> string \<Rightarrow> string" where
  "zsh_action fs n =
     (if n \<in> set pathFlags then '':path:_files''
      else case map_of valueFlags n of
        Some ws \<Rightarrow> '':value:('' @ join ws '' '' @ '')''
      | None \<Rightarrow> if \<not> isBool fs n then '':value: '' else [])"

definition zsh_line :: "Flag list \<Rightarrow> Flag \<Rightarrow> string" where
  "zsh_line fs o1 =
     ''  '' @ sq @ ''-'' @ flName o1 @ ''['' @ zshEscape (flUsage o1) @ '']'' @
     zsh_action fs (flName o1) @ sq @ '' '' @ bs @ lf"

definition zsh_script :: "Flag list \<Rightarrow> Flag list \<Rightarrow> string" where
  "zsh_script fs opts =
     ''#compdef agentgateway-extmcp'' @ lf @
     ''# zsh completion for agentgateway-extmcp, generated by agentgateway-extmcp -completion zsh'' @ lf @
     ''_arguments '' @ bs @ lf @
     concat (map (zsh_line fs) opts) @ ''  && return 0'' @ lf"

definition fish_extra :: "(nat \<Rightarrow> bool) \<Rightarrow> Flag list \<Rightarrow> string \<Rightarrow> string" where
  "fish_extra u fs n =
     (if n \<in> set pathFlags then '' -r -F''
      else case map_of valueFlags n of
        Some ws \<Rightarrow> '' -x -a '' @ go_quote u (join ws '' '')
      | None \<Rightarrow> if \<not> isBool fs n then '' -x'' else [])"

definition fish_line :: "(nat \<Rightarrow> bool) \<Rightarrow> Flag list \<Rightarrow> Flag \<Rightarrow> string" where
  "fish_line u fs o1 =
     ''complete -c agentgateway-extmcp -o '' @ flName o1 @ '' -d '' @ go_quote u (flUsage o1) @
     fish_extra u fs (flName o1) @ lf"

definition fish_script :: "(nat \<Rightarrow> bool) \<Rightarrow> Flag list \<Rightarrow> Flag list \<Rightarrow> string" where
  "fish_script u fs opts =
     ''# fish completion for agentgateway-extmcp, generated by agentgateway-extmcp -completion fish'' @ lf @
     concat (map (fish_line u fs) opts)"

text \<open>What is written, or the error text; whether the writer takes it is not modelled.\<close>

definition writeCompletion :: "(nat \<Rightarrow> bool) \<Rightarrow> Flag list \<Rightarrow> string \<Rightarrow> string + string" where
  "writeCompletion u fs shell =
     (let opts = options fs in
      if shell = ''bash'' then Inr (bash_script u opts)
      else if shell = ''zsh'' then Inr (zsh_script fs opts)
      else if shell = ''fish'' then Inr (fish_script u fs opts)
      else Inl (''-completion takes one of '' @ join completionShells '', '' @ '', not '' @
        go_quote u shell))"

subsection \<open>What the scripts hold\<close>

text \<open>
  Reading an escaped usage back the way \<open>_arguments\<close> does inside single quotes: a backslash
  protects the next character, and \<open>'\''\<close> is a quote.
\<close>

fun zsh_unescape :: "string \<Rightarrow> string" where
  "zsh_unescape [] = []"
| "zsh_unescape (c # s) =
     (if c = CHR 0x27 then
        (case s of
           b # q # q' # s' \<Rightarrow> if [b, q, q'] = [CHR 0x5C, CHR 0x27, CHR 0x27] then q # zsh_unescape s' else []
         | _ \<Rightarrow> [])
      else if c = CHR 0x5C then (case s of d # s' \<Rightarrow> d # zsh_unescape s' | [] \<Rightarrow> [])
      else c # zsh_unescape s)"

lemma contains_appendL: "contains b x \<Longrightarrow> contains (a @ b) x"
  unfolding contains_iff by (metis append.assoc)

lemma contains_appendR: "contains a x \<Longrightarrow> contains (a @ b) x"
  unfolding contains_iff by (metis append.assoc)

lemma contains_self [simp]: "contains x x"
  unfolding contains_iff by (metis append_Nil append_Nil2)

lemma contains_concat:
  assumes "y \<in> set ys" "contains y x"
  shows "contains (concat ys) x"
proof -
  obtain a b where "ys = a @ y # b" using assms(1) by (meson split_list)
  then have "concat ys = concat a @ y @ concat b" by simp
  then show ?thesis using assms(2) by (metis contains_appendL contains_appendR)
qed

lemma set_options [simp]: "set (options fs) = set fs"
  by (simp add: options_def)

lemma contains_concat_map: "f \<in> set fs \<Longrightarrow> contains (concat (map g (options fs))) (g f)"
  by (rule contains_concat [of "g f"]) simp_all

lemma fish_line_contained:
  "f \<in> set fs \<Longrightarrow> contains (fish_script u fs (options fs)) (fish_line u fs f)"
  unfolding fish_script_def
  by (intro contains_appendL contains_concat_map)

lemma zsh_line_contained:
  "f \<in> set fs \<Longrightarrow> contains (zsh_script fs (options fs)) (zsh_line fs f)"
  unfolding zsh_script_def
  by (rule contains_appendL, rule contains_appendL, rule contains_appendL, rule contains_appendL,
      rule contains_appendL, rule contains_appendL, rule contains_appendL, rule contains_appendR,
      rule contains_concat_map)

text \<open>The order in which flags are declared does not show.\<close>

lemma options_order_free:
  "mset fs = mset gs \<Longrightarrow> distinct (map flName fs) \<Longrightarrow> options fs = options gs"
  unfolding options_def
  by (rule sort_key_inj_key_eq) (simp_all add: distinct_map)

lemma find_name:
  "distinct (map flName fs) \<Longrightarrow>
   List.find (\<lambda>f. flName f = n) fs = Some f \<longleftrightarrow> f \<in> set fs \<and> flName f = n"
  by (induction fs) auto

lemma isBool_order_free:
  assumes "mset fs = mset gs" "distinct (map flName fs)"
  shows "isBool fs = isBool gs"
proof -
  have d: "distinct (map flName gs)"
    using assms by (metis mset_eq_imp_distinct_iff mset_map)
  have "List.find (\<lambda>f. flName f = n) fs = List.find (\<lambda>f. flName f = n) gs" for n
    using find_name [OF assms(2)] find_name [OF d] mset_eq_setD [OF assms(1)]
    by (metis option.exhaust)
  then show ?thesis by (simp add: isBool_def fun_eq_iff)
qed

subsection \<open>Printable text in quotes\<close>

text \<open>Printable ASCII without a quote or a backslash is quoted as it is.\<close>

definition plain :: "string \<Rightarrow> bool" where
  "plain s \<longleftrightarrow>
     list_all (\<lambda>c. 0x20 \<le> byte_of c \<and> byte_of c < 0x7F \<and> byte_of c \<noteq> 0x22 \<and> byte_of c \<noteq> 0x5C) s"

lemma quote_body_plain: "plain s \<Longrightarrow> quote_body u s = s"
proof (induction s)
  case Nil
  then show ?case by (simp add: quote_body.simps)
next
  case (Cons c s)
  then have "decode_rune (c # s) = (byte_of c, 1)" "byte_of c \<noteq> rune_error"
    "quote_rune u (byte_of c) [c] = [c]"
    by (simp_all add: plain_def decode_rune_def rune_error_def quote_rune_def is_print_def)
  with Cons show ?case by (subst quote_body.simps) (simp add: plain_def)
qed

lemma plain_append [simp]: "plain (a @ b) \<longleftrightarrow> plain a \<and> plain b"
  by (simp add: plain_def)

lemma plain_join: "plain sep \<Longrightarrow> \<forall>x\<in>set xs. plain x \<Longrightarrow> plain (join xs sep)"
  by (induction xs sep rule: join.induct) (simp_all add: plain_def)

lemma contains_join: "x \<in> set xs \<Longrightarrow> contains (join xs sep) x"
proof (induction xs sep rule: join.induct)
  case (3 y z ys sep)
  show ?case
  proof (cases "x = y")
    case True
    then show ?thesis by (simp add: contains_appendR)
  next
    case False
    with 3 have "contains (join (z # ys) sep) x" by simp
    then show ?thesis by (simp add: contains_appendL)
  qed
qed simp_all

lemma bash_word_contained:
  assumes "f \<in> set fs" "\<forall>g\<in>set fs. plain (flName g)"
  shows "contains (bash_script u (options fs)) (bash_word f)"
proof -
  let ?j = "join (map bash_word (options fs)) '' ''"
  have "plain ?j"
    using assms(2) by (intro plain_join) (auto simp: bash_word_def plain_def byte_of_def)
  moreover have "contains ?j (bash_word f)" using assms(1) by (intro contains_join) simp
  ultimately have "contains (go_quote u ?j) (bash_word f)"
    unfolding go_quote_def by (simp only: quote_body_plain contains_appendL contains_appendR)
  then show ?thesis
    unfolding bash_script_def
    by (rule contains_appendL [OF contains_appendL [OF contains_appendR]])
qed

end
