(* ===== verification/NumberText.thy ===== *)
theory NumberText
  imports JsonDecode JsonWrite
begin

text \<open>
  Decimal digits written and read: \<open>show_nat\<close> and \<open>show_int\<close> against the number grammar of JSON
  and the conversions of the decoder, and the zero-padded form the time format uses.
\<close>

subsection \<open>Digits\<close>

lemma digit_char:
  assumes "n < 10"
  shows "is_digit (char_of (48 + n)) \<and> digit_val (char_of (48 + n)) = n \<and>
    (char_of (48 + n) = CHR ''0'' \<longleftrightarrow> n = 0)"
proof -
  have "list_all (\<lambda>n. is_digit (char_of (48 + n)) \<and> digit_val (char_of (48 + n)) = n \<and>
      (char_of (48 + n) = CHR ''0'' \<longleftrightarrow> n = 0)) [0..<10]" by code_simp
  with assms show ?thesis by (simp add: list_all_iff)
qed

lemma show_nat_small: "n < 10 \<Longrightarrow> show_nat n = [char_of (48 + n)]"
  by (simp add: show_nat.simps)

lemma show_nat_large: "10 \<le> n \<Longrightarrow> show_nat n = show_nat (n div 10) @ [char_of (48 + n mod 10)]"
  by (subst show_nat.simps) simp

lemma dec_digits_snoc: "dec_digits (ds @ [c]) = 10 * dec_digits ds + int (digit_val c)"
  by (simp add: dec_digits_def)

lemma dec_digits_Nil [simp]: "dec_digits [] = 0"
  by (simp add: dec_digits_def)

lemma dec_digits_append: "dec_digits (a @ b) = dec_digits a * 10 ^ length b + dec_digits b"
proof (induction b rule: rev_induct)
  case (snoc c b)
  have "dec_digits (a @ b @ [c]) = 10 * dec_digits (a @ b) + int (digit_val c)"
    using dec_digits_snoc [of "a @ b" c] by simp
  with snoc show ?case by (simp add: dec_digits_snoc algebra_simps)
qed simp

lemma show_nat_digits:
  "list_all is_digit (show_nat n) \<and> show_nat n \<noteq> [] \<and> dec_digits (show_nat n) = int n \<and>
   (hd (show_nat n) = CHR ''0'' \<longleftrightarrow> n = 0)"
proof (induction n rule: show_nat.induct)
  case (1 n)
  show ?case
  proof (cases "n < 10")
    case True
    with digit_char [OF True] show ?thesis by (simp add: show_nat_small dec_digits_def)
  next
    case False
    then have "n div 10 \<noteq> 0" by simp
    moreover have "10 * int (n div 10) + int (n mod 10) = int n" by presburger
    ultimately show ?thesis using 1 False digit_char [of "n mod 10"]
      by (auto simp: show_nat_large dec_digits_snoc list_all_append)
  qed
qed

lemma length_show_nat: "0 < w \<Longrightarrow> length (show_nat n) \<le> w \<longleftrightarrow> n < 10 ^ w"
proof (induction n arbitrary: w rule: show_nat.induct)
  case (1 n)
  show ?case
  proof (cases "n < 10")
    case True
    have "(10 :: nat) ^ 1 \<le> 10 ^ w" using 1(2) by (intro power_increasing) simp_all
    with True 1(2) show ?thesis by (simp add: show_nat_small)
  next
    case False
    then obtain v where w: "w = Suc v" using 1(2) by (cases w) auto
    show ?thesis
    proof (cases "v = 0")
      case True
      with False w show_nat_digits [of "n div 10"] show ?thesis by (simp add: show_nat_large)
    next
      case v: False
      with 1(1) [OF False, of v] False w show ?thesis
        by (simp add: show_nat_large div_less_iff_less_mult mult.commute)
    qed
  qed
qed

lemma zeros_digits: "list_all is_digit (zeros n)" "dec_digits (zeros n) = 0" "length (zeros n) = n"
proof -
  show "dec_digits (zeros n) = 0"
  proof (induction n)
    case (Suc n)
    have "zeros (Suc n) = [CHR ''0''] @ zeros n" by (simp add: zeros_def)
    with Suc show ?case by (simp only: dec_digits_append) (simp add: dec_digits_def digit_val_def byte_of_def)
  qed (simp add: zeros_def)
qed (simp_all add: zeros_def list_all_iff is_digit_def)

lemma dec_digits_strip:
  "dec_digits ds = dec_digits (strip_zeros ds) * 10 ^ (length ds - length (strip_zeros ds))"
  "\<exists>n. ds = strip_zeros ds @ zeros n"
proof -
  let ?t = "takeWhile (\<lambda>c. c = CHR ''0'') (rev ds)"
  have "?t = zeros (length ?t)"
    unfolding zeros_def by (rule replicate_eqI) (auto dest: set_takeWhileD)
  then have "rev ?t = zeros (length ?t)" by (metis rev_replicate zeros_def)
  moreover have "ds = strip_zeros ds @ rev ?t"
    unfolding strip_zeros_def rev_append [symmetric] by (simp only: takeWhile_dropWhile_id rev_rev_ident)
  ultimately have e: "ds = strip_zeros ds @ zeros (length ?t)" by metis
  then show "\<exists>n. ds = strip_zeros ds @ zeros n" by blast
  have "dec_digits ds = dec_digits (strip_zeros ds @ zeros (length ?t))" using e by simp
  moreover have "length ds - length (strip_zeros ds) = length ?t"
    using arg_cong [OF e, of length] by (simp add: zeros_digits)
  ultimately show "dec_digits ds = dec_digits (strip_zeros ds) * 10 ^ (length ds - length (strip_zeros ds))"
    by (simp add: dec_digits_append zeros_digits)
qed

lemma strip_zeros_Nil: "strip_zeros ds = [] \<Longrightarrow> dec_digits ds = 0"
  using dec_digits_strip(1) [of ds] by simp

lemma strip_zeros_digits: "list_all is_digit ds \<Longrightarrow> list_all is_digit (strip_zeros ds)"
  by (auto simp: list_all_iff strip_zeros_def dest: set_dropWhileD)

subsection \<open>Integers\<close>

lemma scan_digits_all:
  "list_all is_digit ds \<Longrightarrow> r = [] \<or> \<not> is_digit (hd r) \<Longrightarrow> scan_digits (ds @ r) = (ds, r)"
  by (cases r) (auto simp: scan_digits_def list_all_iff takeWhile_append dropWhile_append)

lemma scan_int_digits:
  assumes "list_all is_digit ds" "ds \<noteq> []" "hd ds \<noteq> CHR ''0'' \<or> ds = ''0''" "r = [] \<or> \<not> is_digit (hd r)"
  shows "scan_int (ds @ r) = Some (ds, r)"
  using assms scan_digits_all [OF assms(1,4)] by (cases ds) (auto simp: scan_int_def)

lemma show_nat_zero: "hd (show_nat n) \<noteq> CHR ''0'' \<or> show_nat n = ''0''"
  using show_nat_digits [of n] by (cases "n = 0") (simp_all add: show_nat_small char_of_def)

lemma scan_sign_digits: "list_all is_digit ds \<Longrightarrow> ds \<noteq> [] \<Longrightarrow> scan_sign (ds @ r) = ([], ds @ r)"
  by (cases ds) (auto simp: scan_sign_def is_digit_def)

lemma scan_show_int: "scan_number (show_int i) = Some (show_int i, [])"
proof -
  have "scan_int (show_nat n) = Some (show_nat n, [])" for n
    using scan_int_digits [of "show_nat n" "[]"] show_nat_digits [of n] show_nat_zero [of n] by simp
  moreover have "scan_sign (show_nat n) = ([], show_nat n)" for n
    using scan_sign_digits [of "show_nat n" "[]"] show_nat_digits [of n] by simp
  ultimately show ?thesis
    by (simp add: scan_number_def show_int_def scan_sign_def scan_frac_def scan_exp_def)
qed

definition int64 :: "int \<Rightarrow> bool" where
  "int64 i \<longleftrightarrow> - (2 ^ 63) \<le> i \<and> i < 2 ^ 63"

lemma parse_show_int: "int64 i \<Longrightarrow> parse_int (show_int i) = Some i"
  using show_nat_digits [of "nat i"] show_nat_digits [of "nat (- i)"]
    scan_sign_digits [of "show_nat (nat i)" "[]"]
  by (auto simp: parse_int_def show_int_def int64_def scan_sign_def Let_def)

lemma scalar_number:
  assumes "scan_number l = Some (l, [])"
  shows "scalar l = Some (JNum l, [])"
proof -
  from scan_number_consumes [OF assms] scan_number_chars [OF assms]
  obtain c u where l: "l = c # u" "number_char c" by (cases l) auto
  then have "c \<noteq> CHR 0x22" "c \<noteq> CHR ''t''" "c \<noteq> CHR ''f''" "c \<noteq> CHR ''n''"
    by (auto simp: number_char_def is_digit_def)
  with assms show ?thesis by (simp add: l(1) scalar_def)
qed

subsection \<open>Padding\<close>

text \<open>\<open>appendInt\<close> of package \<open>time\<close>.\<close>

definition append_int :: "nat \<Rightarrow> nat \<Rightarrow> bytes" where
  "append_int w n = zeros (w - length (show_nat n)) @ show_nat n"

lemma append_int_digits:
  "list_all is_digit (append_int w n)" "dec_digits (append_int w n) = int n"
  "0 < w \<Longrightarrow> n < 10 ^ w \<Longrightarrow> length (append_int w n) = w"
  using show_nat_digits [of n] length_show_nat [of w n]
  by (simp_all add: append_int_def zeros_digits dec_digits_append list_all_append)

end
