(* ===== verification/FlagParse.thy ===== *)
theory FlagParse
  imports Completion Loading NumberText
begin

text \<open>
  The command line of \<open>cmd/agentgateway-extmcp/main.go\<close>: \<open>flag.FlagSet.Parse\<close> on the seven flags
  \<open>run\<close> declares, with the values they take (\<open>strconv.ParseInt\<close> in base 0,
  \<open>time.ParseDuration\<close>), and what the parser accepts as a grammar. What it prints about an error
  and its usage are left out.
\<close>

subsection \<open>Integers\<close>

datatype num_error = NumSyntax | NumRange

definition digit_of :: "char \<Rightarrow> int option" where
  "digit_of c =
     (let b = int (byte_of c) in
      if 48 \<le> b \<and> b \<le> 57 then Some (b - 48)
      else if 97 \<le> b \<and> b \<le> 122 then Some (b - 87)
      else if 65 \<le> b \<and> b \<le> 90 then Some (b - 55)
      else None)"

text \<open>The loop of \<open>ParseUint\<close>: its two overflow checks are one condition on the unbounded sum.\<close>

fun uint_loop :: "int \<Rightarrow> bytes \<Rightarrow> int \<Rightarrow> num_error + int" where
  "uint_loop base [] n = Inr n"
| "uint_loop base (c # s) n =
     (if c = CHR ''_'' then uint_loop base s n
      else case digit_of c of
        None \<Rightarrow> Inl NumSyntax
      | Some d \<Rightarrow>
          if base \<le> d then Inl NumSyntax
          else if 2 ^ 64 \<le> n * base + d then Inl NumRange
          else uint_loop base s (n * base + d))"

text \<open>
  The base prefix, and what is left to read. A single zero before the digits is the octal
  prefix.
\<close>

definition base_prefix :: "bytes \<Rightarrow> int \<times> bytes" where
  "base_prefix s =
     (if hd s \<noteq> CHR ''0'' then (10, s)
      else if 3 \<le> length s \<and> s ! 1 \<in> {CHR ''b'', CHR ''B''} then (2, drop 2 s)
      else if 3 \<le> length s \<and> s ! 1 \<in> {CHR ''o'', CHR ''O''} then (8, drop 2 s)
      else if 3 \<le> length s \<and> s ! 1 \<in> {CHR ''x'', CHR ''X''} then (16, drop 2 s)
      else (8, tl s))"

text \<open>\<open>underscoreOK\<close>: what was seen last is a digit, an underscore or something else.\<close>

datatype seen = SeenNothing | SeenDigit | SeenUnderscore | SeenOther

fun underscores :: "bool \<Rightarrow> seen \<Rightarrow> bytes \<Rightarrow> bool" where
  "underscores hex saw [] \<longleftrightarrow> saw \<noteq> SeenUnderscore"
| "underscores hex saw (c # s) =
     (if is_digit c \<or> hex \<and> c \<in> set ''abcdefABCDEF'' then underscores hex SeenDigit s
      else if c = CHR ''_'' then saw = SeenDigit \<and> underscores hex SeenUnderscore s
      else saw \<noteq> SeenUnderscore \<and> underscores hex SeenOther s)"

definition underscoreOK :: "bytes \<Rightarrow> bool" where
  "underscoreOK s =
     (if 2 \<le> length s \<and> hd s = CHR ''0'' \<and> s ! 1 \<in> set ''bBoOxX''
      then underscores (s ! 1 \<in> set ''xX'') SeenDigit (drop 2 s)
      else underscores False SeenNothing s)"

definition ParseUint :: "bytes \<Rightarrow> num_error + int" where
  "ParseUint s =
     (if s = [] then Inl NumSyntax
      else case base_prefix s of (base, r) \<Rightarrow>
        (case uint_loop base r 0 of
           Inl e \<Rightarrow> Inl e
         | Inr n \<Rightarrow> if CHR ''_'' \<in> set r \<and> \<not> underscoreOK s then Inl NumSyntax else Inr n))"

definition ParseInt :: "bytes \<Rightarrow> num_error + int" where
  "ParseInt s =
     (let neg = (s \<noteq> [] \<and> hd s = CHR ''-'');
          r = (if s \<noteq> [] \<and> hd s \<in> {CHR ''+'', CHR ''-''} then tl s else s) in
      case ParseUint r of
        Inl e \<Rightarrow> Inl e
      | Inr n \<Rightarrow>
          if \<not> neg \<and> 2 ^ 63 \<le> n then Inl NumRange
          else if neg \<and> 2 ^ 63 < n then Inl NumRange
          else Inr (if neg then - n else n))"

subsection \<open>Durations\<close>

text \<open>\<open>None\<close> is the overflow of \<open>leadingInt\<close>; the digits of a fraction that overflow are skipped.\<close>

fun leadingInt :: "bytes \<Rightarrow> int \<Rightarrow> (int \<times> bytes) option" where
  "leadingInt [] x = Some (x, [])"
| "leadingInt (c # s) x =
     (if \<not> is_digit c then Some (x, c # s)
      else if 2 ^ 63 div 10 < x then None
      else if 2 ^ 63 < x * 10 + int (digit_val c) then None
      else leadingInt s (x * 10 + int (digit_val c)))"

fun leadingFraction :: "bool \<Rightarrow> bytes \<Rightarrow> int \<Rightarrow> int \<Rightarrow> int \<times> int \<times> bytes" where
  "leadingFraction over [] x scale = (x, scale, [])"
| "leadingFraction over (c # s) x scale =
     (if \<not> is_digit c then (x, scale, c # s)
      else if over then leadingFraction True s x scale
      else if (2 ^ 63 - 1) div 10 < x then leadingFraction True s x scale
      else if 2 ^ 63 < x * 10 + int (digit_val c) then leadingFraction True s x scale
      else leadingFraction False s (x * 10 + int (digit_val c)) (scale * 10))"

definition unitMap :: "(bytes \<times> int) list" where
  "unitMap =
     [(''ns'', 1), (''us'', 1000), ([CHR 0xC2, CHR 0xB5, CHR ''s''], 1000),
      ([CHR 0xCE, CHR 0xBC, CHR ''s''], 1000), (''ms'', 1000000), (''s'', 1000000000),
      (''m'', 60 * 1000000000), (''h'', 3600 * 1000000000)]"

definition unit_char :: "char \<Rightarrow> bool" where
  "unit_char c \<longleftrightarrow> c \<noteq> CHR ''.'' \<and> \<not> is_digit c"

fun f64_value :: "float64 \<Rightarrow> rat" where
  "f64_value (Fin q) = q"
| "f64_value _ = 0"

text \<open>\<open>uint64(float64(f) * (float64(unit) / scale))\<close>, rounded at each operation.\<close>

definition fraction_of :: "int \<Rightarrow> int \<Rightarrow> int \<Rightarrow> int" where
  "fraction_of f scale unit =
     \<lfloor>f64_value (f64_of_rat
        (f64_value (f64_of_rat (of_int f)) * f64_value (f64_of_rat (of_int unit / of_int scale))))\<rfloor>"

text \<open>One number and its unit: the nanoseconds and the rest.\<close>

definition duration_term :: "bytes \<Rightarrow> (int \<times> bytes) option" where
  "duration_term s =
     (if s = [] \<or> \<not> (hd s = CHR ''.'' \<or> is_digit (hd s)) then None
      else case leadingInt s 0 of
        None \<Rightarrow> None
      | Some (v, s1) \<Rightarrow>
          (let pre = (length s1 \<noteq> length s);
               point = (s1 \<noteq> [] \<and> hd s1 = CHR ''.'');
               (f, scale, s2) = (if point then leadingFraction False (tl s1) 0 1 else (0, 1, s1));
               post = (point \<and> length s2 \<noteq> length (tl s1));
               u = takeWhile unit_char s2 in
           if \<not> pre \<and> \<not> post then None
           else if u = [] then None
           else case map_of unitMap u of
             None \<Rightarrow> None
           | Some unit \<Rightarrow>
               if 2 ^ 63 div unit < v then None
               else
                 (let w = (if 0 < f then v * unit + fraction_of f scale unit else v * unit) in
                  if 0 < f \<and> 2 ^ 63 < w then None else Some (w, dropWhile unit_char s2))))"

lemma leadingInt_length: "leadingInt s x = Some (v, r) \<Longrightarrow> length r \<le> length s"
  by (induction s x rule: leadingInt.induct) (auto split: if_splits)

lemma leadingFraction_length: "leadingFraction b s x k = (f, z, r) \<Longrightarrow> length r \<le> length s"
  by (induction b s x k rule: leadingFraction.induct) (auto simp: le_Suc_eq split: if_splits)

lemma duration_term_shorter: "duration_term s = Some (w, r) \<Longrightarrow> length r < length s"
proof -
  assume t: "duration_term s = Some (w, r)"
  then obtain v s1 where l: "leadingInt s 0 = Some (v, s1)"
    by (auto simp: duration_term_def split: if_splits option.splits)
  obtain f z s2 where
    x: "(if s1 \<noteq> [] \<and> hd s1 = CHR ''.'' then leadingFraction False (tl s1) 0 1 else (0, 1, s1)) = (f, z, s2)"
    by (rule prod_cases3)
  have "r = dropWhile unit_char s2" "takeWhile unit_char s2 \<noteq> []"
    using t l x by (auto simp: duration_term_def Let_def split: if_splits option.splits)
  then have "length r < length s2"
    by (cases s2) (auto split: if_splits intro: le_imp_less_Suc length_dropWhile_le)
  moreover have "length s2 \<le> length s1"
    using x leadingFraction_length [of False "tl s1" 0 1 f z s2] by (cases s1) (auto split: if_splits)
  ultimately show ?thesis using leadingInt_length [OF l] by simp
qed

text \<open>The sum of the terms is of 64 bits, and wraps.\<close>

function duration_sum :: "bytes \<Rightarrow> int \<Rightarrow> int option" where
  "duration_sum s d =
     (if s = [] then Some d
      else case duration_term s of
        None \<Rightarrow> None
      | Some (v, r) \<Rightarrow>
          if 2 ^ 63 < (d + v) mod 2 ^ 64 then None else duration_sum r ((d + v) mod 2 ^ 64))"
  by pat_completeness auto
termination
  by (relation "measure (\<lambda>(s, d). length s)") (auto dest: duration_term_shorter)

declare duration_sum.simps [simp del]

definition ParseDuration :: "bytes \<Rightarrow> int option" where
  "ParseDuration s =
     (let neg = (s \<noteq> [] \<and> hd s = CHR ''-'');
          r = (if s \<noteq> [] \<and> hd s \<in> {CHR ''+'', CHR ''-''} then tl s else s) in
      if r = ''0'' then Some 0
      else if r = [] then None
      else case duration_sum r 0 of
        None \<Rightarrow> None
      | Some d \<Rightarrow> if neg then Some (- d) else if 2 ^ 63 - 1 < d then None else Some d)"

subsection \<open>The flags\<close>

record Options =
  opConfig :: string
  opListen :: string
  opInterval :: int
  opMaxBytes :: int64
  opTimeout :: int
  opLevel :: string
  opCompletion :: string

definition default_options :: Options where
  "default_options =
     \<lparr>opConfig = [], opListen = ''127.0.0.1:4400'', opInterval = 0, opMaxBytes = DefaultMaxBytes,
      opTimeout = DefaultTimeout, opLevel = ''info'', opCompletion = []\<rparr>"

text \<open>\<open>Set\<close> of the flag of that name.\<close>

datatype value_error = ParseFailed | OutOfRange

definition set_flag :: "string \<Rightarrow> bytes \<Rightarrow> Options \<Rightarrow> value_error + Options" where
  "set_flag n x op =
     (if n = ''config'' then Inr (op\<lparr>opConfig := x\<rparr>)
      else if n = ''listen'' then Inr (op\<lparr>opListen := x\<rparr>)
      else if n = ''reload-interval'' then
        (case ParseDuration x of None \<Rightarrow> Inl ParseFailed | Some d \<Rightarrow> Inr (op\<lparr>opInterval := d\<rparr>))
      else if n = ''max-bytes'' then
        (case ParseInt x of
           Inl NumSyntax \<Rightarrow> Inl ParseFailed
         | Inl NumRange \<Rightarrow> Inl OutOfRange
         | Inr i \<Rightarrow> Inr (op\<lparr>opMaxBytes := of_int i\<rparr>))
      else if n = ''fetch-timeout'' then
        (case ParseDuration x of None \<Rightarrow> Inl ParseFailed | Some d \<Rightarrow> Inr (op\<lparr>opTimeout := d\<rparr>))
      else if n = ''log-level'' then Inr (op\<lparr>opLevel := x\<rparr>)
      else Inr (op\<lparr>opCompletion := x\<rparr>))"

datatype flag_error =
    HelpRequested
  | BadFlagSyntax string
  | UndefinedFlag string
  | NeedsArgument string
  | InvalidValue string string value_error

definition flag_error_text :: "(nat \<Rightarrow> bool) \<Rightarrow> flag_error \<Rightarrow> string" where
  "flag_error_text u e =
     (case e of
        HelpRequested \<Rightarrow> ''flag: help requested''
      | BadFlagSyntax s \<Rightarrow> ''bad flag syntax: '' @ s
      | UndefinedFlag n \<Rightarrow> ''flag provided but not defined: -'' @ n
      | NeedsArgument n \<Rightarrow> ''flag needs an argument: -'' @ n
      | InvalidValue x n v \<Rightarrow>
          ''invalid value '' @ go_quote u x @ '' for flag -'' @ n @ '': '' @
          (case v of ParseFailed \<Rightarrow> ''parse error'' | OutOfRange \<Rightarrow> ''value out of range''))"

text \<open>
  One argument: it ends the flags, it is no flag at all, or it names one, with its value or
  without.
\<close>

datatype argument =
    Ends
  | Malformed
  | Names string "string option"

definition flag_word :: "string \<Rightarrow> argument" where
  "flag_word w =
     (case cut w (CHR ''='') of (n, x) \<Rightarrow> Names n (if CHR ''='' \<in> set w then Some x else None))"

definition argument_of :: "string \<Rightarrow> argument" where
  "argument_of s =
     (if length s < 2 \<or> hd s \<noteq> CHR ''-'' then Ends
      else if s = ''--'' then Ends
      else
        (let w = (if s ! 1 = CHR ''-'' then drop 2 s else tl s) in
         if w = [] \<or> hd w = CHR ''-'' \<or> hd w = CHR ''='' then Malformed
         else flag_word w))"

definition flag_names :: "string list" where
  "flag_names = map flName flag_set"

text \<open>\<open>Parse\<close>, one round of the loop per flag; what follows the flags is not read.\<close>

fun parse_args :: "string list \<Rightarrow> Options \<Rightarrow> flag_error + Options" where
  "parse_args [] op = Inr op"
| "parse_args (s # rest) op =
     (case argument_of s of
        Ends \<Rightarrow> Inr op
      | Malformed \<Rightarrow> Inl (BadFlagSyntax s)
      | Names n v \<Rightarrow>
          if n \<notin> set flag_names then
            Inl (if n = ''help'' \<or> n = ''h'' then HelpRequested else UndefinedFlag n)
          else
            (case v of
               Some x \<Rightarrow>
                 (case set_flag n x op of
                    Inl e \<Rightarrow> Inl (InvalidValue x n e)
                  | Inr op' \<Rightarrow> parse_args rest op')
             | None \<Rightarrow>
                 (case rest of
                    [] \<Rightarrow> Inl (NeedsArgument n)
                  | x # rest' \<Rightarrow>
                      (case set_flag n x op of
                         Inl e \<Rightarrow> Inl (InvalidValue x n e)
                       | Inr op' \<Rightarrow> parse_args rest' op'))))"

definition parse_flags :: "string list \<Rightarrow> flag_error + Options" where
  "parse_flags args = parse_args args default_options"

end
