(* ===== verification/Daemon.thy ===== *)
theory Daemon
  imports GateServer FlagParse
begin

text \<open>
  The command \<open>cmd/agentgateway-extmcp/main.go\<close>: the start-up order of \<open>run\<close>, the reload loop
  \<open>reloadOn\<close>, and the whole process as a step relation in which signals, timer ticks, the
  reloader and the request handlers interleave.

  Opening the listener is an argument: \<open>lis\<close> is its error, if any.
\<close>

subsection \<open>The log level\<close>

text \<open>
  \<open>slog.Level.UnmarshalText\<close>: a name in any case, then an optional signed offset. The only other
  rune that has an upper case in these names is the dotless i.
\<close>

fun upper_name :: "string \<Rightarrow> string" where
  "upper_name (a # b # s) =
     (if [a, b] = [CHR 0xC4, CHR 0xB1] then CHR ''I'' # upper_name s else upper a # upper_name (b # s))"
| "upper_name [a] = [upper a]"
| "upper_name [] = []"

definition level_of :: "string \<Rightarrow> int option" where
  "level_of n = map_of [(''DEBUG'', - 4), (''INFO'', 0), (''WARN'', 4), (''ERROR'', 8)] (upper_name n)"

definition is_sign :: "char \<Rightarrow> bool" where
  "is_sign c \<longleftrightarrow> c = CHR ''+'' \<or> c = CHR ''-''"

definition atoi :: "bytes \<Rightarrow> int option" where
  "atoi s =
     (case s of
        [] \<Rightarrow> None
      | c # r \<Rightarrow> if c = CHR ''+'' then (case r of [] \<Rightarrow> None | d # _ \<Rightarrow> if is_digit d then parse_int r else None)
                 else parse_int s)"

definition parse_level :: "string \<Rightarrow> int option" where
  "parse_level s =
     (let name = takeWhile (\<lambda>c. \<not> is_sign c) s; off = dropWhile (\<lambda>c. \<not> is_sign c) s in
      if off = [] then level_of name
      else case atoi off of
        None \<Rightarrow> None
      | Some k \<Rightarrow> map_option (\<lambda>l. l + k) (level_of name))"

subsection \<open>Start-up\<close>

datatype run_error =
    FlagError flag_error
  | CompletionError string
  | ConfigRequired
  | BadLogLevel string
  | StartReload reload_error
  | ListenError string

datatype start =
    Fails run_error
  | Prints string
  | Serves Store

definition run ::
  "(nat \<Rightarrow> bool) \<Rightarrow> (nat \<Rightarrow> World) \<Rightarrow> (string \<Rightarrow> string option) \<Rightarrow> string list \<Rightarrow> start" where
  "run u ws lis args =
     (case parse_flags args of
        Inl e \<Rightarrow> Fails (FlagError e)
      | Inr op \<Rightarrow>
          if opCompletion op \<noteq> [] then
            (case writeCompletion u flag_set (opCompletion op) of
               Inl e \<Rightarrow> Fails (CompletionError e)
             | Inr out \<Rightarrow> Prints out)
          else if opConfig op = [] then Fails ConfigRequired
          else if parse_level (opLevel op) = None then Fails (BadLogLevel (opLevel op))
          else
            (let store = NewStore (opConfig op)
                   (Some \<lparr>ldMaxBytes = opMaxBytes op, ldTimeout = opTimeout op\<rparr>) in
             case Reload ws store of
               (Some e, _) \<Rightarrow> Fails (StartReload e)
             | (None, store') \<Rightarrow>
                 (case lis (opListen op) of
                    Some e \<Rightarrow> Fails (ListenError e)
                  | None \<Rightarrow> Serves store')))"

text \<open>
  The exit status of \<open>main\<close>: a server that runs ends when the context is cancelled, or with the
  error of \<open>Serve\<close>.
\<close>

datatype ending = ContextDone | ServeFailed string

definition main_exit :: "start \<Rightarrow> ending \<Rightarrow> nat" where
  "main_exit st how =
     (case st of
        Fails e \<Rightarrow> 1
      | Prints out \<Rightarrow> 0
      | Serves s \<Rightarrow> (case how of ContextDone \<Rightarrow> 0 | ServeFailed e \<Rightarrow> 1))"

subsection \<open>The reload loop\<close>

text \<open>What woke the loop, and what the outside answers to the reload it starts.\<close>

datatype trigger = SIGHUP | Interval

type_synonym wakeup = "trigger \<times> (nat \<Rightarrow> World)"

text \<open>\<open>reloadOn\<close> over the wake-ups of a run; an error is logged and the loop goes on.\<close>

fun reloadOn :: "wakeup list \<Rightarrow> Store \<Rightarrow> Store" where
  "reloadOn [] s = s"
| "reloadOn ((why, ws) # rest) s =
     (case Reload ws s of
        (Some e, s') \<Rightarrow> reloadOn rest s'
      | (None, s') \<Rightarrow> reloadOn rest s')"

text \<open>
  The interface between the loop and the thing it reloads: a reload that fails leaves it as it
  was, one that succeeds leaves it loaded and good.
\<close>

locale reloadable =
  fixes reload :: "'w \<Rightarrow> 's \<Rightarrow> 'e option \<times> 's"
    and good :: "'s \<Rightarrow> bool"
    and loaded :: "'s \<Rightarrow> bool"
  assumes failed: "reload w s = (Some e, s') \<Longrightarrow> s' = s"
    and succeeded: "reload w s = (None, s') \<Longrightarrow> good s' \<and> loaded s'"
begin

lemma step_keeps:
  "good s \<Longrightarrow> good (snd (reload w s))" "loaded s \<Longrightarrow> loaded (snd (reload w s))"
  by (cases "reload w s"; cases "fst (reload w s)"; auto dest: failed succeeded)+

lemma run_keeps:
  "good s \<Longrightarrow> good (fold (\<lambda>w s. snd (reload w s)) ws s)"
  "loaded s \<Longrightarrow> loaded (fold (\<lambda>w s. snd (reload w s)) ws s)"
  by (induction ws arbitrary: s) (simp_all add: step_keeps)

text \<open>While every reload fails, nothing moves.\<close>

lemma run_failing:
  "(\<And>w. w \<in> set ws \<Longrightarrow> fst (reload w s) \<noteq> None) \<Longrightarrow> fold (\<lambda>w s. snd (reload w s)) ws s = s"
proof (induction ws)
  case (Cons w ws)
  then obtain e s' where "reload w s = (Some e, s')" by (cases "reload w s") force
  with failed [OF this] Cons show ?case by simp
qed simp

text \<open>The outcome is that of the last reload that succeeded.\<close>

lemma run_last_good:
  assumes "reload w (fold (\<lambda>w s. snd (reload w s)) before s) = (None, s')"
    and "\<And>x. x \<in> set after \<Longrightarrow> fst (reload x s') \<noteq> None"
  shows "fold (\<lambda>w s. snd (reload w s)) (before @ w # after) s = s'"
  using assms run_failing [of after s'] by simp

end

interpretation rl: reloadable Reload store_ok "\<lambda>s. snap s \<noteq> None"
proof unfold_locales
  fix ws s e s'
  assume "Reload ws s = (Some e, s')"
  then show "s' = s" by (rule Reload_failed)
next
  fix ws s s'
  assume "Reload ws s = (None, s')"
  from Reload_ok [OF this] show "store_ok s' \<and> snap s' \<noteq> None"
    by (auto simp: store_ok_def)
qed

lemma reloadOn_fold: "reloadOn ks s = fold (\<lambda>w s. snd (Reload w s)) (map snd ks) s"
  by (induction ks s rule: reloadOn.induct) (auto split: option.split prod.split)

subsection \<open>The process\<close>

text \<open>
  The context during one reload, seen through the worlds that answer it: once it has ended it
  stays ended, it has ended throughout if it had when the loop woke, and not at all if it has
  not when the reload is over.
\<close>

definition ends_once :: "(nat \<Rightarrow> World) \<Rightarrow> bool" where
  "ends_once ws \<longleftrightarrow> (\<forall>i. ctxErr (ws i) \<noteq> None \<longrightarrow> ctxErr (ws (Suc i)) \<noteq> None)"

definition context_seen :: "bool \<Rightarrow> bool \<Rightarrow> (nat \<Rightarrow> World) \<Rightarrow> bool" where
  "context_seen ended_before ended_after ws \<longleftrightarrow>
     ends_once ws \<and>
     (ended_before \<longrightarrow> (\<forall>i. ctxErr (ws i) \<noteq> None)) \<and>
     (\<not> ended_after \<longrightarrow> (\<forall>i. ctxErr (ws i) = None))"

text \<open>
  The channels of buffer one (a signal or tick that finds its buffer full is dropped), the
  reloader, the context, the requests that have read a snapshot and are not yet answered, and
  the answers given. The last five fields are not in the program but record its history:
  \<open>wokenLate\<close>, whether the context had ended when the loop last woke; \<open>reloads\<close>, the reloads that
  have ended, in order, with what the outside answered; \<open>hups\<close> and \<open>hupsSeen\<close>, the SIGHUPs that
  arrived and those that had when the last SIGHUP reload began. A request carries the number
  of reloads that had ended when it read its snapshot.
\<close>

datatype phase = Waiting | Reloading trigger | Exited

type_synonym 'md answer = "McpRequest option \<times> nat \<times> (rpc_error + 'md request_result)"

record 'md Sys =
  store :: Store
  hup :: bool
  tick :: bool
  phase :: phase
  cancelled :: bool
  inflight :: "(McpRequest option \<times> nat \<times> Snapshot option) list"
  answers :: "'md answer list"
  wokenLate :: bool
  reloads :: "wakeup list"
  hups :: nat
  hupsSeen :: nat

definition init_sys :: "Store \<Rightarrow> 'md Sys" where
  "init_sys s =
     \<lparr>store = s, hup = False, tick = False, phase = Waiting, cancelled = False, inflight = [],
      answers = [], wokenLate = False, reloads = [], hups = 0, hupsSeen = 0\<rparr>"

text \<open>The handler on the snapshot it has read: \<open>CheckRequest\<close> reads the store only once.\<close>

definition handle ::
  "(nat \<Rightarrow> bool) \<Rightarrow> (scores \<Rightarrow> 'md option) \<Rightarrow> Snapshot option \<Rightarrow> McpRequest option \<Rightarrow> rpc_error + 'md request_result" where
  "handle u ns sn req = CheckRequest u ns ((NewStore [] None)\<lparr>snap := sn\<rparr>) req"

lemma handle_CheckRequest: "handle u ns (snap s) req = CheckRequest u ns s req"
  by (simp add: handle_def CheckRequest_cases)

inductive step ::
  "(nat \<Rightarrow> bool) \<Rightarrow> (scores \<Rightarrow> 'md option) \<Rightarrow> int \<Rightarrow> 'md Sys \<Rightarrow> 'md Sys \<Rightarrow> bool"
  for u ns interval where
  signal: "step u ns interval x (x\<lparr>hup := True, hups := Suc (hups x)\<rparr>)"
| timer: "interval > 0 \<Longrightarrow> step u ns interval x (x\<lparr>tick := True\<rparr>)"
| wake_hup: "phase x = Waiting \<Longrightarrow> hup x \<Longrightarrow>
    step u ns interval x
      (x\<lparr>phase := Reloading SIGHUP, hup := False, wokenLate := cancelled x, hupsSeen := hups x\<rparr>)"
| wake_tick: "phase x = Waiting \<Longrightarrow> tick x \<Longrightarrow>
    step u ns interval x (x\<lparr>phase := Reloading Interval, tick := False, wokenLate := cancelled x\<rparr>)"
| finish: "phase x = Reloading why \<Longrightarrow> context_seen (wokenLate x) (cancelled x) ws \<Longrightarrow>
    Reload ws (store x) = (e, s') \<Longrightarrow>
    step u ns interval x (x\<lparr>phase := Waiting, store := s', reloads := reloads x @ [(why, ws)]\<rparr>)"
| cancel: "step u ns interval x (x\<lparr>cancelled := True\<rparr>)"
| exit: "phase x = Waiting \<Longrightarrow> cancelled x \<Longrightarrow> step u ns interval x (x\<lparr>phase := Exited\<rparr>)"
| take: "step u ns interval x
    (x\<lparr>inflight := inflight x @ [(req, length (reloads x), current (store x))]\<rparr>)"
| reply: "inflight x = before @ (req, k, sn) # after \<Longrightarrow>
    step u ns interval x
      (x\<lparr>inflight := before @ after, answers := (req, k, handle u ns sn req) # answers x\<rparr>)"

inductive_cases stepE: "step u ns interval x y"

text \<open>\<open>leads u ns interval x y\<close>: some steps take the process from \<open>x\<close> to \<open>y\<close>.\<close>

inductive leads ::
  "(nat \<Rightarrow> bool) \<Rightarrow> (scores \<Rightarrow> 'md option) \<Rightarrow> int \<Rightarrow> 'md Sys \<Rightarrow> 'md Sys \<Rightarrow> bool"
  for u ns interval x where
  here: "leads u ns interval x x"
| further: "leads u ns interval x y \<Longrightarrow> step u ns interval y z \<Longrightarrow> leads u ns interval x z"

text \<open>
  The sequences of reloads a process can see: a tick only with a positive interval, and a
  context that does not come back.
\<close>

definition ctx_ended :: "wakeup \<Rightarrow> bool" where
  "ctx_ended k \<longleftrightarrow> (\<exists>j. ctxErr (snd k j) \<noteq> None)"

definition wakeup_ok :: "int \<Rightarrow> bool \<Rightarrow> wakeup \<Rightarrow> bool" where
  "wakeup_ok interval late k \<longleftrightarrow>
     (fst k = Interval \<longrightarrow> 0 < interval) \<and> ends_once (snd k) \<and>
     (late \<longrightarrow> (\<forall>j. ctxErr (snd k j) \<noteq> None))"

fun schedule :: "int \<Rightarrow> bool \<Rightarrow> wakeup list \<Rightarrow> bool" where
  "schedule interval late [] \<longleftrightarrow> True"
| "schedule interval late (k # ks) \<longleftrightarrow>
     wakeup_ok interval late k \<and> schedule interval (ctx_ended k) ks"

subsection \<open>Invariants\<close>

lemma leads_trans: "leads u ns i y z \<Longrightarrow> leads u ns i x y \<Longrightarrow> leads u ns i x z"
  by (induction rule: leads.induct) (auto intro: leads.further)

lemma leads_step: "step u ns i x y \<Longrightarrow> leads u ns i x y"
  by (rule leads.further [OF leads.here])

lemma reloadOn_snoc: "reloadOn (ks @ [(why, ws)]) s = snd (Reload ws (reloadOn ks s))"
  by (simp add: reloadOn_fold)

definition late_after :: "bool \<Rightarrow> wakeup list \<Rightarrow> bool" where
  "late_after late ks = (if ks = [] then late else ctx_ended (last ks))"

lemma schedule_snoc: "schedule i late (ks @ [k]) \<longleftrightarrow> schedule i late ks \<and> wakeup_ok i (late_after late ks) k"
  by (induction ks arbitrary: late) (auto simp: late_after_def)

text \<open>The store is what the reloads that have ended made of it, and they are a schedule.\<close>

definition loop_inv :: "int \<Rightarrow> Store \<Rightarrow> 'md Sys \<Rightarrow> bool" where
  "loop_inv i s x \<longleftrightarrow>
     store x = reloadOn (reloads x) s \<and> schedule i False (reloads x) \<and>
     (late_after False (reloads x) \<longrightarrow> cancelled x) \<and> (tick x \<longrightarrow> 0 < i) \<and>
     (case phase x of
        Reloading why \<Rightarrow>
          (why = Interval \<longrightarrow> 0 < i) \<and> (wokenLate x \<longrightarrow> cancelled x) \<and>
          (late_after False (reloads x) \<longrightarrow> wokenLate x)
      | _ \<Rightarrow> True)"

lemma step_loop_inv: "step u ns i x y \<Longrightarrow> loop_inv i s x \<Longrightarrow> loop_inv i s y"
proof (induction rule: step.induct)
  case (finish x why ws e s')
  then have "s' = reloadOn (reloads x @ [(why, ws)]) s" by (simp add: loop_inv_def reloadOn_snoc)
  moreover have "schedule i False (reloads x @ [(why, ws)])"
    using finish by (auto simp: schedule_snoc wakeup_ok_def loop_inv_def context_seen_def)
  moreover have "cancelled x" if "ctx_ended (why, ws)"
    using that finish.hyps(2) by (auto simp: ctx_ended_def context_seen_def)
  ultimately show ?case
    using finish.prems by (simp add: loop_inv_def late_after_def)
qed (auto simp: loop_inv_def split: phase.splits)

lemma leads_loop_inv: "leads u ns i (init_sys s) y \<Longrightarrow> loop_inv i s y"
proof (induction rule: leads.induct)
  case here
  show ?case by (simp add: loop_inv_def init_sys_def late_after_def)
qed (rule step_loop_inv)

text \<open>The store stays good and loaded.\<close>

definition gate_inv :: "Store \<Rightarrow> bool" where
  "gate_inv s \<longleftrightarrow> store_ok s \<and> snap s \<noteq> None"

lemma reloadOn_gate_inv: "gate_inv s \<Longrightarrow> gate_inv (reloadOn ks s)"
  unfolding gate_inv_def reloadOn_fold by (simp add: rl.run_keeps)

text \<open>Only a SIGHUP that is still pending has not been seen.\<close>

definition hup_inv :: "'md Sys \<Rightarrow> bool" where
  "hup_inv x \<longleftrightarrow> hupsSeen x \<le> hups x \<and> (hupsSeen x < hups x \<longrightarrow> hup x)"

lemma leads_hup_inv: "leads u ns interval x y \<Longrightarrow> hup_inv x \<Longrightarrow> hup_inv y"
proof (induction rule: leads.induct)
  case (further y z)
  from further.hyps(2) further.IH [OF further.prems] show ?case
    by (induction rule: step.induct) (auto simp: hup_inv_def)
qed

text \<open>
  A snapshot in a handler's hands is the one that was in force when the handler read it, and an
  answer is the gate's on that.
\<close>

definition at_reload :: "'md Sys \<Rightarrow> Store \<Rightarrow> nat \<Rightarrow> Store" where
  "at_reload x s k = reloadOn (List.take k (reloads x)) s"

definition served_from ::
  "(nat \<Rightarrow> bool) \<Rightarrow> (scores \<Rightarrow> 'md option) \<Rightarrow> Store \<Rightarrow> 'md Sys \<Rightarrow> bool" where
  "served_from u ns s x \<longleftrightarrow>
     (\<forall>(req, k, sn) \<in> set (inflight x). k \<le> length (reloads x) \<and> sn = snap (at_reload x s k)) \<and>
     (\<forall>(req, k, r) \<in> set (answers x). k \<le> length (reloads x) \<and> r = CheckRequest u ns (at_reload x s k) req)"

lemma step_served_from:
  assumes "step u ns i x y" "served_from u ns s x" "store x = reloadOn (reloads x) s"
  shows "served_from u ns s y"
  using assms(1)
proof (cases rule: step.cases)
  case (finish why ws e s')
  then have "at_reload y s k = at_reload x s k" if "k \<le> length (reloads x)" for k
    using that by (simp add: at_reload_def)
  with finish assms(2) show ?thesis unfolding served_from_def by fastforce
next
  case (take req)
  then have "at_reload y s k = at_reload x s k" "at_reload x s (length (reloads x)) = store x" for k
    using assms(3) by (simp_all add: at_reload_def)
  with take assms(2) show ?thesis unfolding served_from_def current_def by auto
next
  case (reply before req k sn after)
  then have "at_reload y s j = at_reload x s j" for j by (simp add: at_reload_def)
  moreover have "k \<le> length (reloads x)" "sn = snap (at_reload x s k)"
    using assms(2) reply(2) by (auto simp: served_from_def)
  ultimately show ?thesis
    using reply assms(2) unfolding served_from_def by (auto simp: handle_CheckRequest)
qed (use assms(2) in \<open>simp_all add: served_from_def at_reload_def\<close>)

lemma leads_served_from: "leads u ns i (init_sys s) y \<Longrightarrow> served_from u ns s y"
proof (induction rule: leads.induct)
  case here
  show ?case by (simp add: served_from_def init_sys_def)
next
  case (further y z)
  then show ?case using leads_loop_inv [OF further.hyps(1)] step_served_from by (blast intro: loop_inv_def [THEN iffD1, THEN conjunct1])
qed

end
