(* ===== verification/FlagProps.thy ===== *)
theory FlagProps
  imports FlagParse
begin

text \<open>
  What command lines the parser accepts and what it makes of them: a grammar of the arguments,
  and the options as the last value given to each flag.
\<close>

subsection \<open>The grammar\<close>

definition flags_end :: "string list \<Rightarrow> bool" where
  "flags_end args \<longleftrightarrow>
     args = [] \<or> length (hd args) < 2 \<or> hd (hd args) \<noteq> CHR ''-'' \<or> hd args = ''--''"

text \<open>\<open>spells as args\<close>: the arguments give the flags these values, one after the other.\<close>

inductive spells :: "(string \<times> string) list \<Rightarrow> string list \<Rightarrow> bool" where
  ended: "flags_end args \<Longrightarrow> spells [] args"
| joined: "n \<in> set flag_names \<Longrightarrow> d = ''-'' \<or> d = ''--'' \<Longrightarrow> spells as args \<Longrightarrow>
    spells ((n, x) # as) ((d @ n @ ''='' @ x) # args)"
| apart: "n \<in> set flag_names \<Longrightarrow> d = ''-'' \<or> d = ''--'' \<Longrightarrow> spells as args \<Longrightarrow>
    spells ((n, x) # as) ((d @ n) # x # args)"

fun assign :: "(string \<times> string) list \<Rightarrow> Options \<Rightarrow> flag_error + Options" where
  "assign [] op = Inr op"
| "assign ((n, x) # as) op =
     (case set_flag n x op of
        Inl e \<Rightarrow> Inl (InvalidValue x n e)
      | Inr op' \<Rightarrow> assign as op')"

lemma cut_eq: "cut s c = (takeWhile (\<lambda>d. d \<noteq> c) s, tl (dropWhile (\<lambda>d. d \<noteq> c) s))"
  by (induction s) simp_all

lemma flag_names_eq:
  "flag_names = [''config'', ''listen'', ''reload-interval'', ''max-bytes'', ''fetch-timeout'', ''log-level'', ''completion'']"
  by (simp add: flag_names_def flag_set_def)

lemma flag_name_word:
  assumes "n \<in> set flag_names"
  shows "n \<noteq> []" "hd n \<noteq> CHR ''-''" "hd n \<noteq> CHR ''=''" "CHR ''='' \<notin> set n" "n ! 0 \<noteq> CHR ''-''"
  using assms by (auto simp: flag_names_eq)

lemma flag_word_name:
  assumes "n \<in> set flag_names"
  shows "flag_word n = Names n None" "flag_word (n @ CHR ''='' # x) = Names n (Some x)"
proof -
  have all: "\<forall>c\<in>set n. c \<noteq> CHR ''=''" using flag_name_word(4) [OF assms] by metis
  then show "flag_word n = Names n None" by (auto simp: flag_word_def cut_eq takeWhile_eq_all_conv)
  from all show "flag_word (n @ CHR ''='' # x) = Names n (Some x)"
    by (simp add: flag_word_def cut_eq takeWhile_append2 dropWhile_append2)
qed

lemma argument_of_dash:
  assumes "w \<noteq> []" "hd w \<noteq> CHR ''-''" "hd w \<noteq> CHR ''=''" "d = ''-'' \<or> d = ''--''"
  shows "argument_of (d @ w) = flag_word w"
  using assms by (cases w) (auto simp: argument_of_def Let_def)

lemma argument_of_name:
  assumes "n \<in> set flag_names" "d = ''-'' \<or> d = ''--''"
  shows "argument_of (d @ n) = Names n None" "argument_of (d @ n @ ''='' @ x) = Names n (Some x)"
  using argument_of_dash [of n d] argument_of_dash [of "n @ ''='' @ x" d] flag_name_word [OF assms(1)]
    flag_word_name [OF assms(1)] assms(2)
  by simp_all

lemma argument_of_Ends: "argument_of s = Ends \<longleftrightarrow> flags_end (s # args)"
  by (auto simp: argument_of_def flags_end_def flag_word_def Let_def split: prod.splits)

lemma argument_of_Names:
  assumes "argument_of s = Names n v"
  obtains d where "d = ''-'' \<or> d = ''--''" "s = d @ n @ (case v of None \<Rightarrow> [] | Some x \<Rightarrow> ''='' @ x)"
proof -
  define w where "w = (if s ! 1 = CHR ''-'' then drop 2 s else tl s)"
  have s: "2 \<le> length s" "hd s = CHR ''-''" "flag_word w = Names n v"
    using assms by (auto simp: argument_of_def Let_def w_def split: if_splits)
  then have "s = (if s ! 1 = CHR ''-'' then ''--'' else ''-'') @ w"
    by (cases s; cases "tl s") (auto simp: w_def)
  moreover have "w = n @ (case v of None \<Rightarrow> [] | Some x \<Rightarrow> ''='' @ x)"
  proof (cases "CHR ''='' \<in> set w")
    case False
    then have "takeWhile (\<lambda>d. d \<noteq> CHR ''='') w = w" by (auto simp: takeWhile_eq_all_conv)
    with s(3) False show ?thesis by (simp add: flag_word_def cut_eq)
  next
    case True
    then have "dropWhile (\<lambda>d. d \<noteq> CHR ''='') w \<noteq> []" "hd (dropWhile (\<lambda>d. d \<noteq> CHR ''='') w) = CHR ''=''"
      using hd_dropWhile [of "\<lambda>d. d \<noteq> CHR ''=''" w] by (auto simp: dropWhile_eq_Nil_conv)
    then have "w = takeWhile (\<lambda>d. d \<noteq> CHR ''='') w @ CHR ''='' # tl (dropWhile (\<lambda>d. d \<noteq> CHR ''='') w)"
      by (metis list.collapse takeWhile_dropWhile_id)
    with s(3) True show ?thesis by (auto simp: flag_word_def cut_eq)
  qed
  ultimately show ?thesis using that by metis
qed

lemma parse_args_spells: "parse_args args op = Inr op' \<longleftrightarrow> (\<exists>as. spells as args \<and> assign as op = Inr op')"
proof
  show "parse_args args op = Inr op' \<Longrightarrow> \<exists>as. spells as args \<and> assign as op = Inr op'"
  proof (induction args op rule: parse_args.induct)
    case (1 op)
    then show ?case by (intro exI [of _ "[]"]) (simp add: ended flags_end_def)
  next
    case (2 s args op)
    show ?case
    proof (cases "argument_of s")
      case Ends
      with 2 argument_of_Ends show ?thesis by (intro exI [of _ "[]"]) (simp add: ended)
    next
      case (Names n v)
      with 2 have n: "n \<in> set flag_names" by (auto split: if_splits)
      obtain d where d: "d = ''-'' \<or> d = ''--''" "s = d @ n @ (case v of None \<Rightarrow> [] | Some x \<Rightarrow> ''='' @ x)"
        by (rule argument_of_Names [OF Names])
      show ?thesis
      proof (cases v)
        case (Some x)
        with 2 Names n obtain op1 where op1: "set_flag n x op = Inr op1" "parse_args args op1 = Inr op'"
          by (auto split: sum.splits)
        from "2.IH"(2) [OF Names _ Some op1] n obtain as where as: "spells as args" "assign as op1 = Inr op'"
          by blast
        have "spells ((n, x) # as) (s # args)" using joined [OF n d(1) as(1), where x = x] d(2) Some by simp
        with op1 as show ?thesis by (intro exI [of _ "(n, x) # as"]) simp
      next
        case None
        with 2 Names n obtain x rest op1 where op1: "args = x # rest" "set_flag n x op = Inr op1"
          "parse_args rest op1 = Inr op'"
          by (auto split: sum.splits list.splits)
        from "2.IH"(1) [OF Names _ None op1] n obtain as where as: "spells as rest" "assign as op1 = Inr op'"
          by blast
        have "spells ((n, x) # as) (s # args)" using apart [OF n d(1) as(1), where x = x] d(2) None op1(1) by simp
        with op1 as show ?thesis by (intro exI [of _ "(n, x) # as"]) simp
      qed
    qed (use 2 in simp)
  qed
  assume "\<exists>as. spells as args \<and> assign as op = Inr op'"
  then obtain as where "spells as args" "assign as op = Inr op'" by blast
  then show "parse_args args op = Inr op'"
  proof (induction arbitrary: op rule: spells.induct)
    case (ended args)
    then show ?case using argument_of_Ends by (cases args) auto
  next
    case (joined n d as args x)
    then obtain op1 where "set_flag n x op = Inr op1" "assign as op1 = Inr op'" by (auto split: sum.splits)
    with joined.hyps(1) joined.IH argument_of_name(2) [OF joined.hyps(1,2), of x] show ?case by simp
  next
    case (apart n d as args x)
    then obtain op1 where "set_flag n x op = Inr op1" "assign as op1 = Inr op'" by (auto split: sum.splits)
    with apart.hyps(1) apart.IH argument_of_name(1) [OF apart.hyps(1,2)] show ?case by simp
  qed
qed

subsection \<open>The options\<close>

text \<open>The last value given to a flag counts, read by \<open>h\<close>; without one the default stays.\<close>

definition given :: "(string \<times> string) list \<Rightarrow> string \<Rightarrow> 'a \<Rightarrow> (string \<Rightarrow> 'a) \<Rightarrow> 'a" where
  "given as n z h = (case map_of (rev as) n of None \<Rightarrow> z | Some x \<Rightarrow> h x)"

fun int_of_result :: "num_error + int \<Rightarrow> int" where
  "int_of_result (Inr i) = i"
| "int_of_result (Inl e) = 0"

definition options_of :: "(string \<times> string) list \<Rightarrow> Options" where
  "options_of as =
     \<lparr>opConfig = given as ''config'' [] (\<lambda>x. x),
      opListen = given as ''listen'' ''127.0.0.1:4400'' (\<lambda>x. x),
      opInterval = given as ''reload-interval'' 0 (\<lambda>x. the (ParseDuration x)),
      opMaxBytes = given as ''max-bytes'' (2 ^ 20) (\<lambda>x. of_int (int_of_result (ParseInt x))),
      opTimeout = given as ''fetch-timeout'' 10000000000 (\<lambda>x. the (ParseDuration x)),
      opLevel = given as ''log-level'' ''info'' (\<lambda>x. x),
      opCompletion = given as ''completion'' [] (\<lambda>x. x)\<rparr>"

definition readable :: "string \<times> string \<Rightarrow> bool" where
  "readable a =
     (case a of (n, x) \<Rightarrow>
        if n = ''reload-interval'' \<or> n = ''fetch-timeout'' then ParseDuration x \<noteq> None
        else if n = ''max-bytes'' then \<not> isl (ParseInt x)
        else True)"

lemma set_flag_Inr: "(\<exists>op'. set_flag n x op = Inr op') \<longleftrightarrow> readable (n, x)"
  by (auto simp: set_flag_def readable_def split: option.splits sum.splits num_error.splits)

lemma assign_Inr: "(\<exists>op'. assign as op = Inr op') \<longleftrightarrow> list_all readable as"
proof (induction as arbitrary: op)
  case (Cons a as)
  obtain n x where a: "a = (n, x)" by fastforce
  from Cons.IH set_flag_Inr [of n x op] show ?case
    by (cases "set_flag n x op") (auto simp: a)
qed simp

lemma given_Cons: "given ((m, x) # as) n z h = given as n (if m = n then h x else z) h"
  by (simp add: given_def map_add_def split: option.split)

lemma assign_field:
  assumes "\<And>m x op op'. m \<in> set flag_names \<Longrightarrow> set_flag m x op = Inr op' \<Longrightarrow> g op' = (if m = n then h x else g op)"
  shows "list_all (\<lambda>(m, x). m \<in> set flag_names) as \<Longrightarrow> assign as op = Inr op' \<Longrightarrow> g op' = given as n (g op) h"
proof (induction as op rule: assign.induct)
  case (1 op)
  then show ?case by (simp add: given_def)
next
  case (2 m x as op)
  then obtain op1 where "set_flag m x op = Inr op1" "assign as op1 = Inr op'" by (auto split: sum.splits)
  with 2 assms [of m x op op1] show ?case by (simp add: given_Cons)
qed

lemma assign_options:
  assumes "list_all (\<lambda>(m, x). m \<in> set flag_names) as" "assign as default_options = Inr op"
  shows "op = options_of as"
proof -
  note simps = set_flag_def flag_names_eq and splits = if_splits option.splits sum.splits num_error.splits
  note field = assign_field [OF _ assms]
  have "opConfig op = given as ''config'' (opConfig default_options) (\<lambda>x. x)"
    by (rule field) (auto simp: simps split: splits)
  moreover have "opListen op = given as ''listen'' (opListen default_options) (\<lambda>x. x)"
    by (rule field) (auto simp: simps split: splits)
  moreover have "opInterval op = given as ''reload-interval'' (opInterval default_options) (\<lambda>x. the (ParseDuration x))"
    by (rule field) (auto simp: simps split: splits)
  moreover have "opMaxBytes op = given as ''max-bytes'' (opMaxBytes default_options) (\<lambda>x. of_int (int_of_result (ParseInt x)))"
    by (rule field) (auto simp: simps split: splits)
  moreover have "opTimeout op = given as ''fetch-timeout'' (opTimeout default_options) (\<lambda>x. the (ParseDuration x))"
    by (rule field) (auto simp: simps split: splits)
  moreover have "opLevel op = given as ''log-level'' (opLevel default_options) (\<lambda>x. x)"
    by (rule field) (auto simp: simps split: splits)
  moreover have "opCompletion op = given as ''completion'' (opCompletion default_options) (\<lambda>x. x)"
    by (rule field) (auto simp: simps split: splits)
  ultimately show ?thesis
    by (simp add: options_of_def default_options_def DefaultTimeout_def DefaultMaxBytes_def push_bit_eq_mult)
qed

lemma spells_names: "spells as args \<Longrightarrow> list_all (\<lambda>(m, x). m \<in> set flag_names) as"
  by (induction rule: spells.induct) simp_all

lemma parse_flags_iff:
  "parse_flags args = Inr op \<longleftrightarrow> (\<exists>as. spells as args \<and> list_all readable as \<and> op = options_of as)"
proof -
  have "assign as default_options = Inr op \<longleftrightarrow> list_all readable as \<and> op = options_of as"
    if "spells as args" for as
    using assign_Inr [of as default_options] assign_options [OF spells_names [OF that]] by metis
  then show ?thesis unfolding parse_flags_def parse_args_spells by blast
qed

text \<open>
  C34. The command line is accepted exactly when it spells values for the seven flags, with one
  dash or two, with an equals sign or in the next argument, and every duration and number can
  be read; the options are then the last value given to each flag, or its default. What
  follows the first argument that is no flag is not read.
\<close>

theorem flags_accepted:
  "parse_flags args = Inr op \<longleftrightarrow> (\<exists>as. spells as args \<and> list_all readable as \<and> op = options_of as)"
  by (rule parse_flags_iff)

subsection \<open>Ranges\<close>

lemma ParseInt_int64: "ParseInt s = Inr i \<Longrightarrow> int64 i"
proof -
  have loop: "uint_loop base r n = Inr m \<Longrightarrow> 0 \<le> n \<Longrightarrow> 0 \<le> base \<Longrightarrow> 0 \<le> m" for base r n m
  proof (induction base r n rule: uint_loop.induct)
    case (2 base c s n)
    have "digit_of c = Some d \<Longrightarrow> 0 \<le> d" for d by (auto simp: digit_of_def Let_def split: if_splits)
    with 2 show ?case by (auto split: if_splits option.splits)
  qed simp
  have "ParseUint r = Inr n \<Longrightarrow> 0 \<le> n" for r n
    by (auto simp: ParseUint_def base_prefix_def split: if_splits sum.splits dest!: loop)
  then show "ParseInt s = Inr i \<Longrightarrow> int64 i"
    by (auto simp: ParseInt_def int64_def Let_def split: if_splits sum.splits; fastforce)
qed

lemma duration_sum_range: "duration_sum s d = Some e \<Longrightarrow> 0 \<le> d \<Longrightarrow> d \<le> 2 ^ 63 \<Longrightarrow> 0 \<le> e \<and> e \<le> 2 ^ 63"
proof (induction s d rule: duration_sum.induct)
  case (1 s d)
  show ?case
  proof (cases "s = []")
    case True
    with 1 show ?thesis by (simp add: duration_sum.simps [of "[]" d])
  next
    case False
    with "1.prems"(1) obtain v r where vr: "duration_term s = Some (v, r)"
      by (auto simp: duration_sum.simps [of s d] split: option.splits)
    from "1.prems"(1) have e: "\<not> 2 ^ 63 < (d + v) mod 2 ^ 64 \<and> duration_sum r ((d + v) mod 2 ^ 64) = Some e"
      by (simp only: duration_sum.simps [of s d] vr False if_False option.case prod.case option.distinct
          simp_thms split: if_split_asm)
    from "1.IH" [OF False vr refl conjunct1 [OF e] conjunct2 [OF e]] e show ?thesis by simp
  qed
qed

lemma ParseDuration_int64: "ParseDuration s = Some d \<Longrightarrow> int64 d"
  by (auto simp: ParseDuration_def int64_def Let_def split: if_splits option.splits dest!: duration_sum_range)

text \<open>Whatever is given, an accepted interval and timeout are of 64 bits.\<close>

lemma options_int64:
  assumes "parse_flags args = Inr op"
  shows "int64 (opInterval op)" "int64 (opTimeout op)"
proof -
  from assms obtain as where as: "list_all readable as" "op = options_of as"
    unfolding parse_flags_iff by blast
  have d: "int64 (given as n z (\<lambda>x. the (ParseDuration x)))" if "n = ''reload-interval'' \<or> n = ''fetch-timeout''" "int64 z" for n z
  proof (cases "map_of (rev as) n")
    case (Some x)
    then have "(n, x) \<in> set as" using map_of_SomeD by fastforce
    with as(1) have "readable (n, x)" by (simp add: list_all_iff)
    with that(1) show ?thesis by (auto simp: given_def Some readable_def dest: ParseDuration_int64)
  qed (simp add: given_def that(2))
  from d show "int64 (opInterval op)" "int64 (opTimeout op)" by (simp_all add: as(2) options_of_def int64_def)
qed

subsection \<open>Reading what was printed\<close>

lemma digit_of_digit: "is_digit c \<Longrightarrow> digit_of c = Some (int (digit_val c)) \<and> digit_val c < 10 \<and> c \<noteq> CHR ''_''"
  by (auto simp: is_digit_def digit_of_def digit_val_def byte_of_def)

lemma uint_loop_digits:
  "list_all is_digit ds \<Longrightarrow> 0 \<le> n \<Longrightarrow> n * 10 ^ length ds + dec_digits ds < 2 ^ 64 \<Longrightarrow>
   uint_loop 10 ds n = Inr (n * 10 ^ length ds + dec_digits ds)"
proof (induction ds arbitrary: n)
  case (Cons c ds)
  note c = digit_of_digit [of c]
  have d: "dec_digits (c # ds) = int (digit_val c) * 10 ^ length ds + dec_digits ds"
    using dec_digits_append [of "[c]" ds] by (simp add: dec_digits_def)
  have "0 \<le> dec_digits ds" by (induction ds rule: rev_induct) (simp_all add: dec_digits_snoc)
  define m where "m = n * 10 + int (digit_val c)"
  have eq: "n * 10 ^ length (c # ds) + dec_digits (c # ds) = m * 10 ^ length ds + dec_digits ds"
    by (simp add: d m_def algebra_simps)
  have "0 \<le> m" using Cons.prems(2) by (simp add: m_def)
  then have "m * 1 \<le> m * 10 ^ length ds" by (intro mult_left_mono) simp_all
  with \<open>0 \<le> dec_digits ds\<close> Cons.prems(3) have "m < 2 ^ 64" unfolding eq by linarith
  moreover have "uint_loop 10 ds m = Inr (m * 10 ^ length ds + dec_digits ds)"
    using Cons.IH [of m] Cons.prems \<open>0 \<le> m\<close> unfolding eq by simp
  ultimately show ?case using c Cons.prems(1) unfolding eq by (simp add: m_def)
qed simp

lemma ParseUint_show: "int n < 2 ^ 64 \<Longrightarrow> ParseUint (show_nat n) = Inr (int n)"
proof (cases "show_nat n = ''0''")
  case True
  then have "n = 0" using show_nat_digits [of n] by (simp add: dec_digits_def digit_val_def byte_of_def)
  with True show ?thesis by (simp add: ParseUint_def base_prefix_def)
next
  case False
  assume "int n < 2 ^ 64"
  moreover have "CHR ''_'' \<notin> set (show_nat n)"
    using show_nat_digits [of n] digit_of_digit by (auto simp: list_all_iff)
  ultimately show ?thesis
    using False show_nat_zero [of n] show_nat_digits [of n] uint_loop_digits [of "show_nat n" 0]
    by (simp add: ParseUint_def base_prefix_def)
qed

lemma show_nat_head: "is_digit (hd (show_nat n))"
  using show_nat_digits [of n] by (cases "show_nat n") simp_all

text \<open>A number in decimal is read as what it is.\<close>

lemma ParseInt_show:
  assumes "int64 i"
  shows "ParseInt (show_int i) = Inr i"
proof -
  have s: "hd (show_nat n) \<noteq> CHR ''+''" "hd (show_nat n) \<noteq> CHR ''-''" "show_nat n \<noteq> []" for n
    using show_nat_head [of n] show_nat_digits [of n] by (auto simp: is_digit_def)
  show ?thesis
    using assms s ParseUint_show [of "nat i"] ParseUint_show [of "nat (- i)"]
    by (simp add: ParseInt_def show_int_def Let_def int64_def)
qed

text \<open>
  The sum of a duration's terms is kept in 64 bits and tested after it has wrapped: two terms of
  \<open>2\<^sup>6\<^sup>3\<close> nanoseconds make a duration of zero.
\<close>

lemma ParseDuration_wraps:
  "ParseDuration ''9223372036854775808ns9223372036854775808ns'' = Some 0"
  "ParseDuration ''9223372036854775808ns'' = None"
  by code_simp+

lemma ParseDuration_samples:
  "ParseDuration ''10s'' = Some DefaultTimeout" "ParseDuration ''1m30s'' = Some 90000000000"
  "ParseDuration ''0.3s'' = Some 300000000" "ParseDuration ''30'' = None"
  by code_simp+

end
