(* ===== verification/DaemonProps.thy ===== *)
theory DaemonProps
  imports Daemon GateProps FlagProps
begin

text \<open>
  What the running command promises: it serves only a store it has loaded, every answer is the
  gate's answer on a configuration that was in force, a reload that fails changes nothing, and
  no SIGHUP is lost, however signals, ticks, reloads and requests interleave.
\<close>

subsection \<open>The site's command line\<close>

definition site_args :: "string list" where
  "site_args = [''-config'', ''config.json'', ''--max-bytes=0'', ''-fetch-timeout'', ''0s'']"

definition site_options :: Options where
  "site_options =
     default_options\<lparr>opConfig := ''config.json'', opMaxBytes := 0, opTimeout := 0\<rparr>"

lemma parse_site: "parse_flags site_args = Inr site_options"
proof -
  have "argument_of ''-config'' = Names ''config'' None" "argument_of ''--max-bytes=0'' = Names ''max-bytes'' (Some ''0'')"
    "argument_of ''-fetch-timeout'' = Names ''fetch-timeout'' None" "ParseInt ''0'' = Inr 0" "ParseDuration ''0s'' = Some 0"
    by code_simp+
  then show ?thesis
    by (simp add: parse_flags_def site_args_def site_options_def set_flag_def flag_names_eq)
qed

lemma parse_level_info: "parse_level ''info'' = Some 0"
  by code_simp

lemma NewStore_zero: "NewStore ''config.json'' (Some zero_loader) = site_store"
  by (simp add: NewStore_def site_store_def zero_loader_def)

lemma run_site:
  "run u (\<lambda>i. site_world) (\<lambda>a. None) site_args = Serves site_running"
  using Reload_site NewStore_zero
  by (simp add: run_def parse_site site_options_def default_options_def parse_level_info zero_loader_def site_running_def)

lemma site_running_loaded: "snap site_running \<noteq> None"
  by (simp add: site_running_def)

subsection \<open>Start-up\<close>

lemma run_Serves:
  assumes "run u ws lis args = Serves s"
  obtains op where "parse_flags args = Inr op" "lis (opListen op) = None"
    "Reload ws (NewStore (opConfig op)
       (Some \<lparr>ldMaxBytes = opMaxBytes op, ldTimeout = opTimeout op\<rparr>)) = (None, s)"
  using assms unfolding run_def Let_def
  by (auto split: sum.splits if_splits prod.splits option.splits)

text \<open>
  C5. A processor that is up has decided what it will say: when \<open>run\<close> comes to serving, the
  arguments spell flags whose last values it runs with, the listener is open and the store
  holds a snapshot built from the configuration file they name, usable and verified, so no
  request is ever answered unavailable.
\<close>

theorem up_means_decided:
  assumes "run u ws lis args = Serves s"
  shows "store_ok s \<and>
    (\<exists>as sn. spells as args \<and> lis (opListen (options_of as)) = None \<and> snap s = Some sn \<and>
       usable (snConfig sn) \<and> ReadConfig (ws 0) (opConfig (options_of as)) = Inr (snConfig sn)) \<and>
    CheckRequest v ns s req \<noteq> Inl (RpcUnavailable ErrNotLoaded)"
proof -
  obtain op where op: "parse_flags args = Inr op" "lis (opListen op) = None"
    "Reload ws (NewStore (opConfig op)
       (Some \<lparr>ldMaxBytes = opMaxBytes op, ldTimeout = opTimeout op\<rparr>)) = (None, s)"
    by (rule run_Serves [OF assms])
  from Reload_ok [OF op(3)] obtain sn where sn: "snap s = Some sn" "snapshot_ok sn"
    "usable (snConfig sn)" "wf_config (snConfig sn)" "ReadConfig (ws 0) (opConfig op) = Inr (snConfig sn)"
    by (auto simp: NewStore_def)
  then have "CheckRequest v ns s req \<noteq> Inl (RpcUnavailable ErrNotLoaded)"
    by (auto simp: CheckRequest_cases split: option.split sum.split)
  moreover from op(1) obtain as where "spells as args" "op = options_of as" unfolding parse_flags_iff by blast
  ultimately show ?thesis using op(2) sn by (auto simp: store_ok_def)
qed

theorem up_means_decided_witness:
  "\<exists>as. spells as site_args \<and> ReadConfig site_world (opConfig (options_of as)) = Inr (snConfig site_snapshot)"
  using up_means_decided [OF run_site [of "\<lambda>r. True"], of "\<lambda>r. True" "\<lambda>sc. None" None]
  by (auto simp: site_running_def)

text \<open>
  With flags it accepts, \<open>run\<close> fails, and nothing is served, exactly when no configuration is
  named, the log level is not one, the first reload fails or the address cannot be listened
  on, in this order; the shell completion comes before all of these.
\<close>

theorem run_failures:
  "parse_flags args = Inr op \<Longrightarrow>
   (\<exists>e. run u ws lis args = Fails e) \<longleftrightarrow>
   (if opCompletion op \<noteq> [] then opCompletion op \<notin> set completionShells
    else opConfig op = [] \<or> parse_level (opLevel op) = None \<or>
      (\<exists>e. fst (Reload ws (NewStore (opConfig op)
        (Some \<lparr>ldMaxBytes = opMaxBytes op, ldTimeout = opTimeout op\<rparr>))) = Some e) \<or>
      (\<exists>e. lis (opListen op) = Some e))"
  by (auto simp: run_def Let_def writeCompletion_def completionShells_def
      split: prod.split option.split sum.split)

text \<open>The process exits with 0 without having served only when it printed a completion script.\<close>

lemma main_exit_zero:
  assumes "main_exit (run u ws lis args) how = 0"
  shows "(\<exists>op. parse_flags args = Inr op \<and> opCompletion op \<in> set completionShells) \<or>
    (\<exists>s. run u ws lis args = Serves s \<and> how = ContextDone)"
proof (cases "run u ws lis args")
  case (Prints out)
  then obtain op where "parse_flags args = Inr op" "writeCompletion u flag_set (opCompletion op) = Inr out"
    by (auto simp: run_def Let_def split: sum.splits if_splits prod.splits option.splits)
  then show ?thesis by (auto simp: writeCompletion_def completionShells_def split: if_splits)
qed (use assms in \<open>auto simp: main_exit_def split: ending.splits\<close>)

subsection \<open>The reload loop\<close>

text \<open>
  C14. The last good configuration stays in service: after any run of wake-ups the store is the
  one the last successful reload made, whatever failed before and after it.
\<close>

theorem last_good_stays:
  assumes "Reload ws (reloadOn before s) = (None, s')"
    and "\<And>w. w \<in> snd ` set after \<Longrightarrow> fst (Reload w s') \<noteq> None"
  shows "reloadOn (before @ (why, ws) # after) s = s' \<and> store_ok s' \<and> snap s' \<noteq> None"
proof -
  have "reloadOn (before @ (why, ws) # after) s = s'"
    using rl.run_last_good [of ws "map snd before" s s' "map snd after"] assms
    by (simp add: reloadOn_fold)
  with rl.succeeded [OF assms(1)] show ?thesis by simp
qed

definition dead_world :: World where
  "dead_world = site_world\<lparr>openFile := (\<lambda>p. Inl ''no such file'')\<rparr>"

lemma Reload_dead: "fst (Reload (\<lambda>i. dead_world) s) \<noteq> None"
  by (simp add: Reload_def ReadConfig_def dead_world_def)

theorem last_good_stays_witness:
  "reloadOn [(SIGHUP, \<lambda>i. site_world), (Interval, \<lambda>i. dead_world)] site_store = site_running"
  using last_good_stays [of "\<lambda>i. site_world" "[]" site_store site_running "[(Interval, \<lambda>i. dead_world)]" SIGHUP]
    Reload_site Reload_dead
  by (auto simp: site_running_def)

subsection \<open>The interleaved process\<close>

lemma loop_invD:
  assumes "leads u ns i (init_sys s) y"
  shows "store y = reloadOn (reloads y) s" "schedule i False (reloads y)"
  using leads_loop_inv [OF assms] by (simp_all add: loop_inv_def)

text \<open>The steps of one reload: the loop wakes, the context may end, the reload ends.\<close>

lemma woken:
  assumes "phase x = Waiting" "why = Interval \<Longrightarrow> 0 < i"
  shows "\<exists>y. leads u ns i x y \<and> phase y = Reloading why \<and> wokenLate y = cancelled x \<and>
    cancelled y = cancelled x \<and> store y = store x \<and> reloads y = reloads x"
proof (cases why)
  case SIGHUP
  let ?a = "x\<lparr>hup := True, hups := Suc (hups x)\<rparr>"
  let ?b = "?a\<lparr>phase := Reloading SIGHUP, hup := False, wokenLate := cancelled ?a, hupsSeen := hups ?a\<rparr>"
  have "step u ns i x ?a" by (rule step.signal)
  moreover have "step u ns i ?a ?b" using assms(1) by (intro step.wake_hup) simp_all
  ultimately have "leads u ns i x ?b" by (meson leads.further leads.here)
  then show ?thesis using SIGHUP by (intro exI [of _ ?b]) simp
next
  case Interval
  let ?a = "x\<lparr>tick := True\<rparr>"
  let ?b = "?a\<lparr>phase := Reloading Interval, tick := False, wokenLate := cancelled ?a\<rparr>"
  have "step u ns i x ?a" using assms(2) Interval by (intro step.timer) simp
  moreover have "step u ns i ?a ?b" using assms(1) by (intro step.wake_tick) simp_all
  ultimately have "leads u ns i x ?b" by (meson leads.further leads.here)
  then show ?thesis using Interval by (intro exI [of _ ?b]) simp
qed

lemma maybe_cancel: "leads u ns i x (x\<lparr>cancelled := cancelled x \<or> b\<rparr>)"
proof (cases b)
  case True
  then show ?thesis using leads_step [OF step.cancel [of u ns i x]] by simp
qed (simp add: leads.here)

lemma finished:
  assumes "phase x = Reloading why" "context_seen (wokenLate x) (cancelled x) ws"
  shows "leads u ns i x
    (x\<lparr>phase := Waiting, store := snd (Reload ws (store x)), reloads := reloads x @ [(why, ws)]\<rparr>)"
  by (rule leads_step, rule step.finish [OF assms, of "fst (Reload ws (store x))"]) simp

lemma reload_round:
  assumes "phase x = Waiting" "wakeup_ok i (cancelled x) (why, ws)"
  shows "\<exists>y. leads u ns i x y \<and> phase y = Waiting \<and> reloads y = reloads x @ [(why, ws)] \<and>
    (cancelled y \<longleftrightarrow> ctx_ended (why, ws))"
proof -
  define whole where "whole \<longleftrightarrow> (\<forall>j. ctxErr (ws j) \<noteq> None)"
  let ?a = "x\<lparr>cancelled := cancelled x \<or> whole\<rparr>"
  have late: "cancelled x \<Longrightarrow> whole" using assms(2) by (simp add: wakeup_ok_def whole_def)
  obtain b where b: "leads u ns i ?a b" "phase b = Reloading why" "wokenLate b = cancelled ?a"
    "cancelled b = cancelled ?a" "reloads b = reloads ?a"
    using woken [of ?a why i u ns] assms by (auto simp: wakeup_ok_def)
  let ?c = "b\<lparr>cancelled := cancelled b \<or> ctx_ended (why, ws)\<rparr>"
  have some: "whole \<Longrightarrow> ctx_ended (why, ws)" by (simp add: whole_def ctx_ended_def)
  have seen: "context_seen (wokenLate ?c) (cancelled ?c) ws"
    using b(3,4) late assms(2) by (auto simp: context_seen_def wakeup_ok_def whole_def ctx_ended_def)
  from finished [OF _ seen, of why u ns i] b(2)
  have "leads u ns i ?c (?c\<lparr>phase := Waiting, store := snd (Reload ws (store ?c)), reloads := reloads ?c @ [(why, ws)]\<rparr>)"
    by simp
  with maybe_cancel [of u ns i x whole] b(1) maybe_cancel [of u ns i b "ctx_ended (why, ws)"]
  have "leads u ns i x (?c\<lparr>phase := Waiting, store := snd (Reload ws (store ?c)), reloads := reloads ?c @ [(why, ws)]\<rparr>)"
    by (blast intro: leads_trans)
  moreover have "cancelled ?c \<longleftrightarrow> ctx_ended (why, ws)" using b(4) late some by auto
  ultimately show ?thesis
    using b(5) by (intro exI [of _ "?c\<lparr>phase := Waiting, store := snd (Reload ws (store ?c)), reloads := reloads ?c @ [(why, ws)]\<rparr>"]) simp
qed

lemma schedule_reached:
  "schedule i False ks \<Longrightarrow> \<exists>y. leads u ns i (init_sys s) y \<and> phase y = Waiting \<and> reloads y = ks \<and>
     (cancelled y \<longleftrightarrow> late_after False ks)"
proof (induction ks rule: rev_induct)
  case Nil
  show ?case by (intro exI [of _ "init_sys s"]) (simp add: leads.here init_sys_def late_after_def)
next
  case (snoc k ks)
  then obtain y where y: "leads u ns i (init_sys s) y" "phase y = Waiting" "reloads y = ks"
    "cancelled y \<longleftrightarrow> late_after False ks"
    by (auto simp: schedule_snoc)
  have "wakeup_ok i (cancelled y) (fst k, snd k)" using snoc.prems y(4) by (simp add: schedule_snoc)
  from reload_round [OF y(2) this, of u ns] y(1,3) show ?case
    by (auto simp: late_after_def intro: leads_trans)
qed

text \<open>
  C4. The process refines the sequential loop, reload by reload. The reloads that some
  interleaving of signals, ticks, requests and cancellation carries out are exactly the
  schedules (ticks only with a positive interval, a context that once ended stays ended), and
  the store after them is the one \<open>reloadOn\<close> computes from those very wake-ups.
\<close>

theorem process_refines_reloadOn:
  "(\<exists>y. leads u ns interval (init_sys s) y \<and> reloads y = ks \<and> store y = s') \<longleftrightarrow>
   schedule interval False ks \<and> s' = reloadOn ks s"
proof
  assume "\<exists>y. leads u ns interval (init_sys s) y \<and> reloads y = ks \<and> store y = s'"
  then show "schedule interval False ks \<and> s' = reloadOn ks s" using loop_invD by blast
next
  assume "schedule interval False ks \<and> s' = reloadOn ks s"
  then show "\<exists>y. leads u ns interval (init_sys s) y \<and> reloads y = ks \<and> store y = s'"
    using schedule_reached loop_invD(1) by metis
qed

text \<open>Every store on the way to \<open>y\<close> was that of a state of the process.\<close>

lemma passed_through:
  "leads u ns i x y \<Longrightarrow> length (reloads x) \<le> k \<Longrightarrow> k \<le> length (reloads y) \<Longrightarrow>
   \<exists>z. leads u ns i x z \<and> leads u ns i z y \<and> reloads z = List.take k (reloads y)"
proof (induction rule: leads.induct)
  case here
  then show ?case by (intro exI [of _ x]) (simp add: leads.here)
next
  case (further y z)
  show ?case
  proof (cases "k \<le> length (reloads y)")
    case True
    with further obtain w where "leads u ns i x w" "leads u ns i w y" "reloads w = List.take k (reloads y)"
      by blast
    moreover have "List.take k (reloads z) = List.take k (reloads y)"
      using further.hyps(2) True by (cases rule: step.cases) simp_all
    ultimately show ?thesis using leads.further [OF _ further.hyps(2)] by metis
  next
    case False
    have "length (reloads z) \<le> Suc (length (reloads y))"
      using further.hyps(2) by (cases rule: step.cases) simp_all
    with False further.prems(2) have "List.take k (reloads z) = reloads z" by simp
    then show ?thesis
      using leads.further [OF further.hyps] by (intro exI [of _ z]) (simp add: leads.here)
  qed
qed

text \<open>
  C3. Every answer of the process is the gate's on one store: that of the state the process was
  in when the request read its snapshot, after \<open>k\<close> of the reloads the run carried out. No
  answer mixes two configurations, none is given from a snapshot that was not installed or is
  not verified, and once the process is up none is unavailable.
\<close>

theorem answers_are_of_one_store:
  assumes "store_ok s" "snap s \<noteq> None" "leads u ns interval (init_sys s) y"
    and "(req, k, r) \<in> set (answers y)"
  shows "\<exists>x. leads u ns interval (init_sys s) x \<and> leads u ns interval x y \<and>
    reloads x = List.take k (reloads y) \<and> length (reloads x) = k \<and>
    store x = reloadOn (reloads x) s \<and> store_ok (store x) \<and>
    r = CheckRequest u ns (store x) req \<and> r \<noteq> Inl (RpcUnavailable ErrNotLoaded)"
proof -
  from leads_served_from [OF assms(3)] assms(4)
  have k: "k \<le> length (reloads y)" "r = CheckRequest u ns (reloadOn (List.take k (reloads y)) s) req"
    by (auto simp: served_from_def at_reload_def)
  from passed_through [OF assms(3), of k] k(1) obtain x where
    x: "leads u ns interval (init_sys s) x" "leads u ns interval x y" "reloads x = List.take k (reloads y)"
    by (auto simp: init_sys_def)
  have st: "store x = reloadOn (reloads x) s" by (rule loop_invD(1) [OF x(1)])
  have "gate_inv (store x)" unfolding st by (rule reloadOn_gate_inv) (simp add: gate_inv_def assms)
  then have g: "store_ok (store x)" "snap (store x) \<noteq> None" by (simp_all add: gate_inv_def)
  have r: "r = CheckRequest u ns (store x) req" using k(2) x(3) st by simp
  with g(2) have "r \<noteq> Inl (RpcUnavailable ErrNotLoaded)"
    by (auto simp: CheckRequest_cases split: option.split sum.split)
  with x st g(1) r k(1) show ?thesis by (intro exI [of _ x]) simp
qed

lemma answered:
  "\<exists>y. leads u ns i (init_sys s) y \<and> answers y = [(req, 0, CheckRequest u ns s req)]"
proof -
  let ?a = "(init_sys s)\<lparr>inflight := [(req, 0, snap s)]\<rparr>"
  let ?b = "?a\<lparr>inflight := [], answers := [(req, 0, handle u ns (snap s) req)]\<rparr>"
  have "step u ns i (init_sys s) ?a"
    using step.take [of u ns i "init_sys s" req] by (simp add: init_sys_def current_def)
  moreover have "step u ns i ?a ?b"
    using step.reply [of ?a "[]" req 0 "snap s" "[]" u ns i] by (simp add: init_sys_def)
  ultimately have "leads u ns i (init_sys s) ?b" by (meson leads.further leads.here)
  then show ?thesis by (intro exI [of _ ?b]) (simp add: handle_CheckRequest)
qed

theorem answers_are_of_one_store_witness:
  "\<exists>x. leads (\<lambda>r. True) (\<lambda>sc. None :: nat option) 0 (init_sys site_running) x \<and>
     Inr (RequestError PERMISSION_DENIED (reason_text (\<lambda>r. True) (NotConfigured ''github''))) =
     CheckRequest (\<lambda>r. True) (\<lambda>sc. None :: nat option) (store x) (call [''search'', ''github''])"
proof -
  obtain y where y: "leads (\<lambda>r. True) (\<lambda>sc. None :: nat option) 0 (init_sys site_running) y"
    "answers y = [(call [''search'', ''github''], 0,
       CheckRequest (\<lambda>r. True) (\<lambda>sc. None) site_running (call [''search'', ''github'']))]"
    using answered by blast
  then have "(call [''search'', ''github''], 0,
      CheckRequest (\<lambda>r. True) (\<lambda>sc. None) site_running (call [''search'', ''github''])) \<in> set (answers y)"
    by simp
  from answers_are_of_one_store [OF site_running_ok site_running_loaded y(1) this]
  have "\<exists>x. leads (\<lambda>r. True) (\<lambda>sc. None :: nat option) 0 (init_sys site_running) x \<and>
      CheckRequest (\<lambda>r. True) (\<lambda>sc. None :: nat option) site_running (call [''search'', ''github'']) =
      CheckRequest (\<lambda>r. True) (\<lambda>sc. None) (store x) (call [''search'', ''github''])"
    by blast
  then show ?thesis by (simp only: site_answers)
qed

text \<open>
  C13. While the loop has not left, no SIGHUP is lost: if one arrived after the last reload for
  one began, it is still in the channel, and the process can go on, end the reload under way
  (with any answers \<open>ws0\<close> of the outside), take the signal and carry out a reload for it (with
  any answers \<open>ws\<close>). The answers have to agree with the context: when it has ended, the reload
  is carried out under an ended context.
\<close>

theorem hup_is_served:
  assumes "leads u ns interval (init_sys s) y"
    and "hupsSeen y < hups y" "phase y \<noteq> Exited"
    and "context_seen (wokenLate y) (cancelled y) ws0" "context_seen (cancelled y) (cancelled y) ws"
  shows "hup y \<and>
    (\<exists>z. leads u ns interval y z \<and> phase z = Waiting \<and> hupsSeen z = hups z \<and> \<not> hup z \<and>
       reloads z = reloads y @ (case phase y of Reloading why \<Rightarrow> [(why, ws0)] | _ \<Rightarrow> []) @ [(SIGHUP, ws)] \<and>
       store z = reloadOn (reloads z) s)"
proof
  have "hup_inv (init_sys s :: 'a Sys)" by (simp add: hup_inv_def init_sys_def)
  from leads_hup_inv [OF assms(1) this] assms(2) show h: "hup y" by (simp add: hup_inv_def)
  have serve: "\<exists>z. leads u ns interval x z \<and> phase z = Waiting \<and> hupsSeen z = hups z \<and> \<not> hup z \<and>
      reloads z = reloads x @ [(SIGHUP, ws)]"
    if "phase x = Waiting" "hup x" "cancelled x = cancelled y" for x :: "'a Sys"
  proof -
    let ?a = "x\<lparr>phase := Reloading SIGHUP, hup := False, wokenLate := cancelled x, hupsSeen := hups x\<rparr>"
    have "leads u ns interval x ?a" by (rule leads_step, rule step.wake_hup [OF that(1,2)])
    with finished [of ?a SIGHUP ws u ns interval] that(3) assms(5) show ?thesis
      by (intro exI [of _ "?a\<lparr>phase := Waiting, store := snd (Reload ws (store ?a)), reloads := reloads ?a @ [(SIGHUP, ws)]\<rparr>"])
        (simp add: leads_trans)
  qed
  have "\<exists>z. leads u ns interval y z \<and> phase z = Waiting \<and> hupsSeen z = hups z \<and> \<not> hup z \<and>
      reloads z = reloads y @ (case phase y of Reloading why \<Rightarrow> [(why, ws0)] | _ \<Rightarrow> []) @ [(SIGHUP, ws)]"
  proof (cases "phase y")
    case Waiting
    then show ?thesis using serve [OF Waiting h] by simp
  next
    case (Reloading why)
    from serve [of "y\<lparr>phase := Waiting, store := snd (Reload ws0 (store y)), reloads := reloads y @ [(why, ws0)]\<rparr>"]
      finished [OF Reloading assms(4), of u ns interval] Reloading h
    show ?thesis by (auto intro: leads_trans)
  qed (use assms(3) in simp)
  then show "\<exists>z. leads u ns interval y z \<and> phase z = Waiting \<and> hupsSeen z = hups z \<and> \<not> hup z \<and>
      reloads z = reloads y @ (case phase y of Reloading why \<Rightarrow> [(why, ws0)] | _ \<Rightarrow> []) @ [(SIGHUP, ws)] \<and>
      store z = reloadOn (reloads z) s"
    using loop_invD(1) leads_trans [OF _ assms(1)] by blast
qed

theorem hup_is_served_witness:
  "\<exists>z. leads (\<lambda>r. True) (\<lambda>sc. None :: nat option) 0
      ((init_sys site_store)\<lparr>hup := True, hups := 1\<rparr>) z \<and> store z = site_running"
proof -
  let ?y = "(init_sys site_store :: nat Sys)\<lparr>hup := True, hups := 1\<rparr>"
  have lead: "leads (\<lambda>r. True) (\<lambda>sc. None) 0 (init_sys site_store) ?y"
    using leads_step [OF step.signal [of "\<lambda>r. True" "\<lambda>sc. None" 0 "init_sys site_store :: nat Sys"]]
    by (simp add: init_sys_def)
  have seen: "context_seen (wokenLate ?y) (cancelled ?y) (\<lambda>i. site_world)"
    "context_seen (cancelled ?y) (cancelled ?y) (\<lambda>i. site_world)"
    by (simp_all add: context_seen_def ends_once_def site_world_def init_sys_def)
  have "hupsSeen ?y < hups ?y" "phase ?y \<noteq> Exited" by (simp_all add: init_sys_def)
  from hup_is_served [OF lead this seen] show ?thesis
  proof (elim conjE exE)
    fix z
    assume z: "leads (\<lambda>r. True) (\<lambda>sc. None) 0 ?y z" "store z = reloadOn (reloads z) site_store"
      "reloads z = reloads ?y @ (case phase ?y of Reloading why \<Rightarrow> [(why, \<lambda>i. site_world)] | _ \<Rightarrow> []) @
        [(SIGHUP, \<lambda>i. site_world)]"
    have "reloads z = [(SIGHUP, \<lambda>i. site_world)]" using z(3) by (simp add: init_sys_def)
    with z(2) have "store z = site_running" by (simp add: Reload_site site_running_def)
    with z(1) show ?thesis by blast
  qed
qed

end
