(* ===== verification/CompletionProps.thy ===== *)
theory CompletionProps
  imports Completion
begin

text \<open>What the completion scripts offer, for any flag set and for the program's own.\<close>


lemma plain_flag_set: "\<forall>g\<in>set flag_set. plain (flName g)"
  by (simp add: flag_set_def plain_def byte_of_def)


text \<open>
  A usage text without a backslash survives the quoting for zsh: what \<open>_arguments\<close> reads
  back inside the single quotes is the usage, whatever quotes, brackets and colons it holds.
\<close>

theorem zshEscape_reads_back:
  assumes "CHR 0x5C \<notin> set s"
  shows "zsh_unescape (zshEscape s) = s"
  using assms by (induction s) (auto simp: zshEscape_def)

theorem zshEscape_reads_back_witness:
  "zsh_unescape (zshEscape ''MB: [default 4]'') = ''MB: [default 4]''"
  by (rule zshEscape_reads_back) simp

text \<open>The order in which the flags are declared changes no script.\<close>

theorem completion_order_free:
  assumes "mset fs = mset gs" "distinct (map flName fs)"
  shows "writeCompletion u fs shell = writeCompletion u gs shell"
proof -
  note same = options_order_free [OF assms] isBool_order_free [OF assms]
  have "zsh_line fs = zsh_line gs" "fish_line u fs = fish_line u gs"
    by (simp_all add: fun_eq_iff zsh_line_def zsh_action_def fish_line_def fish_extra_def same)
  then show ?thesis by (simp add: writeCompletion_def zsh_script_def fish_script_def same Let_def)
qed

theorem completion_order_free_witness:
  "writeCompletion (\<lambda>r. True) (rev flag_set) ''fish'' = writeCompletion (\<lambda>r. True) flag_set ''fish''"
  by (rule completion_order_free) (simp_all add: flag_set_def)

end
