(* ===== verification/Specgen.thy ===== *)
theory Specgen
  imports JsonPrint Attestation ParseFiles
begin

text \<open>
  \<open>scripts/specgen/main.go\<close>: the JSON Schema of the attestation, derived from its Go types. What
  \<open>reflect\<close> tells of a type is the datatype \<open>gotype\<close>; named types are looked up in two tables, the
  struct types with their fields and tags, as read off \<open>statement.go\<close>, and the other defined
  types with their underlying type. A type may so refer to itself, through a struct or not.
\<close>

subsection \<open>Types\<close>

text \<open>
  \<open>GInt\<close> stands for the ten integer kinds, \<open>GFloat\<close> for the two float kinds. \<open>GStruct\<close> is a struct
  type and \<open>GNamed\<close> a defined type that is not a struct, as \<open>type T []T\<close>.
\<close>

datatype gotype =
    GString
  | GBool
  | GInt
  | GFloat
  | GTime
  | GSlice gotype
  | GArray gotype
  | GMap gotype
  | GPointer gotype
  | GStruct string
  | GNamed string
  | GOther string

record gofield =
  gfName :: string
  gfExported :: bool
  gfTag :: string
  gfType :: gotype

record gotypes =
  structTypes :: "(string \<times> gofield list) list"
  namedTypes :: "(string \<times> gotype) list"

definition fields_of :: "gotypes \<Rightarrow> string \<Rightarrow> gofield list" where
  "fields_of env name = (case map_of (structTypes env) name of None \<Rightarrow> [] | Some fs \<Rightarrow> fs)"

definition underlying :: "gotypes \<Rightarrow> string \<Rightarrow> gotype" where
  "underlying env name = (case map_of (namedTypes env) name of None \<Rightarrow> GOther name | Some t \<Rightarrow> t)"

subsection \<open>The schema of a type\<close>

definition jstrings :: "string list \<Rightarrow> jv" where
  "jstrings xs = JvList (map JvStr xs)"

definition fixed :: "jv gomap gomap" where
  "fixed =
     [(''Statement'',
       [(''_type'', JvObj [(''const'', JvStr StatementType)]),
        (''predicateType'', JvObj [(''const'', JvStr PredicateType)])]),
      (''Evaluation'', [(''subjectKind'', JvObj [(''const'', JvStr SubjectKindDescriptor)])]),
      (''Target'',
       [(''transport'',
         JvObj [(''type'', JvStr ''string''), (''enum'', jstrings [''http'', ''stdio''])])]),
      (''Verdict'',
       [(''status'',
         JvObj [(''type'', JvStr ''string''),
                (''enum'', jstrings [''pass'', ''warn'', ''fail'', ''skip'', ''info''])])])]"

definition fixed_for :: "string \<Rightarrow> string \<Rightarrow> jv option" where
  "fixed_for name jname = (case m_get fixed name of None \<Rightarrow> None | Some m \<Rightarrow> m_get m jname)"

definition json_name :: "gofield \<Rightarrow> string" where
  "json_name f =
     (let jname = fst (cut (gfTag f) (CHR '','')) in if jname = [] then gfName f else jname)"

definition hidden :: "gofield \<Rightarrow> bool" where
  "hidden f \<longleftrightarrow> \<not> gfExported f \<or> fst (cut (gfTag f) (CHR '','')) = ''-''"

definition optional :: "gofield \<Rightarrow> bool" where
  "optional f \<longleftrightarrow> contains (snd (cut (gfTag f) (CHR '',''))) ''omitempty''"

definition typed :: "string \<Rightarrow> jv gomap" where
  "typed t = [(''type'', JvStr t)]"

definition ref_to :: "string \<Rightarrow> jv" where
  "ref_to name = JvObj [(''$ref'', JvStr (''#/$defs/'' @ name))]"

definition struct_def :: "jv gomap \<Rightarrow> string list \<Rightarrow> jv" where
  "struct_def props required =
     JvObj (typed ''object'' @ [(''properties'', JvObj props)] @
       (if required = [] then [] else [(''required'', jstrings required)]))"

datatype schema_error = NoMapping string

text \<open>
  \<open>Kind\<close> sees through a name, which is a step of its own here. The result is \<open>None\<close> when the fuel is spent, \<open>Inl\<close> when the program fails for want of a
  mapping, and otherwise the schema and the definitions so far. The second function is the
  loop over the fields, with the properties and the required names it has collected.
\<close>

fun typeSchema ::
    "nat \<Rightarrow> gotypes \<Rightarrow> gotype \<Rightarrow> jv gomap \<Rightarrow> (schema_error + jv \<times> jv gomap) option"
  and fieldSchemas ::
    "nat \<Rightarrow> gotypes \<Rightarrow> string \<Rightarrow> gofield list \<Rightarrow> jv gomap \<Rightarrow> string list \<Rightarrow> jv gomap \<Rightarrow>
     (schema_error + jv gomap \<times> string list \<times> jv gomap) option" where
  "typeSchema 0 env t defs = None"
| "typeSchema (Suc n) env GString defs = Some (Inr (JvObj (typed ''string''), defs))"
| "typeSchema (Suc n) env GBool defs = Some (Inr (JvObj (typed ''boolean''), defs))"
| "typeSchema (Suc n) env GInt defs = Some (Inr (JvObj (typed ''integer''), defs))"
| "typeSchema (Suc n) env GFloat defs = Some (Inr (JvObj (typed ''number''), defs))"
| "typeSchema (Suc n) env GTime defs =
     Some (Inr (JvObj (typed ''string'' @ [(''format'', JvStr ''date-time'')]), defs))"
| "typeSchema (Suc n) env (GPointer e) defs = typeSchema n env e defs"
| "typeSchema (Suc n) env (GSlice e) defs =
     (case typeSchema n env e defs of
        Some (Inr (s, defs')) \<Rightarrow> Some (Inr (JvObj (typed ''array'' @ [(''items'', s)]), defs'))
      | r \<Rightarrow> r)"
| "typeSchema (Suc n) env (GArray e) defs =
     (case typeSchema n env e defs of
        Some (Inr (s, defs')) \<Rightarrow> Some (Inr (JvObj (typed ''array'' @ [(''items'', s)]), defs'))
      | r \<Rightarrow> r)"
| "typeSchema (Suc n) env (GMap e) defs =
     (case typeSchema n env e defs of
        Some (Inr (s, defs')) \<Rightarrow>
          Some (Inr (JvObj (typed ''object'' @ [(''additionalProperties'', s)]), defs'))
      | r \<Rightarrow> r)"
| "typeSchema (Suc n) env (GStruct name) defs =
     (if m_get defs name \<noteq> None then Some (Inr (ref_to name, defs))
      else case fieldSchemas n env name (fields_of env name) m_empty [] (m_put name JvNull defs) of
        None \<Rightarrow> None
      | Some (Inl e) \<Rightarrow> Some (Inl e)
      | Some (Inr (props, required, defs')) \<Rightarrow>
          Some (Inr (ref_to name, m_put name (struct_def props required) defs')))"
| "typeSchema (Suc n) env (GNamed name) defs = typeSchema n env (underlying env name) defs"
| "typeSchema (Suc n) env (GOther s) defs = Some (Inl (NoMapping s))"
| "fieldSchemas n env name [] props required defs = Some (Inr (props, required, defs))"
| "fieldSchemas 0 env name (f # fs) props required defs = None"
| "fieldSchemas (Suc n) env name (f # fs) props required defs =
     (if hidden f then fieldSchemas n env name fs props required defs
      else
        (let jname = json_name f;
             required' = (if optional f then required else required @ [jname]) in
         case fixed_for name jname of
           Some v \<Rightarrow> fieldSchemas n env name fs (m_put jname v props) required' defs
         | None \<Rightarrow>
             (case typeSchema n env (gfType f) defs of
                None \<Rightarrow> None
              | Some (Inl e) \<Rightarrow> Some (Inl e)
              | Some (Inr (s, defs')) \<Rightarrow>
                  fieldSchemas n env name fs (m_put jname s props) required' defs')))"

subsection \<open>The attestation's types\<close>

definition gf :: "string \<Rightarrow> string \<Rightarrow> gotype \<Rightarrow> gofield" where
  "gf name tag t = \<lparr>gfName = name, gfExported = True, gfTag = tag, gfType = t\<rparr>"

definition attestation_types :: gotypes where
  "attestation_types =
     \<lparr>structTypes =
     [(''Statement'',
       [gf ''Type'' ''_type'' GString, gf ''Subject'' ''subject'' (GSlice (GStruct ''Subject'')),
        gf ''PredicateType'' ''predicateType'' GString,
        gf ''Predicate'' ''predicate'' (GStruct ''Evaluation'')]),
      (''Subject'', [gf ''Name'' ''name'' GString, gf ''Digest'' ''digest'' (GMap GString)]),
      (''Evaluation'',
       [gf ''SubjectKind'' ''subjectKind'' GString, gf ''Target'' ''target'' (GStruct ''Target''),
        gf ''JudgedAgainst'' ''judgedAgainst'' (GStruct ''Basis''),
        gf ''Instrument'' ''instrument'' (GStruct ''Instrument''), gf ''RanAt'' ''ranAt'' GTime,
        gf ''Took'' ''took'' GString,
        gf ''Verdicts'' ''verdicts'' (GSlice (GStruct ''Verdict'')),
        gf ''Counts'' ''counts'' (GStruct ''Counts''),
        gf ''Score'' ''score,omitempty'' (GPointer (GStruct ''Score'')),
        gf ''Blocked'' ''blocked,omitempty'' GString, gf ''TraceID'' ''traceId,omitempty'' GString,
        gf ''Plan'' ''plan,omitempty'' (GPointer (GStruct ''Plan''))]),
      (''Plan'',
       [gf ''Spec'' ''spec'' (GNamed ''RawMessage''), gf ''Credentials'' ''credentials'' GString,
        gf ''ByValue'' ''credentialsByValue,omitempty'' (GSlice GString), gf ''OS'' ''os'' GString,
        gf ''Arch'' ''arch'' GString, gf ''Kernel'' ''kernel,omitempty'' GString]),
      (''Target'',
       [gf ''Transport'' ''transport'' GString, gf ''Endpoint'' ''endpoint'' GString,
        gf ''Server'' ''server,omitempty'' (GPointer (GStruct ''ServerIdentity''))]),
      (''ServerIdentity'',
       [gf ''Name'' ''name,omitempty'' GString, gf ''Version'' ''version,omitempty'' GString,
        gf ''Protocol'' ''protocolVersion,omitempty'' GString]),
      (''Basis'',
       [gf ''SpecRevision'' ''specRevision,omitempty'' GString,
        gf ''Rubric'' ''rubric,omitempty'' GString,
        gf ''CheckInventory'' ''checkInventory,omitempty'' GString]),
      (''Instrument'',
       [gf ''Name'' ''name'' GString, gf ''Version'' ''version'' GString,
        gf ''SchemaVersion'' ''reportSchemaVersion'' GInt]),
      (''Verdict'',
       [gf ''ID'' ''id'' GString, gf ''Phase'' ''phase'' GString, gf ''Status'' ''status'' GString,
        gf ''Severity'' ''severity,omitempty'' GString,
        gf ''Evidence'' ''evidence,omitempty'' (GSlice GString),
        gf ''Doc'' ''doc,omitempty'' GString]),
      (''Counts'',
       [gf ''Pass'' ''pass'' GInt, gf ''Warn'' ''warn'' GInt, gf ''Fail'' ''fail'' GInt,
        gf ''Skip'' ''skip'' GInt, gf ''Info'' ''info'' GInt]),
      (''Score'',
       [gf ''Total'' ''total'' GFloat, gf ''Grade'' ''grade'' GString,
        gf ''Assessed'' ''categoriesAssessed'' GInt, gf ''Of'' ''categoriesTotal'' GInt,
        gf ''By'' ''byCategory,omitempty'' (GMap GFloat)])],
      namedTypes = [(''RawMessage'', GSlice GInt)]\<rparr>"

subsection \<open>The document\<close>

definition comment :: string where
  "comment =
     ''Generated by scripts/specgen from the scout-reporting source; do not edit. '' @
     ''Licensed Apache-2.0 (see REUSE.toml).''"

text \<open>\<open>root["$ref"]\<close>.\<close>

definition member :: "string \<Rightarrow> jv \<Rightarrow> jv" where
  "member k v =
     (case v of JvObj m \<Rightarrow> (case m_get m k of None \<Rightarrow> JvNull | Some x \<Rightarrow> x) | _ \<Rightarrow> JvNull)"

definition schema :: "nat \<Rightarrow> (schema_error + jv) option" where
  "schema n =
     (case typeSchema n attestation_types (GStruct ''Statement'') m_empty of
        None \<Rightarrow> None
      | Some (Inl e) \<Rightarrow> Some (Inl e)
      | Some (Inr (rt, defs)) \<Rightarrow>
          Some (Inr (JvObj
            [(''$schema'', JvStr ''https://json-schema.org/draft/2020-12/schema''),
             (''$id'', JvStr (PredicateType @ ''/schema.json'')),
             (''$comment'', JvStr comment),
             (''title'', JvStr ''scout MCP evaluation attestation (in-toto Statement, predicate v1)''),
             (''$ref'', member ''$ref'' rt),
             (''$defs'', JvObj defs)])))"

definition render :: "jv \<Rightarrow> string" where
  "render v = print_indent 0 v @ [CHR 0x0A]"

text \<open>
  \<open>main\<close>: the exit code and what the file holds after. \<open>old\<close> is the file, \<open>None\<close> when it cannot
  be read; that it can be written is assumed.
\<close>

datatype specgen_exit = Ok | OutOfDate | SpecFailed schema_error

definition specgen :: "nat \<Rightarrow> bool \<Rightarrow> string option \<Rightarrow> (specgen_exit \<times> string option) option" where
  "specgen n check old =
     (case schema n of
        None \<Rightarrow> None
      | Some (Inl e) \<Rightarrow> Some (SpecFailed e, old)
      | Some (Inr v) \<Rightarrow>
          (if check then Some (if old \<noteq> Some (render v) then OutOfDate else Ok, old)
           else Some (Ok, Some (render v))))"

subsection \<open>When the walk ends\<close>

lemma m_get_m_put: "m_get (m_put k v m) k' = (if k' = k then Some v else m_get m k')"
  by (rule gm.get_put)

lemma defs_grow:
  "typeSchema n env t defs = Some (Inr (s, defs')) \<Longrightarrow> m_get defs' k = None \<Longrightarrow> m_get defs k = None"
  "fieldSchemas n env name fs props required defs = Some (Inr (props', required', defs')) \<Longrightarrow>
   m_get defs' k = None \<Longrightarrow> m_get defs k = None"
  by (induction n env t defs and n env name fs props required defs
      arbitrary: s defs' and props' required' defs' rule: typeSchema_fieldSchemas.induct)
    (auto simp: m_get_m_put Let_def split: option.splits sum.splits if_splits)

text \<open>More fuel does not change a result.\<close>

lemma more_fuel:
  "typeSchema n env t defs = Some r \<Longrightarrow> typeSchema (Suc n) env t defs = Some r"
  "fieldSchemas n env name fs props required defs = Some q \<Longrightarrow>
   fieldSchemas (Suc n) env name fs props required defs = Some q"
proof (induction n arbitrary: t defs r fs name props required defs q)
  case 0
  { case 1 then show ?case by simp }
  { case 2 then show ?case by (cases fs) simp_all }
next
  case (Suc n)
  {
    case (1 t defs r)
    then show ?case
      by (cases t) (auto dest!: Suc.IH split: option.splits sum.splits if_splits)
  }
  {
    case 2
    then show ?case
      by (cases fs) (auto simp: Let_def dest!: Suc.IH split: option.splits sum.splits if_splits)
  }
qed

lemma still_more_fuel:
  "typeSchema n env t defs = Some r \<Longrightarrow> typeSchema (n + m) env t defs = Some r"
  "fieldSchemas n env name fs props required defs = Some q \<Longrightarrow>
   fieldSchemas (n + m) env name fs props required defs = Some q"
  by (induction m) (simp_all add: more_fuel del: typeSchema.simps fieldSchemas.simps)

text \<open>
  A type is grounded when looking through its slices, arrays, maps, pointers and names comes to
  an end at a basic type or a struct. A struct is entered only while it has no definition, so
  a type that refers to itself through a struct is grounded; \<open>type T []T\<close> is not.
\<close>

inductive grounded :: "gotypes \<Rightarrow> gotype \<Rightarrow> bool" for env where
  grounded_basic: "t \<in> {GString, GBool, GInt, GFloat, GTime} \<Longrightarrow> grounded env t"
| grounded_slice: "grounded env e \<Longrightarrow> grounded env (GSlice e)"
| grounded_array: "grounded env e \<Longrightarrow> grounded env (GArray e)"
| grounded_map: "grounded env e \<Longrightarrow> grounded env (GMap e)"
| grounded_pointer: "grounded env e \<Longrightarrow> grounded env (GPointer e)"
| grounded_struct: "grounded env (GStruct name)"
| grounded_named: "grounded env (underlying env name) \<Longrightarrow> grounded env (GNamed name)"
| grounded_other: "grounded env (GOther s)"

inductive_simps grounded_named_iff: "grounded env (GNamed name)"
inductive_simps grounded_slice_iff: "grounded env (GSlice e)"
inductive_simps grounded_array_iff: "grounded env (GArray e)"
inductive_simps grounded_map_iff: "grounded env (GMap e)"
inductive_simps grounded_pointer_iff: "grounded env (GPointer e)"

lemmas grounded_simps = grounded_named_iff grounded_slice_iff grounded_array_iff grounded_map_iff
  grounded_pointer_iff grounded_struct grounded_other grounded_basic

definition table_grounded :: "gotypes \<Rightarrow> bool" where
  "table_grounded env \<longleftrightarrow> list_all (\<lambda>(name, fs). list_all (\<lambda>f. grounded env (gfType f)) fs) (structTypes env)"

lemma result_grounded: "typeSchema n env t defs = Some r \<Longrightarrow> grounded env t"
proof (induction n arbitrary: t defs r)
  case (Suc n)
  then show ?case
    by (cases t) (auto simp: grounded_simps dest: Suc.IH split: option.splits)
qed simp

text \<open>The structs still without a definition bound how often one is entered.\<close>

definition missing :: "gotypes \<Rightarrow> jv gomap \<Rightarrow> nat" where
  "missing env defs = card {k \<in> fst ` set (structTypes env). m_get defs k = None}"

lemma missing_mono: "(\<And>k. m_get defs' k = None \<Longrightarrow> m_get defs k = None) \<Longrightarrow> missing env defs' \<le> missing env defs"
  unfolding missing_def by (intro card_mono) auto

lemma missing_put:
  assumes "name \<in> fst ` set (structTypes env)" "m_get defs name = None"
  shows "missing env defs = Suc (missing env (m_put name v defs))"
proof -
  have "{k \<in> fst ` set (structTypes env). m_get defs k = None} =
      insert name {k \<in> fst ` set (structTypes env). m_get (m_put name v defs) k = None}"
    using assms by (auto simp: m_get_m_put)
  then show ?thesis by (simp add: missing_def m_get_m_put)
qed

definition walk_ends :: "gotypes \<Rightarrow> gotype \<Rightarrow> jv gomap \<Rightarrow> bool" where
  "walk_ends env t defs \<longleftrightarrow> (\<exists>n. typeSchema n env t defs \<noteq> None)"

lemma fields_end:
  assumes types: "\<And>t defs. grounded env t \<Longrightarrow> missing env defs \<le> k \<Longrightarrow> walk_ends env t defs"
  shows "list_all (\<lambda>f. grounded env (gfType f)) fs \<Longrightarrow> missing env defs \<le> k \<Longrightarrow>
    \<exists>n. fieldSchemas n env name fs props required defs \<noteq> None"
proof (induction fs arbitrary: props required defs)
  case Nil
  then show ?case by simp
next
  case (Cons f fs)
  from types [of "gfType f" defs] Cons.prems obtain n r where
    r: "typeSchema n env (gfType f) defs = Some r" by (auto simp: walk_ends_def)
  have tail: "\<exists>m. fieldSchemas (m + j) env name fs p q d \<noteq> None" if "missing env d \<le> k" for p q d j
    using Cons.IH [OF _ that, of p q] Cons.prems(1) still_more_fuel(2) by fastforce
  have t: "typeSchema (m + n) env (gfType f) defs = Some r" for m
    using still_more_fuel(1) [OF r, of m] by (simp add: add.commute)
  define required' where "required' = (if optional f then required else required @ [json_name f])"
  have "\<exists>m. fieldSchemas (Suc (m + n)) env name (f # fs) props required defs \<noteq> None"
  proof (cases "hidden f")
    case True
    from tail [OF Cons.prems(2), of n props required] True show ?thesis by simp
  next
    case vis: False
    show ?thesis
    proof (cases "fixed_for name (json_name f)")
      case (Some v)
      from tail [OF Cons.prems(2), of n "m_put (json_name f) v props" required'] vis Some show ?thesis
        by (simp add: required'_def Let_def)
    next
      case None
      show ?thesis
      proof (cases r)
        case (Inl e)
        with vis None t show ?thesis by (simp add: Let_def)
      next
        case (Inr sd)
        obtain s d where sd: "sd = (s, d)" by fastforce
        from missing_mono [OF defs_grow(1) [OF r [unfolded Inr sd]]] Cons.prems(2) have "missing env d \<le> k"
          by (meson order_trans)
        from tail [OF this, of n "m_put (json_name f) s props" required'] vis None t Inr sd show ?thesis
          by (simp add: required'_def Let_def)
      qed
    qed
  qed
  then show ?case by blast
qed

lemma walk_ends_step:
  "typeSchema (Suc n) env t defs \<noteq> None \<Longrightarrow> walk_ends env t defs"
  unfolding walk_ends_def by blast

lemma types_end:
  assumes "table_grounded env"
  shows "grounded env t \<Longrightarrow> missing env defs \<le> k \<Longrightarrow> walk_ends env t defs"
proof (induction k arbitrary: t defs rule: less_induct)
  case (less k)
  from less.prems(1,2) show ?case
  proof (induction t rule: grounded.induct)
    case (grounded_struct name)
    show ?case
    proof (cases "m_get defs name = None \<and> name \<in> fst ` set (structTypes env)")
      case True
      with missing_put [of name env defs JvNull] grounded_struct
      have small: "missing env (m_put name JvNull defs) < k" by simp
      obtain fs where "map_of (structTypes env) name = Some fs"
        using True by (cases "map_of (structTypes env) name") (auto simp: map_of_eq_None_iff)
      then have "list_all (\<lambda>f. grounded env (gfType f)) (fields_of env name)"
        using assms by (auto simp: table_grounded_def fields_of_def list_all_iff dest!: map_of_SomeD)
      from fields_end [OF less.IH [OF small] this order_refl] obtain n q where
        "fieldSchemas n env name (fields_of env name) m_empty [] (m_put name JvNull defs) = Some q"
        by blast
      with True have "typeSchema (Suc n) env (GStruct name) defs \<noteq> None"
        by (simp split: sum.split)
      then show ?thesis by (rule walk_ends_step)
    next
      case False
      then have "m_get defs name \<noteq> None \<or> fields_of env name = []"
        by (auto simp: fields_of_def split: option.split dest!: map_of_SomeD intro: rev_image_eqI)
      then have "typeSchema (Suc 0) env (GStruct name) defs \<noteq> None" by auto
      then show ?thesis by (rule walk_ends_step)
    qed
  next
    case (grounded_basic t)
    then have "typeSchema (Suc 0) env t defs \<noteq> None" by auto
    then show ?case by (rule walk_ends_step)
  next
    case (grounded_other s)
    have "typeSchema (Suc 0) env (GOther s) defs \<noteq> None" by simp
    then show ?case by (rule walk_ends_step)
  next
    case (grounded_named name)
    then obtain n where "typeSchema (Suc n) env (GNamed name) defs \<noteq> None" by (auto simp: walk_ends_def)
    then show ?case by (rule walk_ends_step)
  next
    case (grounded_pointer e)
    then obtain n where "typeSchema (Suc n) env (GPointer e) defs \<noteq> None" by (auto simp: walk_ends_def)
    then show ?case by (rule walk_ends_step)
  next
    case (grounded_slice e)
    then obtain n r where "typeSchema n env e defs = Some r" by (auto simp: walk_ends_def)
    then have "typeSchema (Suc n) env (GSlice e) defs \<noteq> None" by (simp split: sum.split)
    then show ?case by (rule walk_ends_step)
  next
    case (grounded_array e)
    then obtain n r where "typeSchema n env e defs = Some r" by (auto simp: walk_ends_def)
    then have "typeSchema (Suc n) env (GArray e) defs \<noteq> None" by (simp split: sum.split)
    then show ?case by (rule walk_ends_step)
  next
    case (grounded_map e)
    then obtain n r where "typeSchema n env e defs = Some r" by (auto simp: walk_ends_def)
    then have "typeSchema (Suc n) env (GMap e) defs \<noteq> None" by (simp split: sum.split)
    then show ?case by (rule walk_ends_step)
  qed
qed

end
