(* ===== verification/SpecgenProps.thy ===== *)
theory SpecgenProps
  imports Specgen
begin

text \<open>
  The published schema, \<open>spec/attestation/mcp-evaluation-v1.schema.json\<close>, line by line, with a
  backquote for every double quote, and what the generator makes of the attestation's types.
\<close>

definition unlines :: "string list \<Rightarrow> string" where
  "unlines ls = concat (map (\<lambda>l. map (\<lambda>c. if c = CHR 0x60 then CHR 0x22 else c) l @ [CHR 0x0A]) ls)"

definition text_head :: "string list" where
  "text_head =
     [''{'',
      ''  `$comment`: `Generated by scripts/specgen from the scout-reporting source; do not edit. Licensed Apache-2.0 (see REUSE.toml).`,'',
      ''  `$defs`: {'']"

definition text_Basis :: "string list" where
  "text_Basis =
     [''    `Basis`: {'', ''      `properties`: {'', ''        `checkInventory`: {'',
      ''          `type`: `string`'', ''        },'', ''        `rubric`: {'',
      ''          `type`: `string`'', ''        },'', ''        `specRevision`: {'',
      ''          `type`: `string`'', ''        }'', ''      },'', ''      `type`: `object`'',
      ''    },'']"

definition text_Counts :: "string list" where
  "text_Counts =
     [''    `Counts`: {'', ''      `properties`: {'', ''        `fail`: {'',
      ''          `type`: `integer`'', ''        },'', ''        `info`: {'',
      ''          `type`: `integer`'', ''        },'', ''        `pass`: {'',
      ''          `type`: `integer`'', ''        },'', ''        `skip`: {'',
      ''          `type`: `integer`'', ''        },'', ''        `warn`: {'',
      ''          `type`: `integer`'', ''        }'', ''      },'', ''      `required`: ['',
      ''        `pass`,'', ''        `warn`,'', ''        `fail`,'', ''        `skip`,'',
      ''        `info`'', ''      ],'', ''      `type`: `object`'', ''    },'']"

definition text_Evaluation :: "string list" where
  "text_Evaluation =
     [''    `Evaluation`: {'', ''      `properties`: {'', ''        `blocked`: {'',
      ''          `type`: `string`'', ''        },'', ''        `counts`: {'',
      ''          `$ref`: `#/$defs/Counts`'', ''        },'', ''        `instrument`: {'',
      ''          `$ref`: `#/$defs/Instrument`'', ''        },'', ''        `judgedAgainst`: {'',
      ''          `$ref`: `#/$defs/Basis`'', ''        },'', ''        `plan`: {'',
      ''          `$ref`: `#/$defs/Plan`'', ''        },'', ''        `ranAt`: {'',
      ''          `format`: `date-time`,'', ''          `type`: `string`'', ''        },'',
      ''        `score`: {'', ''          `$ref`: `#/$defs/Score`'', ''        },'',
      ''        `subjectKind`: {'', ''          `const`: `mcp-target-descriptor`'', ''        },'',
      ''        `target`: {'', ''          `$ref`: `#/$defs/Target`'', ''        },'',
      ''        `took`: {'', ''          `type`: `string`'', ''        },'',
      ''        `traceId`: {'', ''          `type`: `string`'', ''        },'',
      ''        `verdicts`: {'', ''          `items`: {'',
      ''            `$ref`: `#/$defs/Verdict`'', ''          },'', ''          `type`: `array`'',
      ''        }'', ''      },'', ''      `required`: ['', ''        `subjectKind`,'',
      ''        `target`,'', ''        `judgedAgainst`,'', ''        `instrument`,'',
      ''        `ranAt`,'', ''        `took`,'', ''        `verdicts`,'', ''        `counts`'',
      ''      ],'', ''      `type`: `object`'', ''    },'']"

definition text_Instrument :: "string list" where
  "text_Instrument =
     [''    `Instrument`: {'', ''      `properties`: {'', ''        `name`: {'',
      ''          `type`: `string`'', ''        },'', ''        `reportSchemaVersion`: {'',
      ''          `type`: `integer`'', ''        },'', ''        `version`: {'',
      ''          `type`: `string`'', ''        }'', ''      },'', ''      `required`: ['',
      ''        `name`,'', ''        `version`,'', ''        `reportSchemaVersion`'', ''      ],'',
      ''      `type`: `object`'', ''    },'']"

definition text_Plan :: "string list" where
  "text_Plan =
     [''    `Plan`: {'', ''      `properties`: {'', ''        `arch`: {'',
      ''          `type`: `string`'', ''        },'', ''        `credentials`: {'',
      ''          `type`: `string`'', ''        },'', ''        `credentialsByValue`: {'',
      ''          `items`: {'', ''            `type`: `string`'', ''          },'',
      ''          `type`: `array`'', ''        },'', ''        `kernel`: {'',
      ''          `type`: `string`'', ''        },'', ''        `os`: {'',
      ''          `type`: `string`'', ''        },'', ''        `spec`: {'',
      ''          `items`: {'', ''            `type`: `integer`'', ''          },'',
      ''          `type`: `array`'', ''        }'', ''      },'', ''      `required`: ['',
      ''        `spec`,'', ''        `credentials`,'', ''        `os`,'', ''        `arch`'',
      ''      ],'', ''      `type`: `object`'', ''    },'']"

definition text_Score :: "string list" where
  "text_Score =
     [''    `Score`: {'', ''      `properties`: {'', ''        `byCategory`: {'',
      ''          `additionalProperties`: {'', ''            `type`: `number`'', ''          },'',
      ''          `type`: `object`'', ''        },'', ''        `categoriesAssessed`: {'',
      ''          `type`: `integer`'', ''        },'', ''        `categoriesTotal`: {'',
      ''          `type`: `integer`'', ''        },'', ''        `grade`: {'',
      ''          `type`: `string`'', ''        },'', ''        `total`: {'',
      ''          `type`: `number`'', ''        }'', ''      },'', ''      `required`: ['',
      ''        `total`,'', ''        `grade`,'', ''        `categoriesAssessed`,'',
      ''        `categoriesTotal`'', ''      ],'', ''      `type`: `object`'', ''    },'']"

definition text_ServerIdentity :: "string list" where
  "text_ServerIdentity =
     [''    `ServerIdentity`: {'', ''      `properties`: {'', ''        `name`: {'',
      ''          `type`: `string`'', ''        },'', ''        `protocolVersion`: {'',
      ''          `type`: `string`'', ''        },'', ''        `version`: {'',
      ''          `type`: `string`'', ''        }'', ''      },'', ''      `type`: `object`'',
      ''    },'']"

definition text_Statement :: "string list" where
  "text_Statement =
     [''    `Statement`: {'', ''      `properties`: {'', ''        `_type`: {'',
      ''          `const`: `https://in-toto.io/Statement/v1`'', ''        },'',
      ''        `predicate`: {'', ''          `$ref`: `#/$defs/Evaluation`'', ''        },'',
      ''        `predicateType`: {'',
      ''          `const`: `https://scoutmcp.io/attestation/mcp-evaluation/v1`'', ''        },'',
      ''        `subject`: {'', ''          `items`: {'',
      ''            `$ref`: `#/$defs/Subject`'', ''          },'', ''          `type`: `array`'',
      ''        }'', ''      },'', ''      `required`: ['', ''        `_type`,'',
      ''        `subject`,'', ''        `predicateType`,'', ''        `predicate`'', ''      ],'',
      ''      `type`: `object`'', ''    },'']"

definition text_Subject :: "string list" where
  "text_Subject =
     [''    `Subject`: {'', ''      `properties`: {'', ''        `digest`: {'',
      ''          `additionalProperties`: {'', ''            `type`: `string`'', ''          },'',
      ''          `type`: `object`'', ''        },'', ''        `name`: {'',
      ''          `type`: `string`'', ''        }'', ''      },'', ''      `required`: ['',
      ''        `name`,'', ''        `digest`'', ''      ],'', ''      `type`: `object`'',
      ''    },'']"

definition text_Target :: "string list" where
  "text_Target =
     [''    `Target`: {'', ''      `properties`: {'', ''        `endpoint`: {'',
      ''          `type`: `string`'', ''        },'', ''        `server`: {'',
      ''          `$ref`: `#/$defs/ServerIdentity`'', ''        },'', ''        `transport`: {'',
      ''          `enum`: ['', ''            `http`,'', ''            `stdio`'', ''          ],'',
      ''          `type`: `string`'', ''        }'', ''      },'', ''      `required`: ['',
      ''        `transport`,'', ''        `endpoint`'', ''      ],'', ''      `type`: `object`'',
      ''    },'']"

definition text_Verdict :: "string list" where
  "text_Verdict =
     [''    `Verdict`: {'', ''      `properties`: {'', ''        `doc`: {'',
      ''          `type`: `string`'', ''        },'', ''        `evidence`: {'',
      ''          `items`: {'', ''            `type`: `string`'', ''          },'',
      ''          `type`: `array`'', ''        },'', ''        `id`: {'',
      ''          `type`: `string`'', ''        },'', ''        `phase`: {'',
      ''          `type`: `string`'', ''        },'', ''        `severity`: {'',
      ''          `type`: `string`'', ''        },'', ''        `status`: {'',
      ''          `enum`: ['', ''            `pass`,'', ''            `warn`,'',
      ''            `fail`,'', ''            `skip`,'', ''            `info`'', ''          ],'',
      ''          `type`: `string`'', ''        }'', ''      },'', ''      `required`: ['',
      ''        `id`,'', ''        `phase`,'', ''        `status`'', ''      ],'',
      ''      `type`: `object`'', ''    }'']"

definition text_tail :: "string list" where
  "text_tail =
     [''  },'', ''  `$id`: `https://scoutmcp.io/attestation/mcp-evaluation/v1/schema.json`,'',
      ''  `$ref`: `#/$defs/Statement`,'',
      ''  `$schema`: `https://json-schema.org/draft/2020-12/schema`,'',
      ''  `title`: `scout MCP evaluation attestation (in-toto Statement, predicate v1)`'', ''}'']"

definition published_schema :: string where
  "published_schema = unlines
     (text_head @ text_Basis @ text_Counts @ text_Evaluation @ text_Instrument @ text_Plan @
      text_Score @ text_ServerIdentity @ text_Statement @ text_Subject @ text_Target @
      text_Verdict @ text_tail)"

lemma schema_40: "case schema 40 of Some (Inr v) \<Rightarrow> render v = published_schema | _ \<Rightarrow> False"
  by code_simp

lemma more_fuel_schema: "schema 40 = Some (Inr v) \<Longrightarrow> schema (40 + m) = Some (Inr v)"
  using still_more_fuel(1) [of 40 attestation_types "GStruct ''Statement''" m_empty _ m]
  by (cases "typeSchema 40 attestation_types (GStruct ''Statement'') m_empty")
    (simp_all add: schema_def)

text \<open>
  C36. The published schema is the one the source generates: on the repository's file, byte for
  byte, \<open>specgen -check\<close> succeeds, and \<open>specgen\<close> writes that file whatever was there before.
\<close>

theorem published_schema_is_generated:
  "specgen (40 + m) True (Some published_schema) = Some (Ok, Some published_schema) \<and>
   specgen (40 + m) False old = Some (Ok, Some published_schema)"
proof -
  obtain v where "schema 40 = Some (Inr v)" "render v = published_schema"
    using schema_40 by (auto split: option.splits sum.splits)
  with more_fuel_schema [OF this(1), of m] show ?thesis by (simp add: specgen_def)
qed

lemma attestation_grounded: "table_grounded attestation_types"
  by (simp add: table_grounded_def attestation_types_def gf_def grounded_simps underlying_def)

text \<open>
  C37. When no struct of the table has a field whose type goes round in a circle of slices,
  arrays, maps, pointers and defined types, the walk over a type ends exactly when the type
  itself does not go round so: a type may refer to itself through a struct, but on one like
  \<open>type T []T\<close> the program never ends. More fuel does not change a result.
\<close>

theorem typeSchema_terminates:
  assumes "table_grounded env"
  shows "(\<exists>n r. \<forall>m. typeSchema (n + m) env t defs = Some r) \<longleftrightarrow> grounded env t"
proof
  assume "grounded env t"
  from types_end [OF assms this order_refl, of defs] obtain n r where "typeSchema n env t defs = Some r"
    by (auto simp: walk_ends_def)
  then show "\<exists>n r. \<forall>m. typeSchema (n + m) env t defs = Some r" using still_more_fuel(1) by blast
qed (use result_grounded in blast)

theorem typeSchema_terminates_witness:
  "\<exists>n r. \<forall>m. typeSchema (n + m) attestation_types (GStruct ''Statement'') m_empty = Some r"
  using typeSchema_terminates [OF attestation_grounded, of "GStruct ''Statement''"] grounded_struct by blast

text \<open>A defined slice of itself: no fuel is enough.\<close>

lemma recursive_slice_runs_on:
  assumes "map_of (namedTypes env) ''T'' = Some (GSlice (GNamed ''T''))"
  shows "typeSchema n env (GNamed ''T'') defs = None \<and> typeSchema n env (GSlice (GNamed ''T'')) defs = None"
proof (induction n)
  case (Suc n)
  then show ?case using assms by (simp add: underlying_def)
qed simp

text \<open>
  The published schema is narrower than the format: it asks for an array of integers as the
  \<open>spec\<close> of a plan, the Go type of raw bytes, where the decoder takes any JSON value and keeps
  it as it is.
\<close>

theorem plan_spec_is_narrowed:
  "map_option (map_sum (\<lambda>e. e) (\<lambda>v. member ''spec'' (member ''properties'' (member ''Plan'' (member ''$defs'' v)))))
     (schema 40) =
   Some (Inr (JvObj [(''type'', JvStr ''array''), (''items'', JvObj [(''type'', JvStr ''integer'')])])) \<and>
   dec_plan raw0 (JObj [(''spec'', raw, v)]) p = Some (p\<lparr>plSpec := raw\<rparr>)"
proof
  show "dec_plan raw0 (JObj [(''spec'', raw, v)]) p = Some (p\<lparr>plSpec := raw\<rparr>)"
    by (simp add: dec_plan_def find_field_def fld_def dec_raw_def)
qed code_simp

end
