(* ===== verification/VerifyExample.thy ===== *)
theory VerifyExample
  imports ParseProps
begin

text \<open>
  \<open>examples/verify/main.go\<close>, the smallest consumer of a statement: it reads one from the file it
  is given, checks it and prints the score and the failing checks. A run is its exit code and
  what it writes to stdout and stderr.
\<close>

subsection \<open>Formatting\<close>

text \<open>\<open>%.0f\<close>.\<close>

fun format_f0 :: "float64 \<Rightarrow> string" where
  "format_f0 (Fin q) = (if q < 0 then ''-'' else []) @ show_nat (nat (round_half_even \<bar>q\<bar>))"
| "format_f0 PosInf = ''+Inf''"
| "format_f0 NegInf = ''-Inf''"
| "format_f0 NaN = ''NaN''"

text \<open>\<open>%-8s\<close> counts runes.\<close>

function rune_count :: "string \<Rightarrow> nat" where
  "rune_count s = (if s = [] then 0 else Suc (rune_count (drop (snd (decode_rune s)) s)))"
  by pat_completeness auto
termination
proof (relation "measure length", goal_cases)
  case (2 s)
  then show ?case using decode_rune_width [of s] by (simp add: less_le_trans)
qed simp

declare rune_count.simps [simp del]

definition pad_right :: "nat \<Rightarrow> string \<Rightarrow> string" where
  "pad_right n s = s @ replicate (n - rune_count s) (CHR '' '')"

subsection \<open>The program\<close>

record run_result =
  exit_code :: nat
  stdout :: string
  stderr :: string

definition failed_run :: "nat \<Rightarrow> string \<Rightarrow> run_result" where
  "failed_run code msg = \<lparr>exit_code = code, stdout = [], stderr = msg @ ''\<newline>''\<rparr>"

definition score_summary :: "Evaluation \<Rightarrow> string" where
  "score_summary p =
     (case EvScore p of
        None \<Rightarrow> ''no score''
      | Some s \<Rightarrow> ''score '' @ format_f0 (scTotal s) @ ''/100 ('' @ scGrade s @ '') under rubric '' @
          Rubric (JudgedAgainst p))"

definition summary_line :: "Evaluation \<Rightarrow> string" where
  "summary_line p =
     tTransport (EvTarget p) @ '' '' @ tEndpoint (EvTarget p) @ '' '' @ em_dash @ '' '' @
     score_summary p @ ''; judged against MCP '' @ SpecRevision (JudgedAgainst p) @ '' by '' @
     iName (EvInstrument p) @ '' '' @ iVersion (EvInstrument p) @ ''; '' @
     show_int (nPass (EvCounts p)) @ '' pass, '' @ show_int (nWarn (EvCounts p)) @ '' warn, '' @
     show_int (nFail (EvCounts p)) @ '' fail, '' @ show_int (nSkip (EvCounts p)) @ '' skip'' @
     ''\<newline>''"

definition fail_line :: "Verdict \<Rightarrow> string" where
  "fail_line v =
     ''  fail  '' @ pad_right 8 (vSeverity v) @ '' '' @ pad_right 40 (vID v) @ '' '' @ vDoc v @
     ''\<newline>''"

definition fail_lines :: "Verdict list \<Rightarrow> string" where
  "fail_lines vs = concat (map (\<lambda>v. if vStatus v = ''fail'' then fail_line v else []) vs)"

text \<open>\<open>args\<close> is \<open>os.Args\<close>, the program's name first.\<close>

definition verify_main :: "World \<Rightarrow> string list \<Rightarrow> run_result" where
  "verify_main w args =
     (if length args \<noteq> 2 then failed_run 2 ''usage: verify <statement.json>''
      else case openFile w (args ! 1) of
        Inl e \<Rightarrow> failed_run 1 e
      | Inr f \<Rightarrow>
          (case stError f of
             Some e \<Rightarrow> failed_run 1 e
           | None \<Rightarrow>
               (case Parse (stBytes f) of
                  Inl e \<Rightarrow> failed_run 1 (''not a scout attestation: '' @
                    parse_error_text (uniPrint w) (jsonErr w (stBytes f)) e)
                | Inr st \<Rightarrow>
                    (case Validate st of
                       Some ps \<Rightarrow> failed_run 1 (''invalid: '' @ problems_text (uniPrint w) ps)
                     | None \<Rightarrow>
                         \<lparr>exit_code = 0,
                          stdout = summary_line (Predicate st) @ fail_lines (Verdicts (Predicate st)),
                          stderr = []\<rparr>))))"

subsection \<open>What it says\<close>

lemma fail_lines_filter: "fail_lines vs = concat (map fail_line (filter (\<lambda>v. vStatus v = ''fail'') vs))"
  by (induction vs) (simp_all add: fail_lines_def)


end
