(* ===== verification/SpdxSweep.thy ===== *)
theory SpdxSweep
  imports GoStrings
begin

text \<open>
  \<open>scripts/spdx_sweep.go\<close>: the licence gate. It walks the tree below the working directory and
  lists the source files without an SPDX identifier in their first five lines. The file tree is
  an argument: a file holds the bytes that can be read from it, or cannot be opened.
\<close>

subsection \<open>Paths\<close>

definition drop_slashes :: "string \<Rightarrow> string" where
  "drop_slashes p = rev (dropWhile (\<lambda>c. c = CHR ''/'') (rev p))"

definition after_slash :: "string \<Rightarrow> string" where
  "after_slash p = rev (takeWhile (\<lambda>c. c \<noteq> CHR ''/'') (rev p))"

text \<open>\<open>filepath.Base\<close>, \<open>filepath.Ext\<close>, and \<open>filepath.Join\<close> of a walked directory and an entry.\<close>

definition base_name :: "string \<Rightarrow> string" where
  "base_name p =
     (if p = [] then ''.''
      else if drop_slashes p = [] then ''/'' else after_slash (drop_slashes p))"

definition file_ext :: "string \<Rightarrow> string" where
  "file_ext p =
     (let b = after_slash p in
      if CHR ''.'' \<in> set b then ''.'' @ rev (takeWhile (\<lambda>c. c \<noteq> CHR ''.'') (rev b)) else [])"

definition join_path :: "string \<Rightarrow> string \<Rightarrow> string" where
  "join_path dir n = (if dir = ''.'' then n else dir @ ''/'' @ n)"

subsection \<open>Which files\<close>

definition skip_dirs :: "string list" where
  "skip_dirs = [''.git'', ''build'', ''dist'', ''vendor'', ''node_modules'', ''site'']"

definition wants :: "string \<Rightarrow> bool" where
  "wants p =
     (let base = base_name p in
      if base \<in> set [''go.mod'', ''go.sum'', ''LICENSE'', ''flake.lock'', ''CODEOWNERS'',
        ''CITATION.cff'', ''.gitignore'', ''.gitattributes'', ''.DS_Store''] then False
      else if has_prefix base ''.'' \<and> \<not> has_prefix base ''.golangci'' \<and>
        \<not> has_prefix base ''.goreleaser'' \<and> \<not> has_prefix base ''.pre-commit'' \<and>
        \<not> has_prefix base ''.editorconfig'' \<and> \<not> has_prefix base ''.markdownlint'' \<and>
        \<not> has_prefix base ''.gitleaks'' then False
      else if file_ext p \<in> set [''.go'', ''.sh'', ''.yml'', ''.yaml'', ''.md'', ''.toml'', ''.jsonc'',
        ''.nix'', ''.svg''] then True
      else base = ''Makefile'' \<or> base = ''GNUmakefile'' \<or> base = ''Dockerfile'' \<or>
        has_prefix base ''.editorconfig'')"

subsection \<open>The header\<close>

text \<open>
  \<open>bufio.Scanner\<close> over lines: a trailing carriage return is dropped, and the scan stops for good
  at a line that does not fit its buffer of 64 KiB.
\<close>

definition max_token :: nat where
  "max_token = 65536"

definition drop_cr :: "bytes \<Rightarrow> bytes" where
  "drop_cr l = (if l \<noteq> [] \<and> last l = CHR 0x0D then butlast l else l)"

function scan_lines :: "bytes \<Rightarrow> bytes list" where
  "scan_lines s =
     (if s = [] then []
      else let l = takeWhile (\<lambda>c. c \<noteq> CHR 0x0A) s in
        if length l \<ge> max_token then []
        else drop_cr l # scan_lines (drop (Suc (length l)) s))"
  by pat_completeness auto
termination by (relation "measure length") auto

declare scan_lines.simps [simp del]

definition marker :: string where
  "marker = ''SPDX-License-Identifier:''"

text \<open>\<open>None\<close> is a file that cannot be opened; a read error ends the scan like the end of the file.\<close>

definition hasHeader :: "bytes option \<Rightarrow> bool" where
  "hasHeader f =
     (case f of
        None \<Rightarrow> False
      | Some b \<Rightarrow> list_ex (\<lambda>l. contains l marker) (take 5 (scan_lines b)))"

subsection \<open>The walk\<close>

text \<open>A directory lists its entries by name, or cannot be read.\<close>

datatype node =
    File "bytes option"
  | Dir "string + (string \<times> node) list"

text \<open>\<open>WalkDir\<close> with the program's function: the error that ends it, or the files missing a header.\<close>

fun walk :: "string \<Rightarrow> string \<Rightarrow> node \<Rightarrow> string + string list"
  and walk_entries :: "string \<Rightarrow> (string \<times> node) list \<Rightarrow> string + string list" where
  "walk p name (File f) =
     (if \<not> wants p then Inr [] else if \<not> hasHeader f then Inr [p] else Inr [])"
| "walk p name (Dir (Inl e)) =
     (if name \<in> set skip_dirs \<and> p \<noteq> ''.'' then Inr [] else Inl e)"
| "walk p name (Dir (Inr es)) =
     (if name \<in> set skip_dirs \<and> p \<noteq> ''.'' then Inr [] else walk_entries p es)"
| "walk_entries p [] = Inr []"
| "walk_entries p ((n, x) # es) =
     (case walk (join_path p n) n x of
        Inl e \<Rightarrow> Inl e
      | Inr ms \<Rightarrow>
          (case walk_entries p es of
             Inl e \<Rightarrow> Inl e
           | Inr ms' \<Rightarrow> Inr (ms @ ms')))"

record sweep_result =
  sweep_code :: nat
  sweep_out :: string
  sweep_err :: string

definition sweep :: "node \<Rightarrow> sweep_result" where
  "sweep tree =
     (case walk ''.'' ''.'' tree of
        Inl e \<Rightarrow> \<lparr>sweep_code = 1, sweep_out = [], sweep_err = e @ ''\<newline>''\<rparr>
      | Inr missing \<Rightarrow>
          (if length missing > 0 then
             \<lparr>sweep_code = 1, sweep_out = [],
              sweep_err = ''files without an SPDX-License-Identifier in their first 5 lines:\<newline>'' @
                concat (map (\<lambda>m. ''  '' @ m @ ''\<newline>'') missing)\<rparr>
           else
             \<lparr>sweep_code = 0,
              sweep_out = ''spdx-check: every source file carries a license header\<newline>'',
              sweep_err = []\<rparr>))"

subsection \<open>What is below a directory\<close>

text \<open>
  \<open>below p name x q f\<close>: from the node \<open>x\<close> at path \<open>p\<close>, the file \<open>f\<close> at path \<open>q\<close> is reached without
  going through a directory that is skipped; \<open>broken\<close>: so is a directory that cannot be read.
\<close>

inductive below :: "string \<Rightarrow> string \<Rightarrow> node \<Rightarrow> string \<Rightarrow> bytes option \<Rightarrow> bool" where
  at_file: "below p name (File f) p f"
| in_dir: "\<lbrakk>name \<notin> set skip_dirs \<or> p = ''.''; (n, x) \<in> set es; below (join_path p n) n x q f\<rbrakk> \<Longrightarrow>
    below p name (Dir (Inr es)) q f"

inductive broken :: "string \<Rightarrow> string \<Rightarrow> node \<Rightarrow> string \<Rightarrow> bool" where
  unreadable: "name \<notin> set skip_dirs \<or> p = ''.'' \<Longrightarrow> broken p name (Dir (Inl e)) e"
| inner: "\<lbrakk>name \<notin> set skip_dirs \<or> p = ''.''; (n, x) \<in> set es; broken (join_path p n) n x e\<rbrakk> \<Longrightarrow>
    broken p name (Dir (Inr es)) e"

inductive_simps below_simps [simp]:
  "below p name (File g) q f" "below p name (Dir (Inl e)) q f" "below p name (Dir (Inr es)) q f"

inductive_simps broken_simps [simp]:
  "broken p name (File g) e" "broken p name (Dir (Inl e')) e" "broken p name (Dir (Inr es)) e"

lemma walk_Inr:
  "walk p name x = Inr ms \<Longrightarrow>
   q \<in> set ms \<longleftrightarrow> wants q \<and> (\<exists>f. below p name x q f \<and> \<not> hasHeader f)"
  "walk_entries p es = Inr ms' \<Longrightarrow>
   q \<in> set ms' \<longleftrightarrow> wants q \<and> (\<exists>n x f. (n, x) \<in> set es \<and> below (join_path p n) n x q f \<and> \<not> hasHeader f)"
  by (induction p name x and p es arbitrary: ms and ms' rule: walk_walk_entries.induct)
    (auto split: if_splits sum.splits, blast)

lemma walk_Inl:
  "(\<exists>e. walk p name x = Inl e) \<longleftrightarrow> (\<exists>e. broken p name x e)"
  "(\<exists>e. walk_entries p es = Inl e) \<longleftrightarrow> (\<exists>n x e. (n, x) \<in> set es \<and> broken (join_path p n) n x e)"
proof (induction p name x and p es rule: walk_walk_entries.induct)
  case (5 p n x es)
  then show ?case by (auto split: sum.splits) (metis sum.exhaust_sel sum.disc)+
qed auto

text \<open>
  C39. The sweep passes exactly when every directory it enters can be read and every file it wants
  carries the identifier in its first five lines, skipped directories apart; the files it lists
  are exactly the others.
\<close>

theorem sweep_passes_iff:
  "(sweep_code (sweep tree) = 0 \<longleftrightarrow>
     (\<nexists>e. broken ''.'' ''.'' tree e) \<and>
     (\<nexists>q f. below ''.'' ''.'' tree q f \<and> wants q \<and> \<not> hasHeader f)) \<and>
   (case walk ''.'' ''.'' tree of
      Inl e \<Rightarrow> \<exists>e'. broken ''.'' ''.'' tree e'
    | Inr ms \<Rightarrow> set ms = {q. wants q \<and> (\<exists>f. below ''.'' ''.'' tree q f \<and> \<not> hasHeader f)})"
proof (cases "walk ''.'' ''.'' tree")
  case (Inl e)
  then show ?thesis using walk_Inl(1) [of "''.''" "''.''" tree] by (auto simp: sweep_def)
next
  case (Inr ms)
  note files = walk_Inr(1) [OF Inr]
  from Inr have "\<nexists>e. broken ''.'' ''.'' tree e" using walk_Inl(1) [of "''.''" "''.''" tree] by simp
  moreover have "sweep_code (sweep tree) = 0 \<longleftrightarrow> ms = []" using Inr by (simp add: sweep_def)
  moreover have "ms = [] \<longleftrightarrow> (\<nexists>q f. below ''.'' ''.'' tree q f \<and> wants q \<and> \<not> hasHeader f)"
    using files by (metis list.set_intros(1) neq_Nil_conv set_empty2 ex_in_conv)
  ultimately show ?thesis using Inr files by auto
qed

lemma scan_lines_line:
  "CHR 0x0A \<notin> set l \<Longrightarrow> length l < max_token \<Longrightarrow>
   scan_lines (l @ CHR 0x0A # s) = drop_cr l # scan_lines s"
proof -
  assume "CHR 0x0A \<notin> set l" "length l < max_token"
  moreover from this have "takeWhile (\<lambda>c. c \<noteq> CHR 0x0A) (l @ CHR 0x0A # s) = l"
    by (subst takeWhile_append2) auto
  ultimately show ?thesis by (subst scan_lines.simps) (simp add: Let_def)
qed

lemma contains_snoc_other:
  assumes "c \<notin> set x"
  shows "contains (s @ [c]) x \<longleftrightarrow> contains s x \<or> x = []"
proof
  assume "contains (s @ [c]) x"
  then obtain a b where ab: "s @ [c] = a @ x @ b" by (auto simp: contains_iff)
  show "contains s x \<or> x = []"
  proof (cases b rule: rev_cases)
    case Nil
    with ab assms show ?thesis by (cases x rule: rev_cases) auto
  next
    case (snoc b' d)
    with ab have "s = a @ x @ b'" by (simp flip: append_assoc)
    then show ?thesis by (auto simp: contains_iff)
  qed
next
  assume "contains s x \<or> x = []"
  then show "contains (s @ [c]) x" by (auto simp: contains_iff) (metis append.assoc append_Nil)+
qed

lemma contains_drop_cr: "contains (drop_cr l) marker \<longleftrightarrow> contains l marker"
  using contains_snoc_other [of "CHR 0x0D" marker "butlast l"]
  by (cases l rule: rev_cases) (auto simp: drop_cr_def marker_def)

text \<open>
  What the first five lines are: a file of lines that fit the scanner's buffer has its header
  exactly when one of its first five lines holds the identifier, carriage returns or not.
\<close>

theorem header_in_first_five:
  assumes "\<forall>l\<in>set ls. CHR 0x0A \<notin> set l \<and> length l < max_token"
  shows "hasHeader (Some (concat (map (\<lambda>l. l @ [CHR 0x0A]) ls))) \<longleftrightarrow>
    (\<exists>l\<in>set (take 5 ls). contains l marker)"
proof -
  have "scan_lines (concat (map (\<lambda>l. l @ [CHR 0x0A]) ls)) = map drop_cr ls"
    using assms by (induction ls) (simp_all add: scan_lines_line scan_lines.simps [of "[]"])
  then show ?thesis
    by (simp add: hasHeader_def take_map list_ex_iff contains_drop_cr)
qed

theorem header_in_first_five_witness:
  "hasHeader (Some (''#!/bin/sh'' @ [CHR 0x0A] @ ''# '' @ marker @ '' MIT'' @ [CHR 0x0A]))"
  using header_in_first_five [of "[''#!/bin/sh'', ''# '' @ marker @ '' MIT'']"]
  by (simp add: marker_def max_token_def)

end
