(* ===== verification/Apidoc.thy ===== *)
theory Apidoc
  imports GoStrings
begin

text \<open>
  \<open>scripts/apidoc/main.go\<close>: the documentation gate. What \<open>go/parser\<close> and \<open>go/doc\<close> make of a
  directory is an argument; the records below are the parts of \<open>doc.Package\<close> the program reads.
  Whether a non-ASCII rune is upper case is an argument too.
\<close>

subsection \<open>The package\<close>

text \<open>A spec of a declaration: a value spec with its names, comment above and comment beside, or another.\<close>

datatype spec =
    ValueSpec (vsNames: "string list") (vsDoc: "string option") (vsComment: "string option")
  | OtherSpec

record docvalue =
  vlNames :: "string list"
  vlDoc :: string
  vlDecl :: "spec list"

record docfunc =
  fnName :: string
  fnDoc :: string

record doctype =
  tyName :: string
  tyDoc :: string
  tyConsts :: "docvalue list"
  tyVars :: "docvalue list"
  tyFuncs :: "docfunc list"
  tyMethods :: "docfunc list"

record docpackage =
  pkDoc :: string
  pkName :: string
  pkConsts :: "docvalue list"
  pkVars :: "docvalue list"
  pkFuncs :: "docfunc list"
  pkTypes :: "doctype list"

subsection \<open>The check\<close>

definition is_exported :: "(nat \<Rightarrow> bool) \<Rightarrow> string \<Rightarrow> bool" where
  "is_exported up n =
     (let r = fst (decode_rune n) in if r < 0x80 then 65 \<le> r \<and> r \<le> 90 else up r)"

fun spec_text :: "spec \<Rightarrow> string option" where
  "spec_text (ValueSpec ns (Some d) c) = Some d"
| "spec_text (ValueSpec ns None (Some c)) = Some c"
| "spec_text _ = None"

text \<open>
  The comment on one name inside a grouped declaration: the first spec that names it and has a
  comment.
\<close>

fun specDoc :: "spec list \<Rightarrow> string \<Rightarrow> string" where
  "specDoc [] name = []"
| "specDoc (OtherSpec # ss) name = specDoc ss name"
| "specDoc (ValueSpec ns d c # ss) name =
     (if name \<in> set ns then
        (case spec_text (ValueSpec ns d c) of Some t \<Rightarrow> t | None \<Rightarrow> specDoc ss name)
      else specDoc ss name)"

definition noted :: "string \<Rightarrow> string \<Rightarrow> string \<Rightarrow> string list" where
  "noted dir name txt = (if trim_space txt = [] then [dir @ '': '' @ name] else [])"

definition value_text :: "docvalue \<Rightarrow> string \<Rightarrow> string" where
  "value_text v n = (if vlDoc v = [] then specDoc (vlDecl v) n else vlDoc v)"

definition value_notes :: "(nat \<Rightarrow> bool) \<Rightarrow> string \<Rightarrow> docvalue list \<Rightarrow> string list" where
  "value_notes up dir vs =
     concat (map (\<lambda>v. concat (map
       (\<lambda>n. if \<not> is_exported up n then [] else noted dir n (value_text v n)) (vlNames v))) vs)"

definition func_notes :: "string \<Rightarrow> docfunc list \<Rightarrow> string list" where
  "func_notes dir fs = concat (map (\<lambda>f. noted dir (fnName f) (fnDoc f)) fs)"

definition type_notes :: "(nat \<Rightarrow> bool) \<Rightarrow> string \<Rightarrow> doctype \<Rightarrow> string list" where
  "type_notes up dir t =
     noted dir (tyName t) (tyDoc t) @ value_notes up dir (tyConsts t) @
     value_notes up dir (tyVars t) @ func_notes dir (tyFuncs t) @
     concat (map (\<lambda>m. noted dir (tyName t @ ''.'' @ fnName m) (fnDoc m)) (tyMethods t))"

definition undocumented :: "(nat \<Rightarrow> bool) \<Rightarrow> string \<Rightarrow> docpackage \<Rightarrow> string list" where
  "undocumented up dir d =
     (if trim_space (pkDoc d) = [] then [dir @ '': package '' @ pkName d] else []) @
     value_notes up dir (pkConsts d) @ value_notes up dir (pkVars d) @
     func_notes dir (pkFuncs d) @ concat (map (type_notes up dir) (pkTypes d))"

subsection \<open>The directories\<close>

text \<open>
  The outside: the entries of a directory (a name, and whether it is a directory itself), the
  parser of a file, the documentation of a list of parsed files, and \<open>filepath.Clean\<close>.
\<close>

record 'f Tools =
  readDir :: "string \<Rightarrow> string + (string \<times> bool) list"
  parseFile :: "string \<Rightarrow> string \<Rightarrow> string + 'f"
  newDoc :: "'f list \<Rightarrow> string \<Rightarrow> string + docpackage"
  clean :: "string \<Rightarrow> string"
  isUpper :: "nat \<Rightarrow> bool"

definition is_source :: "string \<times> bool \<Rightarrow> bool" where
  "is_source e \<longleftrightarrow>
     \<not> (snd e \<or> \<not> has_suffix (fst e) ''.go'' \<or> has_suffix (fst e) ''_test.go'')"

fun parse_files :: "'f Tools \<Rightarrow> string \<Rightarrow> (string \<times> bool) list \<Rightarrow> string + 'f list" where
  "parse_files w dir [] = Inr []"
| "parse_files w dir (e # es) =
     (if \<not> is_source e then parse_files w dir es
      else case parseFile w dir (fst e) of
        Inl err \<Rightarrow> Inl err
      | Inr f \<Rightarrow>
          (case parse_files w dir es of
             Inl err \<Rightarrow> Inl err
           | Inr fs \<Rightarrow> Inr (f # fs)))"

definition check_dir :: "'f Tools \<Rightarrow> string \<Rightarrow> string + string list" where
  "check_dir w dir =
     (case readDir w dir of
        Inl e \<Rightarrow> Inl e
      | Inr es \<Rightarrow>
          (case parse_files w dir es of
             Inl e \<Rightarrow> Inl e
           | Inr fs \<Rightarrow>
               if length fs = 0 then Inl (dir @ '': no Go package'')
               else case newDoc w fs dir of
                 Inl e \<Rightarrow> Inl e
               | Inr d \<Rightarrow> Inr (undocumented (isUpper w) (clean w dir) d)))"

fun check_dirs :: "'f Tools \<Rightarrow> string list \<Rightarrow> string + string list" where
  "check_dirs w [] = Inr []"
| "check_dirs w (dir # dirs) =
     (case check_dir w dir of
        Inl e \<Rightarrow> Inl e
      | Inr ms \<Rightarrow>
          (case check_dirs w dirs of
             Inl e \<Rightarrow> Inl e
           | Inr ms' \<Rightarrow> Inr (ms @ ms')))"

definition check :: "'f Tools \<Rightarrow> string list \<Rightarrow> string + string list" where
  "check w dirs =
     (if length dirs = 0 then Inl ''name at least one package directory''
      else case check_dirs w dirs of Inl e \<Rightarrow> Inl e | Inr missing \<Rightarrow> Inr (sort missing))"

text \<open>\<open>report\<close> and \<open>main\<close>: \<open>writable\<close> tells whether stderr takes the verdict.\<close>

definition report_text :: "string list \<Rightarrow> string" where
  "report_text missing =
     (if length missing = 0 then ''apidoc: every exported identifier is documented\<newline>''
      else ''apidoc: '' @ show_int (int (length missing)) @
        '' exported identifiers have no doc comment:\<newline>'' @
        concat (map (\<lambda>m. ''  '' @ m @ ''\<newline>'') missing))"

definition report :: "bool \<Rightarrow> string list \<Rightarrow> nat" where
  "report writable missing =
     (let status = (if length missing = 0 then 0 else 1) in
      if \<not> writable then 1 else status)"

definition apidoc_main :: "'f Tools \<Rightarrow> bool \<Rightarrow> string list \<Rightarrow> nat \<times> string" where
  "apidoc_main w writable dirs =
     (case check w dirs of
        Inl e \<Rightarrow> (1, if writable then ''apidoc: '' @ e @ ''\<newline>'' else [])
      | Inr missing \<Rightarrow>
          (report writable missing, if writable then report_text missing else []))"

subsection \<open>What is reported\<close>

text \<open>The identifiers of a package with the text that documents them.\<close>

definition value_idents :: "(nat \<Rightarrow> bool) \<Rightarrow> docvalue list \<Rightarrow> (string \<times> string) set" where
  "value_idents up vs = {(n, value_text v n) | v n. v \<in> set vs \<and> n \<in> set (vlNames v) \<and> is_exported up n}"

definition func_idents :: "string \<Rightarrow> docfunc list \<Rightarrow> (string \<times> string) set" where
  "func_idents q fs = (\<lambda>f. (q @ fnName f, fnDoc f)) ` set fs"

definition type_idents :: "(nat \<Rightarrow> bool) \<Rightarrow> doctype \<Rightarrow> (string \<times> string) set" where
  "type_idents up t =
     insert (tyName t, tyDoc t)
       (value_idents up (tyConsts t @ tyVars t) \<union> func_idents [] (tyFuncs t) \<union>
        func_idents (tyName t @ ''.'') (tyMethods t))"

definition idents :: "(nat \<Rightarrow> bool) \<Rightarrow> docpackage \<Rightarrow> (string \<times> string) set" where
  "idents up d =
     insert (''package '' @ pkName d, pkDoc d)
       (value_idents up (pkConsts d @ pkVars d) \<union> func_idents [] (pkFuncs d) \<union>
        (\<Union>t\<in>set (pkTypes d). type_idents up t))"

definition blank_notes :: "string \<Rightarrow> (string \<times> string) set \<Rightarrow> string set" where
  "blank_notes dir I = {dir @ '': '' @ n | n txt. (n, txt) \<in> I \<and> trim_space txt = []}"

lemma blank_notes_Un: "blank_notes dir (A \<union> B) = blank_notes dir A \<union> blank_notes dir B"
  by (auto simp: blank_notes_def)

lemma blank_notes_insert:
  "blank_notes dir (insert (n, txt) B) = set (noted dir n txt) \<union> blank_notes dir B"
  by (auto simp: blank_notes_def noted_def)

lemma blank_notes_UN: "blank_notes dir (\<Union>x\<in>A. f x) = (\<Union>x\<in>A. blank_notes dir (f x))"
  by (auto simp: blank_notes_def)

lemmas blank_simps = blank_notes_Un blank_notes_insert blank_notes_UN

lemma set_value_notes: "set (value_notes up dir vs) = blank_notes dir (value_idents up vs)"
  by (auto simp: value_notes_def noted_def blank_notes_def value_idents_def split: if_splits)

lemma set_func_notes:
  "set (concat (map (\<lambda>f. noted dir (q @ fnName f) (fnDoc f)) fs)) = blank_notes dir (func_idents q fs)"
  by (auto simp: noted_def blank_notes_def func_idents_def split: if_splits)

lemma value_idents_append: "value_idents up (vs @ ws) = value_idents up vs \<union> value_idents up ws"
  by (auto simp: value_idents_def)

lemma set_type_notes: "set (type_notes up dir t) = blank_notes dir (type_idents up t)"
  using set_func_notes [of dir "[]"] set_func_notes [of dir "tyName t @ ''.''"]
  by (simp add: type_notes_def type_idents_def blank_simps set_value_notes value_idents_append
      func_notes_def Un_ac)


text \<open>
  The command exits with 0 exactly when it can write its verdict, at least one directory is
  named, all of them are packages it can read, and none has an undocumented identifier.
\<close>

theorem apidoc_exit:
  "fst (apidoc_main w writable dirs) = 0 \<longleftrightarrow>
   writable \<and> length dirs > 0 \<and> list_all (\<lambda>dir. check_dir w dir = Inr []) dirs"
proof -
  have "list_all (\<lambda>dir. check_dir w dir = Inr []) ds \<longleftrightarrow> check_dirs w ds = Inr []" for ds
    by (induction ds) (auto split: sum.split)
  moreover have "sort ms = [] \<longleftrightarrow> ms = []" for ms :: "string list"
    by (metis set_sort set_empty2)
  ultimately show ?thesis
    by (auto simp: apidoc_main_def check_def report_def split: sum.splits)
qed

end
