(* ===== verification/JsonRead.thy ===== *)
theory JsonRead
  imports JsonWrite JsonPrefix
begin

text \<open>
  Reading back what is written. The text of a well-formed tree, in any layout, is parsed as the
  tree's value, unless it is nested too deep; and whatever the parser accepts, \<open>Compact\<close> turns
  into the compact text of a well-formed tree.
\<close>

subsection \<open>Reading a laid-out tree\<close>

definition blank :: "bytes \<Rightarrow> bool" where
  "blank w \<longleftrightarrow> list_all is_ws w"

lemma skip_blank: "blank w \<Longrightarrow> skip_ws (w @ s) = skip_ws s"
  by (induction w) (auto simp: blank_def skip_ws_def)

lemma skip_visible: "\<not> is_ws c \<Longrightarrow> skip_ws (c # s) = c # s"
  by (simp add: skip_ws_def)

definition visible :: "bytes \<Rightarrow> bool" where
  "visible s \<longleftrightarrow> s \<noteq> [] \<and> \<not> is_ws (hd s)"

lemma skip_blank_visible: "blank w \<Longrightarrow> visible s \<Longrightarrow> skip_ws (w @ s @ r) = s @ r"
  by (cases s) (simp_all add: skip_blank skip_visible visible_def)

lemma delimiter_blank: "blank w \<Longrightarrow> delimiter r \<Longrightarrow> delimiter (w @ r)"
  by (cases w) (simp_all add: blank_def delimiter_def)

lemma consumed_self [simp]: "consumed (x @ r) r = x"
  by (simp add: consumed_def)

lemma scalar_lit:
  assumes "string_lit l \<or> word_lit l" "delimiter r"
  shows "scalar (l @ r) = Some (fst (the (scalar l)), r)"
proof -
  consider (str) b where "l = CHR 0x22 # b @ [CHR 0x22]" "string_body b"
    | (word) "l \<in> set [''true'', ''false'', ''null'']"
    | (num) "scan_number l = Some (l, [])"
    using assms(1) by (auto simp: string_lit_def word_lit_def)
  then show ?thesis
  proof cases
    case str
    then show ?thesis
      using scan_string_append [of "b @ [CHR 0x22]" b "[]" r]
      by (simp add: scalar_def string_body_def)
  next
    case word
    then show ?thesis by (auto simp: scalar_def literal_def has_prefix_iff)
  next
    case num
    then obtain c u where l: "l = c # u" "number_char c"
      using scan_number_consumes [OF num] scan_number_chars [OF num] by (cases l) auto
    then have "c \<noteq> CHR 0x22" "c \<noteq> CHR ''t''" "c \<noteq> CHR ''f''" "c \<noteq> CHR ''n''"
      by (auto simp: number_char_def is_digit_def)
    then have "scalar (l @ t) = map_option (\<lambda>(b, r). (JNum b, r)) (scan_number (l @ t))" for t
      by (simp add: scalar_def l(1))
    from this [of "[]"] this [of r] show ?thesis
      using num scan_number_again [OF num delimiter_number_end [OF assms(2)]] by simp
  qed
qed

lemma lit_visible:
  assumes "string_lit l \<or> word_lit l"
  obtains c u where "l = c # u" "\<not> is_ws c" "c \<noteq> CHR ''{''" "c \<noteq> CHR ''[''" "c \<noteq> CHR '']''" "c \<noteq> CHR ''}''"
proof (cases "string_lit l")
  case True
  with that show ?thesis by (auto simp: string_lit_def is_ws_def)
next
  case False
  then have "l \<noteq> []" "list_all word_char l" using assms word_lit_chars [of l] by auto
  with that show ?thesis by (cases l) (auto simp: word_char_def)
qed

lemma gtext_first:
  assumes "well_formed t"
  obtains c u where "gtext nl sp d t = c # u" "\<not> is_ws c" "c \<noteq> CHR '']''" "c \<noteq> CHR ''}''"
proof (cases t)
  case (OLit l)
  with assms have "string_lit l \<or> word_lit l" by simp
  then show ?thesis by (rule lit_visible) (use OLit that in simp)
next
  case (OArr xs)
  show ?thesis
    by (rule that [of "CHR ''[''" "tl (gtext nl sp d t)"]) (simp_all add: OArr gblock_def is_ws_def)
next
  case (OObj ms)
  show ?thesis
    by (rule that [of "CHR ''{''" "tl (gtext nl sp d t)"]) (simp_all add: OObj gblock_def is_ws_def)
qed

lemma gtext_visible: "well_formed t \<Longrightarrow> visible (gtext nl sp d t)"
  by (erule gtext_first [of t nl sp d]) (simp add: visible_def)

text \<open>The items of a collection, read one after the other up to the closing bracket.\<close>

lemma parse_elems_items:
  assumes "\<And>x m r. x \<in> set xs \<Longrightarrow> delimiter r \<Longrightarrow> 2 * length (f x @ r) + 1 \<le> m \<Longrightarrow>
      parse_value m d (f x @ r) = (if ok x then Some (g x, r) else None)"
    and "\<And>x. x \<in> set xs \<Longrightarrow> visible (f x)"
    and "blank w0" "blank w" "blank w1" "xs \<noteq> []"
    and "2 * length (w0 @ join (map f xs) (CHR '','' # w) @ w1 @ CHR '']'' # rest) + 2 \<le> n"
  shows "parse_elems n d (w0 @ join (map f xs) (CHR '','' # w) @ w1 @ CHR '']'' # rest) =
    (if \<forall>x\<in>set xs. ok x then Some (map (\<lambda>x. (f x, g x)) xs, rest) else None)"
  using assms
proof (induction xs arbitrary: n w0)
  case (Cons x xs)
  obtain m where n: "n = Suc m" using Cons.prems(7) by (cases n) auto
  let ?more = "if xs = [] then w1 @ CHR '']'' # rest
    else CHR '','' # w @ join (map f xs) (CHR '','' # w) @ w1 @ CHR '']'' # rest"
  have s: "w0 @ join (map f (x # xs)) (CHR '','' # w) @ w1 @ CHR '']'' # rest = w0 @ f x @ ?more"
    by (cases xs) simp_all
  have "delimiter ?more" using Cons.prems(5) by (simp add: delimiter_blank)
  then have v: "parse_value m d (f x @ ?more) = (if ok x then Some (g x, ?more) else None)"
    using Cons.prems(1) [of x ?more m] Cons.prems(7) unfolding s n by simp
  have sk: "skip_ws (w0 @ f x @ ?more) = f x @ ?more"
    using Cons.prems(2,3) by (intro skip_blank_visible) simp_all
  have k: "consumed (f x @ ?more) ?more = f x" by simp
  show ?case
  proof (cases "xs = []")
    case True
    then show ?thesis
      using v sk k Cons.prems(5) unfolding s n
      by (simp add: parse_elems.simps skip_blank skip_visible is_ws_def del: consumed_self)
  next
    case False
    have "parse_elems m d (w @ join (map f xs) (CHR '','' # w) @ w1 @ CHR '']'' # rest) =
      (if \<forall>x\<in>set xs. ok x then Some (map (\<lambda>x. (f x, g x)) xs, rest) else None)"
      by (rule Cons.IH) (use Cons.prems False n s in auto)
    with False show ?thesis
      using v sk k unfolding s n
      by (simp add: parse_elems.simps skip_visible is_ws_def del: consumed_self)
  qed
qed simp

lemma parse_key_text:
  assumes "string_body k" "blank w"
  shows "parse_key (w @ CHR 0x22 # k @ CHR 0x22 # CHR '':'' # r) = Some (unquote k, r)"
  using assms(2) scan_string_append [of "k @ [CHR 0x22]" k "[]" "CHR '':'' # r"] assms(1)
  by (simp add: parse_key_def skip_blank skip_visible is_ws_def string_body_def)

lemma parse_members_items:
  assumes "\<And>x m r. x \<in> set xs \<Longrightarrow> delimiter r \<Longrightarrow> 2 * length (f x @ r) + 1 \<le> m \<Longrightarrow>
      parse_value m d (f x @ r) = (if ok x then Some (g x, r) else None)"
    and "\<And>x. x \<in> set xs \<Longrightarrow> visible (f x) \<and> string_body (k x)"
    and "blank w0" "blank w" "blank w1" "blank sp" "xs \<noteq> []"
    and "2 * length (w0 @ join (map (\<lambda>x. member_text sp (k x) (f x)) xs) (CHR '','' # w) @ w1 @ CHR ''}'' # rest) + 2 \<le> n"
  shows "parse_members n d
      (w0 @ join (map (\<lambda>x. member_text sp (k x) (f x)) xs) (CHR '','' # w) @ w1 @ CHR ''}'' # rest) =
    (if \<forall>x\<in>set xs. ok x then Some (map (\<lambda>x. (unquote (k x), f x, g x)) xs, rest) else None)"
  using assms
proof (induction xs arbitrary: n w0)
  case (Cons x xs)
  let ?f = "\<lambda>x. member_text sp (k x) (f x)"
  obtain m where n: "n = Suc m" using Cons.prems(8) by (cases n) auto
  let ?more = "if xs = [] then w1 @ CHR ''}'' # rest
    else CHR '','' # w @ join (map ?f xs) (CHR '','' # w) @ w1 @ CHR ''}'' # rest"
  have s: "w0 @ join (map ?f (x # xs)) (CHR '','' # w) @ w1 @ CHR ''}'' # rest =
      w0 @ CHR 0x22 # k x @ CHR 0x22 # CHR '':'' # sp @ f x @ ?more"
    by (cases xs) (simp_all add: member_text_def)
  have key: "parse_key (w0 @ CHR 0x22 # k x @ CHR 0x22 # CHR '':'' # sp @ f x @ ?more) =
      Some (unquote (k x), sp @ f x @ ?more)"
    using Cons.prems(2) [of x] Cons.prems(3) by (intro parse_key_text) simp_all
  have "delimiter ?more" using Cons.prems(5) by (simp add: delimiter_blank)
  then have v: "parse_value m d (f x @ ?more) = (if ok x then Some (g x, ?more) else None)"
    using Cons.prems(1) [of x ?more m] Cons.prems(8) unfolding s n by simp
  have sk: "skip_ws (sp @ f x @ ?more) = f x @ ?more"
    using Cons.prems(2,6) by (intro skip_blank_visible) simp_all
  have c: "consumed (f x @ ?more) ?more = f x" by simp
  show ?case
  proof (cases "xs = []")
    case True
    then show ?thesis
      using v sk c key Cons.prems(5) unfolding s n
      by (simp add: parse_members.simps skip_blank skip_visible is_ws_def del: consumed_self)
  next
    case False
    have "parse_members m d (w @ join (map ?f xs) (CHR '','' # w) @ w1 @ CHR ''}'' # rest) =
      (if \<forall>x\<in>set xs. ok x then Some (map (\<lambda>x. (unquote (k x), f x, g x)) xs, rest) else None)"
      by (rule Cons.IH) (use Cons.prems False n s in auto)
    with False show ?thesis
      using v sk c key unfolding s n
      by (simp add: parse_members.simps skip_visible is_ws_def del: consumed_self)
  qed
qed simp

text \<open>A well-formed tree is read as its value, in any layout of white space.\<close>

lemma parse_gtext:
  assumes "\<And>d. blank (nl d)" "blank sp"
  shows "well_formed t \<Longrightarrow> delimiter r \<Longrightarrow> 2 * length (gtext nl sp k t @ r) + 1 \<le> n \<Longrightarrow>
    parse_value n d (gtext nl sp k t @ r) = (if fits d t then Some (gjson nl sp k t, r) else None)"
proof (induction t arbitrary: n d k r)
  case (OLit l)
  then have "string_lit l \<or> word_lit l" by simp
  then obtain c u where l: "l = c # u" "\<not> is_ws c" "c \<noteq> CHR ''{''" "c \<noteq> CHR ''[''"
    by (rule lit_visible)
  obtain m where "n = Suc m" using OLit(3) by (cases n) auto
  with l scalar_lit [of l r] OLit show ?case
    by (simp add: parse_value.simps skip_visible)
next
  case (OArr xs)
  obtain m where n: "n = Suc m" using OArr.prems(3) by (cases n) auto
  show ?case
  proof (cases "xs = []")
    case True
    then show ?thesis by (simp add: n gblock_def parse_value.simps skip_visible is_ws_def)
  next
    case False
    let ?f = "gtext nl sp (Suc k)"
    let ?s = "nl (Suc k) @ join (map ?f xs) (CHR '','' # nl (Suc k)) @ nl k @ CHR '']'' # r"
    have s: "gtext nl sp k (OArr xs) @ r = CHR ''['' # ?s" using False by (simp add: gblock_def)
    have items: "parse_elems m (d - 1) ?s =
      (if \<forall>x\<in>set xs. fits (d - 1) x then Some (map (\<lambda>x. (?f x, gjson nl sp (Suc k) x)) xs, r) else None)"
    proof (rule parse_elems_items)
      show "2 * length ?s + 2 \<le> m" using OArr.prems(3) unfolding s n by simp
    qed (use OArr False assms in \<open>auto intro: gtext_visible\<close>)
    obtain y ys where xs: "xs = y # ys" using False by (cases xs) auto
    then obtain c u where "?f y = c # u" "\<not> is_ws c" "c \<noteq> CHR '']''"
      using OArr.prems(1) by (auto elim: gtext_first [of y nl sp "Suc k"])
    then have "skip_ws ?s = c # drop 1 (skip_ws ?s)"
      using assms(1) by (cases ys) (simp_all add: xs skip_blank skip_visible)
    with items \<open>c \<noteq> CHR '']''\<close> show ?thesis
      unfolding s n by (auto simp: parse_value.simps skip_visible is_ws_def split: list.split)
  qed
next
  case (OObj ms)
  obtain m where n: "n = Suc m" using OObj.prems(3) by (cases n) auto
  show ?case
  proof (cases "ms = []")
    case True
    then show ?thesis by (simp add: n gblock_def parse_value.simps skip_visible is_ws_def)
  next
    case False
    let ?f = "\<lambda>x. gtext nl sp (Suc k) (snd x)"
    let ?s = "nl (Suc k) @ join (map (\<lambda>x. member_text sp (fst x) (?f x)) ms) (CHR '','' # nl (Suc k)) @
      nl k @ CHR ''}'' # r"
    have s: "gtext nl sp k (OObj ms) @ r = CHR ''{'' # ?s"
      using False by (simp add: gblock_def case_prod_unfold)
    have items: "parse_members m (d - 1) ?s =
      (if \<forall>x\<in>set ms. fits (d - 1) (snd x)
       then Some (map (\<lambda>x. (unquote (fst x), ?f x, gjson nl sp (Suc k) (snd x))) ms, r) else None)"
    proof (rule parse_members_items)
      show "2 * length ?s + 2 \<le> m" using OObj.prems(3) unfolding s n by simp
    qed (use OObj False assms in \<open>auto intro: gtext_visible simp: snds.simps\<close>)
    obtain y ys where ms: "ms = y # ys" using False by (cases ms) auto
    then have "skip_ws ?s = CHR 0x22 # drop 1 (skip_ws ?s)"
      using assms(1) by (cases ys) (simp_all add: skip_blank skip_visible is_ws_def member_text_def)
    with items show ?thesis
      unfolding s n by (auto simp: parse_value.simps skip_visible is_ws_def case_prod_unfold split: list.split)
  qed
qed

subsection \<open>Compacting what the parser accepts\<close>

lemma string_body_Nil [simp]: "string_body []"
  by (simp add: string_body_def)

lemma string_body_append: "passes x \<Longrightarrow> string_body b \<Longrightarrow> string_body (x @ b)"
  by (simp add: string_body_def passes_def)

lemma string_body_plain:
  "c \<noteq> CHR 0x22 \<Longrightarrow> c \<noteq> CHR 0x5C \<Longrightarrow> \<not> byte_of c < 0x20 \<Longrightarrow> string_body b \<Longrightarrow> string_body (c # b)"
  by (simp add: string_body_def)

lemma not_line_sep: "c \<noteq> CHR 0xE2 \<Longrightarrow> \<not> line_sep (c # s)"
  by (simp add: line_sep_def)

lemma line_sepE:
  assumes "line_sep (c # s)"
  obtains x t where "c = CHR 0xE2" "s = CHR 0x80 # x # t" "x = CHR 0xA8 \<or> x = CHR 0xA9"
proof -
  from assms obtain t' where s: "c = CHR 0xE2" "s = CHR 0x80 # t'"
    by (cases s) (auto simp: line_sep_def)
  with assms obtain x t where "t' = x # t" "x = CHR 0xA8 \<or> x = CHR 0xA9"
    by (cases t') (auto simp: line_sep_def)
  with s that show ?thesis by simp
qed

lemma hex_char_compact: "is_hex c \<Longrightarrow> c \<noteq> CHR 0xE2 \<and> \<not> html_byte c \<and> c \<noteq> CHR 0x22 \<and> c \<noteq> CHR 0x5C"
  by (auto simp: is_hex_def html_byte_def)

lemma escape_char_compact: "is_escape c \<Longrightarrow> c \<noteq> CHR 0xE2 \<and> \<not> html_byte c \<and> c \<noteq> CHR ''u''"
  by (auto simp: is_escape_def html_byte_def)

text \<open>Text that \<open>Compact\<close> leaves as it is: the bodies of its strings have nothing left to escape.\<close>

definition clean_body :: "bytes \<Rightarrow> bool" where
  "clean_body b \<longleftrightarrow> string_body b \<and>
     (\<forall>r. compact_go True False (b @ CHR 0x22 # r) = b @ CHR 0x22 # compact_go False False r)"

definition clean_lit :: "bytes \<Rightarrow> bool" where
  "clean_lit l \<longleftrightarrow> (\<exists>b. l = CHR 0x22 # b @ [CHR 0x22] \<and> clean_body b)"

fun clean :: "otree \<Rightarrow> bool" where
  "clean (OLit l) \<longleftrightarrow> clean_lit l \<or> word_lit l"
| "clean (OArr xs) \<longleftrightarrow> (\<forall>x\<in>set xs. clean x)"
| "clean (OObj ms) \<longleftrightarrow> (\<forall>m\<in>set ms. clean_body (fst m) \<and> clean (snd m))"

lemma clean_well_formed: "clean t \<Longrightarrow> well_formed t"
proof (induction t)
  case (OObj ms)
  then show ?case by (auto simp: clean_body_def snds.simps)
qed (auto simp: clean_lit_def string_lit_def clean_body_def)

lemma clean_body_unicode:
  assumes "is_hex h1" "is_hex h2" "is_hex h3" "is_hex h4" "clean_body b"
  shows "clean_body (CHR 0x5C # CHR ''u'' # h1 # h2 # h3 # h4 # b)"
  using assms hex_char_compact [OF assms(1)] hex_char_compact [OF assms(2)]
    hex_char_compact [OF assms(3)] hex_char_compact [OF assms(4)]
  by (simp add: clean_body_def string_body_def is_escape_def not_line_sep Let_def html_byte_def)

lemma clean_body_hex4: "clean_body b \<Longrightarrow> clean_body (hex4 n @ b)"
  by (simp add: hex4_eq clean_body_unicode is_hex_digit)

lemma clean_body_plain:
  assumes "c \<noteq> CHR 0x22" "c \<noteq> CHR 0x5C" "\<not> byte_of c < 0x20" "\<not> html_byte c" "\<not> line_sep (c # b)" "clean_body b"
  shows "clean_body (c # b)"
proof -
  have "\<not> line_sep (c # b @ CHR 0x22 # r)" for r
  proof
    assume "line_sep (c # b @ CHR 0x22 # r)"
    then obtain x t where x: "c = CHR 0xE2" "b @ CHR 0x22 # r = CHR 0x80 # x # t" "x = CHR 0xA8 \<or> x = CHR 0xA9"
      by (rule line_sepE)
    then obtain b' where "b = CHR 0x80 # x # b'" by (cases b; cases "tl b") auto
    with assms(5) x show False by (auto simp: line_sep_def)
  qed
  with assms show ?thesis by (simp add: clean_body_def string_body_plain Let_def)
qed

lemma line_sep_prefix: "line_sep (c # b) \<Longrightarrow> line_sep (c # b @ r)"
  by (erule line_sepE) (auto simp: line_sep_def)

lemma compact_starts:
  assumes "compact_go True False u = x # t" "x \<noteq> CHR 0x5C"
  shows "\<exists>u'. u = x # u' \<and> (x \<noteq> CHR 0x22 \<longrightarrow> t = compact_go True False u')"
proof -
  from assms(1) obtain c u' where u: "u = c # u'" by (cases u) auto
  have "\<not> line_sep (c # u')" using assms unfolding u by (auto simp: hex4_eq)
  moreover from this have "\<not> html_byte c" using assms unfolding u by (auto simp: Let_def hex4_eq)
  ultimately show ?thesis using assms u by (auto simp: Let_def)
qed

lemma line_sep_compact: "line_sep (c # compact_go True False u) \<Longrightarrow> line_sep (c # u)"
proof (erule line_sepE)
  fix x t
  assume a: "c = CHR 0xE2" "compact_go True False u = CHR 0x80 # x # t" "x = CHR 0xA8 \<or> x = CHR 0xA9"
  from compact_starts [OF a(2)] obtain u' where u: "u = CHR 0x80 # u'" "compact_go True False u' = x # t" by auto
  from compact_starts [OF this(2)] a(3) obtain u'' where "u' = x # u''" by auto
  with a u show "line_sep (c # u)" by (auto simp: line_sep_def)
qed

lemma compact_string:
  "scan_string s = Some (b, r) \<Longrightarrow>
   \<exists>b'. compact_go True False s = b' @ CHR 0x22 # compact_go False False r \<and> clean_body b'"
proof (induction s arbitrary: b rule: length_induct)
  case (1 s)
  then obtain c u where s: "s = c # u" by (cases s) auto
  have IH: "\<exists>b'. compact_go True False t = b' @ CHR 0x22 # compact_go False False r \<and> clean_body b'"
    if "scan_string t = Some (b'', r)" "length t < length s" for t b''
    using 1(1) that by blast
  from 1(2) [unfolded s] show ?case
  proof (cases rule: scan_string_cases)
    case close
    then show ?thesis
      by (intro exI [of _ "[]"]) (simp add: s not_line_sep html_byte_def Let_def clean_body_def)
  next
    case (escape e s' b1)
    then obtain b' where b': "compact_go True False s' = b' @ CHR 0x22 # compact_go False False r"
      "clean_body b'" using IH [of s' b1] s by auto
    have "clean_body (CHR 0x5C # e # b')"
      using b'(2) escape(3) escape_char_compact [OF escape(3)]
      by (simp add: clean_body_def string_body_def not_line_sep Let_def html_byte_def)
    with b' escape escape_char_compact [OF escape(3)] show ?thesis
      by (intro exI [of _ "CHR 0x5C # e # b'"])
        (simp add: s not_line_sep Let_def html_byte_def)
  next
    case (unicode h1 h2 h3 h4 s' b1)
    then obtain b' where b': "compact_go True False s' = b' @ CHR 0x22 # compact_go False False r"
      "clean_body b'" using IH [of s' b1] s by auto
    have "clean_body (CHR 0x5C # CHR ''u'' # h1 # h2 # h3 # h4 # b')"
      using b'(2) unicode(3-6) by (intro clean_body_unicode)
    with b' unicode hex_char_compact [OF unicode(3)] hex_char_compact [OF unicode(4)]
      hex_char_compact [OF unicode(5)] hex_char_compact [OF unicode(6)] show ?thesis
      by (intro exI [of _ "CHR 0x5C # CHR ''u'' # h1 # h2 # h3 # h4 # b'"])
        (simp add: s not_line_sep Let_def html_byte_def)
  next
    case (plain b1)
    show ?thesis
    proof (cases "line_sep (c # u)")
      case True
      then obtain x t where x: "c = CHR 0xE2" "u = CHR 0x80 # x # t" "x = CHR 0xA8 \<or> x = CHR 0xA9"
        by (rule line_sepE)
      then obtain b2 where "scan_string t = Some (b2, r)"
        using plain(4) by (auto split: if_splits simp: byte_of_def)
      then obtain b' where b': "compact_go True False t = b' @ CHR 0x22 # compact_go False False r"
        "clean_body b'" using IH [of t b2] s x by auto
      let ?h = "hex4 (if x = CHR 0xA8 then 0x2028 else 0x2029)"
      have "clean_body (?h @ b')" by (rule clean_body_hex4 [OF b'(2)])
      with b' x True show ?thesis by (intro exI [of _ "?h @ b'"]) (simp add: s Let_def)
    next
      case False
      obtain b' where b': "compact_go True False u = b' @ CHR 0x22 # compact_go False False r"
        "clean_body b'" using IH [of u b1] s plain(4) by auto
      let ?out = "if html_byte c then hex4 (byte_of c) else [c]"
      have "clean_body (c # b')" if "\<not> html_byte c"
      proof (rule clean_body_plain [OF plain(1-3) that _ b'(2)])
        show "\<not> line_sep (c # b')" using False line_sep_compact [of c u] line_sep_prefix [of c b'] b'(1) by auto
      qed
      then have "clean_body (?out @ b')" using clean_body_hex4 [OF b'(2)] by simp
      with b' False plain(1,2) show ?thesis by (intro exI [of _ "?out @ b'"]) (simp add: s Let_def)
    qed
  qed
qed

lemma compact_word_chars:
  "list_all word_char l \<Longrightarrow> compact_go False False (l @ r) = l @ compact_go False False r"
  by (induction l) (simp_all add: word_char_def Let_def)

lemma compact_skip: "compact_go False False (skip_ws s) = compact_go False False s"
  by (induction s) (simp_all add: skip_ws_def Let_def)

lemma compact_scalar:
  assumes "scalar s = Some (v, r)"
  shows "\<exists>t. clean t \<and> fits 0 t \<and> compact_go False False s = compact_text t @ compact_go False False r"
proof -
  have words: ?thesis if "s = l @ r" "word_lit l" for l
    using that compact_word_chars [of l r] word_lit_chars [of l]
    by (intro exI [of _ "OLit l"]) (simp add: compact_text_def)
  from assms obtain c u where s: "s = c # u" by (cases s) (auto simp: scalar_def)
  show ?thesis
  proof (cases "c = CHR 0x22")
    case True
    with assms s obtain b where "scan_string u = Some (b, r)" by (auto simp: scalar_def)
    from compact_string [OF this] obtain b' where
      b': "compact_go True False u = b' @ CHR 0x22 # compact_go False False r" "clean_body b'" by blast
    then have "compact_go False False s = (CHR 0x22 # b' @ [CHR 0x22]) @ compact_go False False r"
      using True by (simp add: s is_ws_def html_byte_def Let_def)
    moreover have "clean_lit (CHR 0x22 # b' @ [CHR 0x22])" using b'(2) by (auto simp: clean_lit_def)
    ultimately show ?thesis
      by (intro exI [of _ "OLit (CHR 0x22 # b' @ [CHR 0x22])"]) (simp add: compact_text_def)
  next
    case False
    show ?thesis
    proof (cases "c = CHR ''t'' \<or> c = CHR ''f'' \<or> c = CHR ''n''")
      case True
      then have "\<exists>l. s = l @ r \<and> word_lit l"
        using assms s by (auto simp: scalar_def literal_def has_prefix_iff word_lit_def split: if_splits)
      with words show ?thesis by blast
    next
      case c: False
      with False assms s obtain b where "scan_number s = Some (b, r)" by (auto simp: scalar_def)
      with words [of b] number_lit [of s b r] scan_number_consumes [of s b r] show ?thesis by simp
    qed
  qed
qed

lemma gtext_compact: "gtext (\<lambda>d. []) [] d t = compact_text t"
proof -
  have "gtext (\<lambda>d. []) [] d t = gtext (\<lambda>d. []) [] d' t" for d'
  proof (induction t arbitrary: d d')
    case (OArr xs)
    have "map (gtext (\<lambda>d. []) [] (Suc d)) xs = map (gtext (\<lambda>d. []) [] (Suc d')) xs"
      using OArr by (intro map_cong) auto
    then show ?case by (simp add: gblock_def del: map_eq_conv)
  next
    case (OObj ms)
    have "map (\<lambda>(k, t). member_text [] k (gtext (\<lambda>d. []) [] (Suc d) t)) ms =
        map (\<lambda>(k, t). member_text [] k (gtext (\<lambda>d. []) [] (Suc d') t)) ms"
      using OObj [of _ _ "Suc d" "Suc d'"] by (intro map_cong) (auto simp: snds.simps)
    then show ?case by (simp add: gblock_def del: map_eq_conv)
  qed simp
  then show ?thesis by (simp add: compact_text_def)
qed

definition members_text :: "(bytes \<times> otree) list \<Rightarrow> bytes" where
  "members_text ms = join (map (\<lambda>(k, t). member_text [] k (compact_text t)) ms) '',''"

lemma compact_text_simps:
  "compact_text (OLit l) = l"
  "compact_text (OArr xs) = CHR ''['' # join (map compact_text xs) '','' @ '']''"
  "compact_text (OObj ms) = CHR ''{'' # members_text ms @ ''}''"
  unfolding compact_text_def [of "OLit l"] compact_text_def [of "OArr xs"] compact_text_def [of "OObj ms"]
  by (simp_all add: gtext_compact gblock_def members_text_def cong: map_cong)

lemma join_Cons_ne: "xs \<noteq> [] \<Longrightarrow> join (x # xs) sep = x @ sep @ join xs sep"
  by (cases xs) simp_all

lemma compact_key:
  assumes "parse_key s = Some (k, r)"
  shows "\<exists>b. clean_body b \<and>
    compact_go False False s = CHR 0x22 # b @ CHR 0x22 # CHR '':'' # compact_go False False r"
proof -
  from assms obtain s1 b s2 where s: "skip_ws s = CHR 0x22 # s1" "scan_string s1 = Some (b, s2)"
    "skip_ws s2 = CHR '':'' # r"
    by (auto simp: parse_key_def split: list.splits option.splits if_splits)
  from compact_string [OF s(2)] obtain b' where
    b': "compact_go True False s1 = b' @ CHR 0x22 # compact_go False False s2" "clean_body b'" by blast
  have "compact_go False False s2 = CHR '':'' # compact_go False False r"
    using s(3) compact_skip [of s2] by (simp add: is_ws_def html_byte_def Let_def)
  then have "compact_go False False s = CHR 0x22 # b' @ CHR 0x22 # CHR '':'' # compact_go False False r"
    using s(1) b' compact_skip [of s] by (simp add: is_ws_def html_byte_def Let_def)
  with b'(2) show ?thesis by blast
qed

text \<open>How deep a value is nested.\<close>

fun json_depth :: "json \<Rightarrow> nat" where
  "json_depth (JArr xs) = Suc (foldr max (map (\<lambda>(raw, v). json_depth v) xs) 0)"
| "json_depth (JObj ms) = Suc (foldr max (map (\<lambda>(k, raw, v). json_depth v) ms) 0)"
| "json_depth v = 0"

lemma fits_mono: "fits d t \<Longrightarrow> d \<le> e \<Longrightarrow> fits e t"
proof (induction t arbitrary: d e)
  case (OArr xs)
  have "fits (e - 1) x" if "x \<in> set xs" for x
    by (rule OArr.IH [OF that, of "d - 1"]) (use OArr.prems that in simp_all)
  with OArr.prems show ?case by simp
next
  case (OObj ms)
  have "fits (e - 1) (snd m)" if "m \<in> set ms" for m
    by (rule OObj.IH [OF that, of _ "d - 1"]) (use OObj.prems that in \<open>simp_all add: snds.simps\<close>)
  with OObj.prems show ?case by simp
qed simp

lemma scalar_depth: "scalar s = Some (v, r) \<Longrightarrow> json_depth v = 0"
proof -
  assume "scalar s = Some (v, r)"
  then have "v \<in> {JBool True, JBool False, JNull} \<or> (\<exists>b. v = JStr b) \<or> (\<exists>b. v = JNum b)"
    unfolding scalar_def literal_def
    by (simp split: list.split_asm if_split_asm) blast+
  then show "json_depth v = 0" by auto
qed

text \<open>The tree of a document is how \<open>Compact\<close> leaves it; it is as deep as the value.\<close>

lemma compact_parsed:
  "parse_value n d s = Some (v, r) \<Longrightarrow>
     \<exists>t. clean t \<and> fits (json_depth v) t \<and>
       compact_go False False s = compact_text t @ compact_go False False r"
  "parse_elems n d s = Some (xs, r) \<Longrightarrow>
     \<exists>ts. ts \<noteq> [] \<and> clean (OArr ts) \<and> fits (json_depth (JArr xs)) (OArr ts) \<and>
       compact_go False False s = join (map compact_text ts) '','' @ CHR '']'' # compact_go False False r"
  "parse_members n d s = Some (ms, r) \<Longrightarrow>
     \<exists>ts. ts \<noteq> [] \<and> clean (OObj ts) \<and> fits (json_depth (JObj ms)) (OObj ts) \<and>
       compact_go False False s = members_text ts @ CHR ''}'' # compact_go False False r"
proof (induction n d s and n d s and n d s arbitrary: v r and xs r and ms r
    rule: parse_value_parse_elems_parse_members.induct)
  case (2 n d s)
  from "2.prems" obtain c u where s: "skip_ws s = c # u"
    by (auto simp: parse_value.simps split: list.splits)
  have open': "compact_go False False s = c # compact_go False False u" if "c = CHR ''['' \<or> c = CHR ''{''"
    using compact_skip [of s] that unfolding s by (auto simp: is_ws_def html_byte_def Let_def)
  have close: "compact_go False False u = c' # compact_go False False r"
    if "skip_ws u = c' # r" "c' = CHR '']'' \<or> c' = CHR ''}''" for c'
    using compact_skip [of u] that by (auto simp: is_ws_def html_byte_def Let_def)
  consider (obj) "c = CHR ''{''" | (arr) "c = CHR ''[''" | (lit) "c \<noteq> CHR ''{''" "c \<noteq> CHR ''[''" by blast
  then show ?case
  proof cases
    case obj
    with "2.prems" s obtain c' u' where u: "skip_ws u = c' # u'" "d \<noteq> 0"
      by (auto simp: parse_value.simps split: list.splits if_splits)
    show ?thesis
    proof (cases "c' = CHR ''}''")
      case True
      then have "r = u'" "v = JObj []" using "2.prems" s u obj by (simp_all add: parse_value.simps)
      with open' close [of c'] u True obj show ?thesis
        by (intro exI [of _ "OObj []"]) (simp add: compact_text_simps members_text_def)
    next
      case False
      then obtain ms where ms: "parse_members n (d - 1) u = Some (ms, r)" "v = JObj ms"
        using "2.prems" s u obj by (auto simp: parse_value.simps)
      from "2.IH"(1) [OF s obj u(2,1) False ms(1)] obtain ts where
        "clean (OObj ts)" "fits (json_depth v) (OObj ts)" "compact_go False False u = members_text ts @ CHR ''}'' # compact_go False False r"
        using ms(2) by blast
      with open' obj show ?thesis by (intro exI [of _ "OObj ts"]) (simp add: compact_text_simps)
    qed
  next
    case arr
    then have no: "c \<noteq> CHR ''{''" by simp
    from arr "2.prems" s obtain c' u' where u: "skip_ws u = c' # u'" "d \<noteq> 0"
      by (auto simp: parse_value.simps split: list.splits if_splits)
    show ?thesis
    proof (cases "c' = CHR '']''")
      case True
      then have "r = u'" "v = JArr []" using "2.prems" s u arr by (simp_all add: parse_value.simps)
      with open' close [of c'] u True arr show ?thesis
        by (intro exI [of _ "OArr []"]) (simp add: compact_text_simps)
    next
      case False
      then obtain xs where xs: "parse_elems n (d - 1) u = Some (xs, r)" "v = JArr xs"
        using "2.prems" s u arr by (auto simp: parse_value.simps)
      from "2.IH"(2) [OF s no arr u(2,1) False xs(1)] obtain ts where
        "clean (OArr ts)" "fits (json_depth v) (OArr ts)"
        "compact_go False False u = join (map compact_text ts) '','' @ CHR '']'' # compact_go False False r"
        using xs(2) by blast
      with open' arr show ?thesis by (intro exI [of _ "OArr ts"]) (simp add: compact_text_simps)
    qed
  next
    case lit
    then have "scalar (skip_ws s) = Some (v, r)" using "2.prems" s by (simp add: parse_value.simps)
    from compact_scalar [OF this] scalar_depth [OF this] show ?thesis by (auto simp: compact_skip)
  qed
next
  case (4 n d s)
  from "4.prems" obtain v0 r0 where v: "parse_value n d (skip_ws s) = Some (v0, r0)"
    by (auto simp: parse_elems.simps split: option.splits)
  from "4.IH"(1) [OF v] obtain t where t: "clean t" "fits (json_depth v0) t"
    "compact_go False False s = compact_text t @ compact_go False False r0"
    by (auto simp: compact_skip)
  from "4.prems" v obtain c r' where r': "skip_ws r0 = c # r'"
    by (auto simp: parse_elems.simps split: list.splits)
  have c: "compact_go False False r0 = c # compact_go False False r'" if "c = CHR '']'' \<or> c = CHR '',''"
    using compact_skip [of r0] that unfolding r' by (auto simp: is_ws_def html_byte_def Let_def)
  show ?case
  proof (cases "c = CHR '']''")
    case True
    with "4.prems" v r' obtain raw where "r = r'" "xs = [(raw, v0)]" by (auto simp: parse_elems.simps)
    with t c True show ?thesis by (intro exI [of _ "[t]"]) simp
  next
    case False
    with "4.prems" v r' obtain raw ys where ys: "c = CHR '',''" "parse_elems n d r' = Some (ys, r)"
      "xs = (raw, v0) # ys"
      by (auto simp: parse_elems.simps split: if_splits)
    from "4.IH"(2) [OF v refl r' False ys(1,2)] obtain ts where ts: "ts \<noteq> []" "clean (OArr ts)"
      "fits (json_depth (JArr ys)) (OArr ts)"
      "compact_go False False r' = join (map compact_text ts) '','' @ CHR '']'' # compact_go False False r"
      by blast
    have "fits (max (json_depth v0) m) t" "\<forall>t\<in>set ts. fits (max (json_depth v0) m) t"
      if "\<forall>t\<in>set ts. fits m t" for m
      using that t(2) by (auto intro: fits_mono)
    with t c ys ts show ?thesis by (intro exI [of _ "t # ts"]) (simp add: join_Cons_ne)
  qed
next
  case (6 n d s)
  from "6.prems" obtain k s3 v0 r0 where k: "parse_key s = Some (k, s3)"
    and v: "parse_value n d (skip_ws s3) = Some (v0, r0)"
    by (auto simp: parse_members.simps split: option.splits)
  from compact_key [OF k] obtain b where b: "clean_body b"
    "compact_go False False s = CHR 0x22 # b @ CHR 0x22 # CHR '':'' # compact_go False False s3" by blast
  from "6.IH"(1) [OF k refl v] obtain t where t: "clean t" "fits (json_depth v0) t"
    "compact_go False False s3 = compact_text t @ compact_go False False r0"
    by (auto simp: compact_skip)
  have bt: "compact_go False False s = member_text [] b (compact_text t) @ compact_go False False r0"
    using b(2) t(3) by (simp add: member_text_def)
  from "6.prems" k v obtain c r' where r': "skip_ws r0 = c # r'"
    by (auto simp: parse_members.simps split: list.splits)
  have c: "compact_go False False r0 = c # compact_go False False r'" if "c = CHR ''}'' \<or> c = CHR '',''"
    using compact_skip [of r0] that unfolding r' by (auto simp: is_ws_def html_byte_def Let_def)
  show ?case
  proof (cases "c = CHR ''}''")
    case True
    with "6.prems" k v r' obtain raw where "r = r'" "ms = [(k, raw, v0)]" by (auto simp: parse_members.simps)
    with bt b(1) t(1,2) c True show ?thesis by (intro exI [of _ "[(b, t)]"]) (simp add: members_text_def)
  next
    case False
    with "6.prems" k v r' obtain raw ys where ys: "c = CHR '',''" "parse_members n d r' = Some (ys, r)"
      "ms = (k, raw, v0) # ys"
      by (auto simp: parse_members.simps split: if_splits)
    from "6.IH"(2) [OF k refl v refl r' False ys(1,2)] obtain ts where ts: "ts \<noteq> []" "clean (OObj ts)"
      "fits (json_depth (JObj ys)) (OObj ts)"
      "compact_go False False r' = members_text ts @ CHR ''}'' # compact_go False False r"
      by blast
    have "fits (max (json_depth v0) m) t" "\<forall>x\<in>set ts. fits (max (json_depth v0) m) (snd x)"
      if "\<forall>x\<in>set ts. fits m (snd x)" for m
      using that t(2) by (auto intro: fits_mono)
    with bt b(1) t(1) c ys ts show ?thesis
      by (intro exI [of _ "(b, t) # ts"]) (simp add: members_text_def join_Cons_ne)
  qed
qed (simp_all add: parse_value.simps parse_elems.simps parse_members.simps)

lemma Compact_tree:
  assumes "Compact s = Some c"
  shows "\<exists>raw v t. parse_whole s = Some (raw, v) \<and> clean t \<and> fits (json_depth v) t \<and> c = compact_text t"
proof -
  from assms obtain v r where v: "parse_value (parse_fuel s) max_depth (skip_ws s) = Some (v, r)"
    "skip_ws r = []" "c = compact_go False False s"
    by (auto simp: Compact_def parse_whole_def split: if_splits option.splits)
  from compact_parsed(1) [OF v(1)] compact_skip [of r] v(2,3) obtain t where
    "clean t" "fits (json_depth v) t" "c = compact_text t" by (auto simp: compact_skip)
  with v(1,2) show ?thesis by (auto simp: parse_whole_def)
qed

lemma blank_layouts: "blank (new_line d)" "blank '' ''" "blank []"
  by (simp_all add: blank_def new_line_def is_ws_def list_all_iff)

lemma compact_blank: "blank w \<Longrightarrow> compact_go False False (w @ s) = compact_go False False s"
  by (induction w) (simp_all add: blank_def Let_def)

lemma compact_clean_lit: "clean_lit l \<or> word_lit l \<Longrightarrow> compact_go False False (l @ r) = l @ compact_go False False r"
  using word_lit_chars [of l]
  by (auto simp: clean_lit_def clean_body_def compact_word_chars is_ws_def html_byte_def Let_def)

lemma compact_items:
  assumes "\<And>x r. x \<in> set xs \<Longrightarrow> compact_go False False (f x @ r) = g x @ compact_go False False r"
    and "blank w"
  shows "compact_go False False (join (map f xs) (CHR '','' # w) @ r) = join (map g xs) '','' @ compact_go False False r"
proof (cases xs)
  case (Cons y ys)
  have "compact_go False False (concat (map (\<lambda>x. CHR '','' # w @ f x) zs) @ r) =
      concat (map (\<lambda>x. CHR '','' # g x) zs) @ compact_go False False r" if "set zs \<subseteq> set xs" for zs
    using that by (induction zs) (simp_all add: assms compact_blank is_ws_def html_byte_def Let_def)
  from this [OF set_subset_Cons [of ys y, folded Cons]] assms(1) [of y] Cons show ?thesis
    by (simp add: join_Cons comp_def)
qed simp

lemma compact_layout:
  assumes "\<And>d. blank (nl d)" "blank sp"
  shows "clean t \<Longrightarrow> compact_go False False (gtext nl sp d t @ r) = compact_text t @ compact_go False False r"
proof (induction t arbitrary: d r)
  case (OLit l)
  then show ?case by (simp add: compact_clean_lit compact_text_simps)
next
  case (OArr xs)
  have "compact_go False False (join (map (gtext nl sp (Suc d)) xs) (CHR '','' # nl (Suc d)) @ u) =
      join (map compact_text xs) '','' @ compact_go False False u" for u
    by (rule compact_items) (use OArr assms in auto)
  with assms(1) show ?case
    by (simp add: gblock_def compact_text_simps compact_blank is_ws_def html_byte_def Let_def)
next
  case (OObj ms)
  have "compact_go False False (join (map (\<lambda>(k, t). member_text sp k (gtext nl sp (Suc d) t)) ms) (CHR '','' # nl (Suc d)) @ u) =
      join (map (\<lambda>(k, t). member_text [] k (compact_text t)) ms) '','' @ compact_go False False u" for u
  proof (rule compact_items)
    fix m v
    assume m: "m \<in> set ms"
    obtain k t where kt: "m = (k, t)" by fastforce
    with OObj.prems m have "clean_body k" "clean t" by auto
    with OObj.IH [OF m, of t] kt assms(2)
    show "compact_go False False ((case m of (k, t) \<Rightarrow> member_text sp k (gtext nl sp (Suc d) t)) @ v) =
        (case m of (k, t) \<Rightarrow> member_text [] k (compact_text t)) @ compact_go False False v"
      by (simp add: member_text_def clean_body_def compact_blank is_ws_def html_byte_def Let_def snds.simps)
  qed (rule assms)
  with assms(1) show ?case
    by (simp add: gblock_def compact_text_simps members_text_def compact_blank is_ws_def html_byte_def Let_def)
qed

text \<open>
  Indenting the compact text of a well-formed tree lays it out, and what comes out parses to
  the tree's value; it fails only when the tree is nested too deep.
\<close>

lemma Indent_compact:
  assumes "well_formed t"
  shows "Indent (compact_text t) = (if fits max_depth t then Some (tree_text 0 t) else None)"
    and "fits max_depth t \<Longrightarrow> skip_ws w = [] \<Longrightarrow>
      parse_whole (tree_text k t @ w) = Some (tree_text k t, gjson new_line '' '' k t)"
proof -
  have sk: "skip_ws (gtext nl sp k t @ u) = gtext nl sp k t @ u" for nl sp u k
    by (rule gtext_first [OF assms, of nl sp k]) (simp add: skip_visible)
  have p: "parse_value (parse_fuel (gtext nl sp k t @ u)) d (gtext nl sp k t @ u) =
      (if fits d t then Some (gjson nl sp k t, u) else None)"
    if "\<And>d. blank (nl d)" "blank sp" "delimiter u" for nl sp d u k
    by (rule parse_gtext [OF that(1,2) assms that(3)]) (simp add: parse_fuel_def)
  have "skip_ws [] = []" by (simp add: skip_ws_def)
  with sk [of "\<lambda>d. []" "[]" 0 "[]"] p [of "\<lambda>d. []" "[]" "[]" 0 max_depth] indent_compact [OF assms, of 0]
  show "Indent (compact_text t) = (if fits max_depth t then Some (tree_text 0 t) else None)"
    by (simp add: Indent_def parse_whole_def compact_text_def blank_layouts)
  assume "fits max_depth t" "skip_ws w = []"
  moreover from this(2) have "delimiter w"
    by (cases w) (auto simp: delimiter_def skip_ws_def split: if_splits)
  ultimately show "parse_whole (tree_text k t @ w) = Some (tree_text k t, gjson new_line '' '' k t)"
    using sk [of new_line "'' ''" k w] p [of new_line "'' ''" w k max_depth]
    by (simp add: parse_whole_def tree_text_def blank_layouts)
qed

text \<open>What was parsed is within the limit, so a compacted document that is laid out is JSON again.\<close>

lemma foldr_max_le: "foldr max xs (0 :: nat) \<le> m \<longleftrightarrow> (\<forall>x\<in>set xs. x \<le> m)"
  by (induction xs) auto

lemma parse_depth:
  "parse_value n d s = Some (v, r) \<Longrightarrow> json_depth v \<le> d"
  "parse_elems n d s = Some (xs, r) \<Longrightarrow> \<forall>x\<in>set xs. json_depth (snd x) \<le> d"
  "parse_members n d s = Some (ms, r) \<Longrightarrow> \<forall>x\<in>set ms. json_depth (snd (snd x)) \<le> d"
proof (induction n d s and n d s and n d s arbitrary: v r and xs r and ms r
    rule: parse_value_parse_elems_parse_members.induct)
  case (2 n d s)
  from "2.prems" obtain c u where s: "skip_ws s = c # u"
    by (auto simp: parse_value.simps split: list.splits)
  show ?case
  proof (cases "c = CHR ''{'' \<or> c = CHR ''[''")
    case True
    then obtain c' u' where u: "skip_ws u = c' # u'" "d \<noteq> 0"
      using "2.prems" s by (auto simp: parse_value.simps split: list.splits if_splits)
    have suc: "Suc m \<le> d \<longleftrightarrow> m \<le> d - 1" for m using u(2) by auto
    have members: "\<forall>x\<in>set ms. json_depth (snd (snd x)) \<le> d - 1"
      if "c = CHR ''{''" "c' \<noteq> CHR ''}''" "parse_members n (d - 1) u = Some (ms, r')" for ms r'
      using "2.IH"(1) [OF s that(1) u(2,1) that(2,3)] .
    have elems: "\<forall>x\<in>set xs. json_depth (snd x) \<le> d - 1"
      if "c = CHR ''[''" "c' \<noteq> CHR '']''" "parse_elems n (d - 1) u = Some (xs, r')" for xs r'
      using "2.IH"(2) [OF s _ that(1) u(2,1) that(2,3)] that(1) by simp
    show ?thesis
      using "2.prems" s u True
      by (auto simp: parse_value.simps foldr_max_le suc split: if_splits dest!: members elems; fastforce)
  next
    case False
    with "2.prems" s scalar_depth show ?thesis by (simp add: parse_value.simps)
  qed
next
  case (4 n d s)
  then obtain v0 r0 c r' where v: "parse_value n d (skip_ws s) = Some (v0, r0)"
    and r': "skip_ws r0 = c # r'"
    by (auto simp: parse_elems.simps split: option.splits list.splits)
  show ?case
    using "4.prems" v r' "4.IH"(1) [OF v] "4.IH"(2) [OF v refl r']
    by (auto simp: parse_elems.simps split: if_splits; fastforce)
next
  case (6 n d s)
  then obtain k s3 v0 r0 c r' where k: "parse_key s = Some (k, s3)"
    and v: "parse_value n d (skip_ws s3) = Some (v0, r0)" and r': "skip_ws r0 = c # r'"
    by (auto simp: parse_members.simps split: option.splits list.splits)
  show ?case
    using "6.prems" k v r' "6.IH"(1) [OF k refl v] "6.IH"(2) [OF k refl v refl r']
    by (auto simp: parse_members.simps split: if_splits; fastforce)
qed (simp_all add: parse_value.simps parse_elems.simps parse_members.simps)

lemma Compact_again:
  assumes "Compact s = Some c"
  shows "Compact (indent_go False False False k c) = Some c"
proof -
  from Compact_tree [OF assms] obtain raw v t where
    t: "parse_whole s = Some (raw, v)" "clean t" "fits (json_depth v) t" "c = compact_text t" by blast
  have "json_depth v \<le> max_depth"
    using t(1) parse_depth(1) by (auto simp: parse_whole_def split: option.splits if_splits)
  then have "fits max_depth t" using fits_mono [OF t(3)] by simp
  note p = Indent_compact(2) [OF clean_well_formed [OF t(2)] this, where w = "[]" and k = k]
  have e: "indent_go False False False k c = tree_text k t"
    using indent_compact [OF clean_well_formed [OF t(2)]] t(4) by simp
  have "compact_go False False (tree_text k t) = c"
    using compact_layout [of new_line "'' ''" t k "[]", OF blank_layouts(1,2) t(2)] t(4) by (simp add: tree_text_def)
  with p e show ?thesis by (simp add: Compact_def skip_ws_def)
qed

end
