(* ===== verification/JsonEncode.thy ===== *)
theory JsonEncode
  imports JsonRead NumberText
begin

text \<open>
  The encoding half of \<open>encoding/json\<close> for the kinds the program's types use, and the contract
  between an encoder and the decoder of the same type: what is written, laid out by \<open>Indent\<close> at
  any depth, is read back. The contract is the interface \<open>codec\<close>; slices, maps, pointers and
  structs carry it from their parts.

  A Go slice or map that is empty is nil or not, which the values here do not tell: \<open>nil\<close> says
  which it is, and what is shown holds for both.
\<close>

type_synonym 'a encoder = "'a \<Rightarrow> bytes option"

definition enc_string :: "string encoder" where
  "enc_string s = Some (json_string s)"

definition enc_int :: "int encoder" where
  "enc_int i = Some (show_int i)"

text \<open>\<open>json.RawMessage\<close>: its bytes, compacted; they have to be JSON.\<close>

definition enc_raw :: "bool \<Rightarrow> bytes encoder" where
  "enc_raw nil b = (if b = [] \<and> nil then Some ''null'' else Compact b)"

definition enc_list :: "bool \<Rightarrow> 'a encoder \<Rightarrow> 'a list encoder" where
  "enc_list nil e xs =
     (if xs = [] \<and> nil then Some ''null''
      else map_option (\<lambda>ts. CHR ''['' # join ts '','' @ '']'') (those (map e xs)))"

definition key_value :: "string \<Rightarrow> bytes option \<Rightarrow> bytes option" where
  "key_value k v = map_option (member_text [] (json_body k)) v"

definition enc_object :: "(string \<times> bytes option) list \<Rightarrow> bytes option" where
  "enc_object ms =
     map_option (\<lambda>ts. CHR ''{'' # join ts '','' @ ''}'') (those (map (\<lambda>(k, v). key_value k v) ms))"

text \<open>The keys of a map are sorted.\<close>

definition enc_map :: "bool \<Rightarrow> 'a encoder \<Rightarrow> 'a gomap encoder" where
  "enc_map nil e m =
     (if m = [] \<and> nil then Some ''null''
      else enc_object (map (\<lambda>(k, v). (k, e v)) (sort_key fst m)))"

definition enc_ptr :: "'a encoder \<Rightarrow> 'a option encoder" where
  "enc_ptr e x = (case x of None \<Rightarrow> Some ''null'' | Some y \<Rightarrow> e y)"

text \<open>The fields of a struct in their order; \<open>omitempty\<close> leaves a field out.\<close>

definition member :: "'a encoder \<Rightarrow> 'a \<Rightarrow> bytes option option" where
  "member e v = Some (e v)"

definition omitempty :: "bool \<Rightarrow> 'a encoder \<Rightarrow> 'a \<Rightarrow> bytes option option" where
  "omitempty z e v = (if z then None else Some (e v))"

definition enc_struct :: "(string \<times> bytes option option) list \<Rightarrow> bytes option" where
  "enc_struct ms = enc_object (concat (map (\<lambda>(k, m). case m of None \<Rightarrow> [] | Some v \<Rightarrow> [(k, v)]) ms))"

subsection \<open>The contract\<close>

definition value_of :: "nat \<Rightarrow> otree \<Rightarrow> json" where
  "value_of k t = gjson new_line '' '' k t"

definition entries_ok :: "('a \<Rightarrow> bool) \<Rightarrow> 'a gomap \<Rightarrow> bool" where
  "entries_ok P m \<longleftrightarrow> wf_map m \<and> list_all (\<lambda>(n, v). utf8 n \<and> P v) m"

text \<open>
  \<open>lay k\<close> is what becomes of a value that is written at depth \<open>k\<close> and read; \<open>deep\<close> bounds its
  nesting.
\<close>

locale codec =
  fixes enc :: "'a encoder"
    and dec :: "'a decoder"
    and zero :: 'a
    and ok :: "'a \<Rightarrow> bool"
    and lay :: "nat \<Rightarrow> 'a \<Rightarrow> 'a"
    and deep :: "'a \<Rightarrow> nat"
  assumes law: "ok x \<Longrightarrow> enc x = Some b \<Longrightarrow>
    \<exists>t. well_formed t \<and> fits (deep x) t \<and> b = compact_text t \<and>
      (\<forall>k. dec (tree_text k t) (value_of k t) zero = Some (lay k x))"

lemma those_Some: "those xs = Some ys \<longleftrightarrow> xs = map Some ys"
proof (induction xs arbitrary: ys)
  case (Cons x xs)
  then show ?case by (cases x; cases ys) auto
qed auto

lemma null_tree:
  "well_formed (OLit ''null'')" "fits d (OLit ''null'')" "compact_text (OLit ''null'') = ''null''"
  "value_of k (OLit ''null'') = JNull" "tree_text k (OLit ''null'') = ''null''"
  by (simp_all add: word_lit_def compact_text_simps value_of_def scalar_def literal_def tree_text_def)

lemma value_of_simps:
  "value_of k (OArr xs) = JArr (map (\<lambda>x. (tree_text (Suc k) x, value_of (Suc k) x)) xs)"
  "value_of k (OObj ms) =
    JObj (map (\<lambda>(n, x). (unquote n, tree_text (Suc k) x, value_of (Suc k) x)) ms)"
  by (simp_all add: value_of_def tree_text_def)

context codec
begin

text \<open>A list of values and the trees they are written as.\<close>

lemma trees:
  assumes deep: "\<And>x. deep x \<le> n"
  shows "list_all ok xs \<Longrightarrow> map enc xs = map Some bs \<Longrightarrow>
   \<exists>ts. bs = map compact_text ts \<and> list_all well_formed ts \<and> list_all (fits n) ts \<and>
     (\<forall>k. list_all2 (\<lambda>x t. dec (tree_text k t) (value_of k t) zero = Some (lay k x)) xs ts)"
proof (induction xs arbitrary: bs)
  case (Cons x xs)
  then obtain b bs' where bs: "bs = b # bs'" "enc x = Some b" "map enc xs = map Some bs'"
    by (cases bs) auto
  from law [OF _ bs(2)] Cons.prems(1) obtain t where
    t: "well_formed t" "fits (deep x) t" "b = compact_text t"
      "\<forall>k. dec (tree_text k t) (value_of k t) zero = Some (lay k x)" by auto
  have "fits n t" by (rule fits_mono [OF t(2) deep])
  moreover from Cons.IH [OF _ bs(3)] Cons.prems(1) obtain ts where
    "bs' = map compact_text ts" "list_all well_formed ts" "list_all (fits n) ts"
    "\<forall>k. list_all2 (\<lambda>x t. dec (tree_text k t) (value_of k t) zero = Some (lay k x)) xs ts" by auto
  ultimately show ?case using t bs by (intro exI [of _ "t # ts"]) simp
qed simp

lemma list_codec:
  assumes deep: "\<And>x. deep x \<le> n"
  shows "codec (enc_list nil enc) (dec_list zero dec) [] (list_all ok) (\<lambda>k. map (lay (Suc k))) (\<lambda>xs. Suc n)"
proof
  fix xs b
  assume ok: "list_all ok xs" and b: "enc_list nil enc xs = Some b"
  show "\<exists>t. well_formed t \<and> fits (Suc n) t \<and> b = compact_text t \<and>
    (\<forall>k. dec_list zero dec (tree_text k t) (value_of k t) [] = Some (map (lay (Suc k)) xs))"
  proof (cases "xs = [] \<and> nil")
    case True
    with b null_tree show ?thesis by (intro exI [of _ "OLit ''null''"]) (simp add: enc_list_def)
  next
    case False
    with b obtain bs where "map enc xs = map Some bs" "b = CHR ''['' # join bs '','' @ '']''"
      by (auto simp: enc_list_def those_Some)
    with trees [OF deep ok this(1)] obtain ts where ts: "list_all well_formed ts" "list_all (fits n) ts"
      "b = compact_text (OArr ts)"
      "\<And>k. list_all2 (\<lambda>x t. dec (tree_text k t) (value_of k t) zero = Some (lay k x)) xs ts"
      by (auto simp: compact_text_simps)
    have "dec_elems zero dec (map (\<lambda>t. (tree_text k t, value_of k t)) us) [] = Some (map (lay k) ys)"
      if "list_all2 (\<lambda>x t. dec (tree_text k t) (value_of k t) zero = Some (lay k x)) ys us" for ys us k
      using that by (induction rule: list_all2_induct) simp_all
    with ts show ?thesis
      by (intro exI [of _ "OArr ts"]) (simp add: value_of_simps list_all_iff)
  qed
qed

lemma pointer_codec:
  assumes "\<And>x b. enc x = Some b \<Longrightarrow> hd b = CHR ''{''"
  shows "codec (enc_ptr enc) (dec_opt zero dec) None (pred_option ok) (\<lambda>k. map_option (lay k))
    (\<lambda>x. case x of None \<Rightarrow> 0 | Some y \<Rightarrow> deep y)"
proof
  fix x b
  assume ok: "pred_option ok x" and b: "enc_ptr enc x = Some b"
  show "\<exists>t. well_formed t \<and> fits (case x of None \<Rightarrow> 0 | Some y \<Rightarrow> deep y) t \<and> b = compact_text t \<and>
    (\<forall>k. dec_opt zero dec (tree_text k t) (value_of k t) None = Some (map_option (lay k) x))"
  proof (cases x)
    case None
    with b null_tree show ?thesis
      by (intro exI [of _ "OLit ''null''"]) (simp add: enc_ptr_def dec_opt_def)
  next
    case (Some y)
    with ok b have y: "ok y" "enc y = Some b" by (simp_all add: enc_ptr_def)
    from law [OF this] obtain t where t: "well_formed t" "fits (deep y) t" "b = compact_text t"
      "\<And>k. dec (tree_text k t) (value_of k t) zero = Some (lay k y)" by blast
    have "value_of k t \<noteq> JNull" for k
    proof (cases t)
      case (OLit l)
      then have "hd l = CHR ''{''" "string_lit l \<or> word_lit l"
        using assms [OF y(2)] t by (simp_all add: compact_text_simps)
      then show ?thesis by (auto elim!: lit_visible [of l])
    qed (simp_all add: value_of_simps)
    with t Some show ?thesis by (intro exI [of _ t]) (simp add: dec_opt_def)
  qed
qed

text \<open>Reading a map puts the entries in the order they were written in: sorted by key.\<close>

lemma map_codec:
  assumes deep: "\<And>x. deep x \<le> d"
  shows "codec (enc_map nil enc) (dec_map zero dec) m_empty
     (entries_ok ok)
     (\<lambda>k m. map (\<lambda>(n, v). (n, lay (Suc k) v)) (sort_key fst m)) (\<lambda>m. Suc d)"
proof
  fix m b
  assume "entries_ok ok m" and b: "enc_map nil enc m = Some b"
  then have ok: "wf_map m \<and> (\<forall>(n, v)\<in>set m. utf8 n \<and> ok v)" by (simp add: entries_ok_def list_all_iff)
  show "\<exists>t. well_formed t \<and> fits (Suc d) t \<and> b = compact_text t \<and>
    (\<forall>k. dec_map zero dec (tree_text k t) (value_of k t) m_empty =
      Some (map (\<lambda>(n, v). (n, lay (Suc k) v)) (sort_key fst m)))"
  proof (cases "m = [] \<and> nil")
    case True
    with b null_tree show ?thesis
      by (intro exI [of _ "OLit ''null''"]) (simp add: enc_map_def m_empty_def)
  next
    case False
    define es where "es = sort_key fst m"
    have es: "distinct (map fst es)" "\<forall>(n, v)\<in>set es. utf8 n \<and> ok v"
      using ok by (auto simp: es_def wf_map_def distinct_map)
    from False b obtain bs where bs: "map (\<lambda>(n, v). key_value n (enc v)) es = map Some bs"
      "b = CHR ''{'' # join bs '','' @ ''}''"
      by (auto simp: enc_map_def enc_object_def those_Some es_def comp_def case_prod_unfold)
    from bs(1) es(2) have "\<exists>ts. bs = map (\<lambda>((n, v), t). member_text [] (json_body n) (compact_text t)) (zip es ts) \<and>
      length ts = length es \<and> list_all well_formed ts \<and> list_all (fits d) ts \<and>
      (\<forall>k. list_all2 (\<lambda>(n, v) t. dec (tree_text k t) (value_of k t) zero = Some (lay k v)) es ts)"
    proof (induction es arbitrary: bs)
      case (Cons e es)
      obtain n v where e: "e = (n, v)" by fastforce
      with Cons.prems(1) obtain w bs' where w: "bs = member_text [] (json_body n) w # bs'" "enc v = Some w"
        "map (\<lambda>(n, v). key_value n (enc v)) es = map Some bs'"
        by (cases bs) (auto simp: key_value_def)
      from law [OF _ w(2)] Cons.prems(2) e obtain t where
        t: "well_formed t" "fits (deep v) t" "w = compact_text t" "\<forall>k. dec (tree_text k t) (value_of k t) zero = Some (lay k v)"
        by auto
      have "fits d t" by (rule fits_mono [OF t(2) deep])
      moreover from Cons.IH [OF w(3)] Cons.prems(2) obtain ts where
        "bs' = map (\<lambda>((n, v), t). member_text [] (json_body n) (compact_text t)) (zip es ts)"
        "length ts = length es" "list_all well_formed ts" "list_all (fits d) ts"
        "\<forall>k. list_all2 (\<lambda>(n, v) t. dec (tree_text k t) (value_of k t) zero = Some (lay k v)) es ts"
        by auto
      ultimately show ?case using t w e by (intro exI [of _ "t # ts"]) simp
    qed simp
    then obtain ts where ts: "bs = map (\<lambda>((n, v), t). member_text [] (json_body n) (compact_text t)) (zip es ts)"
      "length ts = length es" "list_all well_formed ts" "list_all (fits d) ts"
      "\<And>k. list_all2 (\<lambda>(n, v) t. dec (tree_text k t) (value_of k t) zero = Some (lay k v)) es ts"
      by blast
    define ms where "ms = map (\<lambda>((n, v), t). (json_body n, t)) (zip es ts)"
    have wf: "well_formed (OObj ms)"
      using ts(3) string_literal by (auto simp: ms_def list_all_iff string_body_def dest: set_zip_rightD)
    have fit: "fits (Suc d) (OObj ms)"
      using ts(4) by (auto simp: ms_def list_all_iff dest: set_zip_rightD)
    have "b = compact_text (OObj ms)"
      by (simp add: bs(2) ts(1) compact_text_simps members_text_def ms_def comp_def case_prod_unfold)
    moreover have "dec_entries zero dec (map (\<lambda>((n, v), t). (unquote (json_body n), tree_text k t, value_of k t)) (zip us vs)) acc =
        Some (acc @ map (\<lambda>(n, v). (n, lay k v)) us)"
      if "list_all2 (\<lambda>(n, v) t. dec (tree_text k t) (value_of k t) zero = Some (lay k v)) us vs"
        "distinct (map fst acc @ map fst us)" "\<forall>(n, v)\<in>set us. utf8 n \<and> ok v" for us vs acc k
      using that
    proof (induction us vs arbitrary: acc rule: list_all2_induct)
      case (Cons e us t vs)
      obtain n v where e: "e = (n, v)" by fastforce
      have "n \<notin> fst ` set acc" using Cons.prems(1) e by auto
      then have "m_put n (lay k v) acc = acc @ [(n, lay k v)]"
        unfolding m_put_def by (induction acc) auto
      with Cons e show ?case by (simp add: unquote_json_body)
    qed simp
    from this [OF ts(5), of "[]"] es have "dec_map zero dec (tree_text k (OObj ms)) (value_of k (OObj ms)) m_empty =
        Some (map (\<lambda>(n, v). (n, lay (Suc k) v)) es)" for k
      by (simp add: value_of_simps ms_def m_empty_def comp_def case_prod_unfold)
    ultimately show ?thesis using wf fit es_def by blast
  qed
qed

end

subsection \<open>Scalars\<close>

lemma string_tree: "well_formed (OLit (json_string s))" "scalar (json_string s) = Some (JStr (unquote (json_body s)), [])"
  using string_literal [of s] by (auto simp: json_string_def string_lit_def string_body_def scalar_def)

interpretation text_codec: codec enc_string dec_string "[]" utf8 "\<lambda>k s. s" "\<lambda>s. 0"
proof
  fix s b
  assume "utf8 s" "enc_string s = Some b"
  then show "\<exists>t. well_formed t \<and> fits 0 t \<and> b = compact_text t \<and>
      (\<forall>k. dec_string (tree_text k t) (value_of k t) [] = Some s)"
    using string_tree [of s]
    by (intro exI [of _ "OLit (json_string s)"])
      (simp add: enc_string_def compact_text_simps value_of_def unquote_json_body)
qed

lemma number_tree:
  "scan_number l = Some (l, []) \<Longrightarrow>
   well_formed (OLit l) \<and> compact_text (OLit l) = l \<and> value_of k (OLit l) = JNum l"
  using scalar_number [of l] by (simp add: word_lit_def value_of_def compact_text_simps)

interpretation int_codec: codec enc_int dec_int 0 int64 "\<lambda>k i. i" "\<lambda>i. 0"
proof
  fix i b
  assume "int64 i" "enc_int i = Some b"
  then show "\<exists>t. well_formed t \<and> fits 0 t \<and> b = compact_text t \<and> (\<forall>k. dec_int (tree_text k t) (value_of k t) 0 = Some i)"
    using number_tree [OF scan_show_int [of i]] parse_show_int [of i]
    by (intro exI [of _ "OLit b"]) (simp add: enc_int_def)
qed

text \<open>A raw value comes back laid out for the depth it stands at.\<close>

definition laid_out :: "nat \<Rightarrow> bytes \<Rightarrow> bytes" where
  "laid_out k b = (if b = [] then ''null'' else indent_go False False False k (compact_go False False b))"

definition raw_depth :: "bytes \<Rightarrow> nat" where
  "raw_depth b = (case parse_whole b of None \<Rightarrow> 0 | Some (raw, v) \<Rightarrow> json_depth v)"

lemma raw_codec: "codec (enc_raw nil) dec_raw [] (\<lambda>b. True) laid_out raw_depth"
proof
  fix x b
  assume b: "enc_raw nil x = Some b"
  show "\<exists>t. well_formed t \<and> fits (raw_depth x) t \<and> b = compact_text t \<and>
      (\<forall>k. dec_raw (tree_text k t) (value_of k t) [] = Some (laid_out k x))"
  proof (cases "x = []")
    case True
    have "parse_whole [] = None"
      by (simp add: parse_whole_def parse_fuel_def skip_ws_def parse_value.simps numeral_2_eq_2)
    then have "b = ''null''" using b True by (auto simp: enc_raw_def Compact_def split: if_splits)
    with True null_tree show ?thesis
      by (intro exI [of _ "OLit ''null''"]) (simp add: dec_raw_def laid_out_def)
  next
    case False
    then have "Compact x = Some b" using b by (simp add: enc_raw_def)
    moreover from this have "b = compact_go False False x" by (auto simp: Compact_def split: if_splits)
    moreover from Compact_tree [OF \<open>Compact x = Some b\<close>] obtain t where
      "well_formed t" "fits (raw_depth x) t" "b = compact_text t"
      by (auto simp: raw_depth_def dest: clean_well_formed)
    ultimately show ?thesis using False
      by (intro exI [of _ t]) (simp add: dec_raw_def laid_out_def flip: indent_compact)
  qed
qed

subsection \<open>Structs\<close>

text \<open>
  \<open>fills m fs es y y'\<close>: the members \<open>es\<close>, nested \<open>m\<close> deep at most, read into \<open>y\<close> make it \<open>y'\<close>; both depend on the depth of
  the struct.
\<close>

inductive fills :: "nat \<Rightarrow> 'r field list \<Rightarrow> (string \<times> bytes option option) list \<Rightarrow> (nat \<Rightarrow> 'r) \<Rightarrow> (nat \<Rightarrow> 'r) \<Rightarrow> bool"
  for m fs where
  fills_Nil: "fills m fs [] y y"
| fills_skip: "fills m fs es y y' \<Longrightarrow> fills m fs ((n, None) # es) y y'"
| fills_member: "find_field fs n = Some d \<Longrightarrow> utf8 n \<Longrightarrow>
    (\<And>b. v = Some b \<Longrightarrow> \<exists>t. well_formed t \<and> fits m t \<and> b = compact_text t \<and>
       (\<forall>k. d (tree_text (Suc k) t) (value_of (Suc k) t) (y k) = Some (y1 k))) \<Longrightarrow>
    fills m fs es y1 y' \<Longrightarrow> fills m fs ((n, Some v) # es) y y'"

lemma enc_struct_simps:
  "enc_struct [] = Some ''{}''"
  "enc_struct ((n, None) # es) = enc_struct es"
  by (simp_all add: enc_struct_def enc_object_def)

definition struct_members :: "(string \<times> bytes option option) list \<Rightarrow> bytes list option" where
  "struct_members es = those (concat (map (\<lambda>(n, m). case m of None \<Rightarrow> [] | Some v \<Rightarrow> [key_value n v]) es))"

lemma enc_struct_eq: "enc_struct es = map_option (\<lambda>ts. CHR ''{'' # join ts '','' @ ''}'') (struct_members es)"
proof -
  have "map (\<lambda>(k, v). key_value k v) (concat (map (\<lambda>(k, m). case m of None \<Rightarrow> [] | Some v \<Rightarrow> [(k, v)]) es)) =
      concat (map (\<lambda>(n, m). case m of None \<Rightarrow> [] | Some v \<Rightarrow> [key_value n v]) es)"
    by (induction es) (auto split: option.split)
  then show ?thesis by (simp add: enc_struct_def enc_object_def struct_members_def)
qed

lemma enc_struct_brace: "enc_struct es = Some b \<Longrightarrow> hd b = CHR ''{''"
  by (auto simp: enc_struct_eq)

lemma fills_members:
  "fills m fs es y y' \<Longrightarrow> struct_members es = Some bs \<Longrightarrow>
   \<exists>ms. bs = map (\<lambda>(n, t). member_text [] n (compact_text t)) ms \<and> well_formed (OObj ms) \<and> fits (Suc m) (OObj ms) \<and>
     (\<forall>k. dec_members strict fs
        (map (\<lambda>(n, t). (unquote n, tree_text (Suc k) t, value_of (Suc k) t)) ms) (y k) = Some (y' k))"
proof (induction arbitrary: bs rule: fills.induct)
  case (fills_Nil y)
  then show ?case by (intro exI [of _ "[]"]) (simp add: struct_members_def)
next
  case (fills_skip es y y' n)
  then show ?case by (simp add: struct_members_def)
next
  case (fills_member n d v y y1 es y')
  then obtain b bs' where b: "v = Some b" "bs = member_text [] (json_body n) b # bs'" "struct_members es = Some bs'"
    by (auto simp: struct_members_def key_value_def split: option.splits)
  from fills_member(3) [OF b(1)] obtain t where t: "well_formed t" "fits m t" "b = compact_text t"
    "\<And>k. d (tree_text (Suc k) t) (value_of (Suc k) t) (y k) = Some (y1 k)" by blast
  from fills_member(5) [OF b(3)] obtain ms where
    "bs' = map (\<lambda>(n, t). member_text [] n (compact_text t)) ms" "well_formed (OObj ms)" "fits (Suc m) (OObj ms)"
    "\<And>k. dec_members strict fs (map (\<lambda>(n, t). (unquote n, tree_text (Suc k) t, value_of (Suc k) t)) ms) (y1 k) = Some (y' k)"
    by blast
  with t b fills_member(1,2) string_literal [of n] show ?case
    by (intro exI [of _ "(json_body n, t) # ms"]) (simp add: unquote_json_body string_body_def)
qed

lemma struct_codec:
  assumes "\<And>x. ok x \<Longrightarrow> fills (deep x) fs (es x) (\<lambda>k. zero) (\<lambda>k. lay k x)"
  shows "codec (\<lambda>x. enc_struct (es x)) (dec_struct strict fs) zero ok lay (\<lambda>x. Suc (deep x))"
proof
  fix x b
  assume x: "ok x" "enc_struct (es x) = Some b"
  then obtain bs where bs: "struct_members (es x) = Some bs" "b = CHR ''{'' # join bs '','' @ ''}''"
    by (auto simp: enc_struct_eq)
  from fills_members [OF assms [OF x(1)] bs(1), of strict] obtain ms where
    ms: "bs = map (\<lambda>(n, t). member_text [] n (compact_text t)) ms" "well_formed (OObj ms)" "fits (Suc (deep x)) (OObj ms)"
    "\<And>k. dec_members strict fs (map (\<lambda>(n, t). (unquote n, tree_text (Suc k) t, value_of (Suc k) t)) ms) zero =
      Some (lay k x)" by blast
  from ms bs(2) show "\<exists>t. well_formed t \<and> fits (Suc (deep x)) t \<and> b = compact_text t \<and>
      (\<forall>k. dec_struct strict fs (tree_text k t) (value_of k t) zero = Some (lay k x))"
    by (intro exI [of _ "OObj ms"]) (simp add: value_of_simps compact_text_simps members_text_def)
qed

text \<open>The rules that follow the fields of a record.\<close>

definition field_at :: "'r field list \<Rightarrow> string \<Rightarrow> 'r decoder \<Rightarrow> bool" where
  "field_at fs n d \<longleftrightarrow> find_field fs n = Some d \<and> (\<exists>m. List.find (\<lambda>f. fst f = n) fs = Some (m, d))"

lemma field_here: "field_at (fld n get put d # fs) n (snd (fld n get put d))"
  by (auto simp: field_at_def find_field_def fld_def)

lemma field_later: "m \<noteq> n \<Longrightarrow> field_at fs n d \<Longrightarrow> field_at (fld m get put e # fs) n d"
  by (auto simp: field_at_def find_field_def fld_def)

lemma fills_field:
  assumes "codec e d z ok lay deep" "field_at fs n (snd (fld n get put d))" "utf8 n" "ok v" "\<And>k. get (y k) = z"
    and "deep v \<le> m" and "fills m fs es (\<lambda>k. put (lay (Suc k) v) (y k)) y'"
  shows "fills m fs ((n, member e v) # es) y y'"
  unfolding member_def
proof (rule fills_member)
  show "find_field fs n = Some (snd (fld n get put d))" using assms(2) by (simp add: field_at_def)
  show "utf8 n" "fills m fs es (\<lambda>k. put (lay (Suc k) v) (y k)) y'" by (rule assms)+
  fix b
  assume "e v = Some b"
  from codec.law [OF assms(1,4) this] assms(5,6) fits_mono
  show "\<exists>t. well_formed t \<and> fits m t \<and> b = compact_text t \<and>
      (\<forall>k. snd (fld n get put d) (tree_text (Suc k) t) (value_of (Suc k) t) (y k) = Some (put (lay (Suc k) v) (y k)))"
    by (fastforce simp: fld_def)
qed

lemma fills_omit:
  assumes "codec e d z ok lay deep" "field_at fs n (snd (fld n get put d))" "utf8 n" "ok v" "\<And>k. get (y k) = z"
    and "deep v \<le> m" and "c \<Longrightarrow> (\<lambda>k. put (lay (Suc k) v) (y k)) = y"
    and "fills m fs es (\<lambda>k. put (lay (Suc k) v) (y k)) y'"
  shows "fills m fs ((n, omitempty c e v) # es) y y'"
proof (cases c)
  case True
  with assms(7,8) show ?thesis by (simp add: omitempty_def fills_skip)
next
  case False
  with fills_field [OF assms(1-6,8)] show ?thesis by (simp add: omitempty_def member_def)
qed

lemma fills_end:
  assumes "\<And>k. y k = y' k"
  shows "fills m fs [] y y'"
proof -
  have "y = y'" using assms by (rule ext)
  then show ?thesis by (simp add: fills_Nil)
qed

end
