(* ===== verification/TimeText.thy ===== *)
theory TimeText
  imports NumberText GoTime
begin

text \<open>
  \<open>time.Time.MarshalJSON\<close>: the layout \<open>RFC3339Nano\<close> in the zone the time is shown in, refused
  when the year does not have four digits or the zone is a day or more from UTC. The civil date
  is computed from the day number, and the text is read back as the time it was.
\<close>

subsection \<open>The civil date\<close>

definition civil_year :: "int \<Rightarrow> int" where
  "civil_year n =
     (let y = 400 * n div 146097 + 1 in if days_to_year (y + 1) \<le> n then y + 1 else y)"

text \<open>The month and the day, from a month and the days after its first.\<close>

function civil_month :: "int \<Rightarrow> nat \<Rightarrow> nat \<Rightarrow> nat \<times> nat" where
  "civil_month y m r =
     (if 12 \<le> m \<or> r < days_in y m then (m, Suc r) else civil_month y (Suc m) (r - days_in y m))"
  by pat_completeness auto
termination by (relation "measure (\<lambda>(y, m, r). 12 - m)") auto

declare civil_month.simps [simp del]

definition civil :: "int \<Rightarrow> int \<times> nat \<times> nat" where
  "civil n = (let y = civil_year n in (y, civil_month y 1 (nat (n - days_to_year y))))"

lemma div_bounds: "0 < k \<Longrightarrow> k * (z div k) \<le> z \<and> z < k * (z div k) + k" for k z :: int
  using pos_mod_sign [of k z] pos_mod_bound [of k z] mult_div_mod_eq [of k z] by linarith

lemma days_to_year_bounds:
  "146097 * (y - 1) - 699 \<le> 400 * days_to_year y \<and> 400 * days_to_year y \<le> 146097 * (y - 1) + 396"
proof -
  define z a b c where "z = y - 1" and "a = z div 4" and "b = z div 100" and "c = z div 400"
  have "4 * a \<le> z \<and> z < 4 * a + 4" "100 * b \<le> z \<and> z < 100 * b + 100" "400 * c \<le> z \<and> z < 400 * c + 400"
    unfolding a_def b_def c_def by (rule div_bounds, simp)+
  moreover have "days_to_year y = 365 * z + a - b + c"
    by (simp add: days_to_year_def z_def a_def b_def c_def)
  ultimately show ?thesis unfolding z_def [symmetric] by linarith
qed

lemma civil_year_spec: "days_to_year (civil_year n) \<le> n \<and> n < days_to_year (civil_year n + 1)"
proof -
  define y where "y = 400 * n div 146097 + 1"
  have "146097 * (400 * n div 146097) \<le> 400 * n \<and> 400 * n < 146097 * (400 * n div 146097) + 146097"
    by (rule div_bounds) simp
  moreover have "400 * n div 146097 = y - 1" by (simp add: y_def)
  ultimately have q: "146097 * (y - 1) \<le> 400 * n" "400 * n < 146097 * (y - 1) + 146097" by simp_all
  have "days_to_year y \<le> n" using days_to_year_bounds [of y] q by linarith
  moreover have "400 * n < 400 * days_to_year (y + 2)"
    using days_to_year_bounds [of "y + 2"] q(2) by (simp add: algebra_simps)
  then have "n < days_to_year (y + 2)" by simp
  ultimately show ?thesis unfolding civil_year_def Let_def y_def [symmetric] by (auto simp: add.commute)
qed

definition months_before :: "int \<Rightarrow> nat \<Rightarrow> nat" where
  "months_before y m = (\<Sum>k\<leftarrow>[1..<m]. days_in y k)"

lemma months_before_Suc: "1 \<le> m \<Longrightarrow> months_before y (Suc m) = months_before y m + days_in y m"
  by (simp add: months_before_def)

lemma year_length: "days_to_year (y + 1) - days_to_year y = int (months_before y 13)"
proof -
  have d: "y div k - (y - 1) div k = (if k dvd y then 1 else 0)" if "0 < k" for k :: int
  proof (cases "k dvd y")
    case True
    then obtain z where "y = k * z" by (elim dvdE)
    moreover have "(k * z - 1) div k = z - 1"
      using that by (intro int_div_pos_eq [of _ _ _ "k - 1"]) (simp_all add: algebra_simps)
    ultimately show ?thesis using that by simp
  next
    case False
    then have "y mod k \<noteq> 0" by (simp add: dvd_eq_mod_eq_0)
    then have "0 < y mod k" "y mod k < k"
      using that pos_mod_sign [of k y] pos_mod_bound [of k y] by linarith+
    moreover have "y - 1 = k * (y div k) + (y mod k - 1)" by simp
    ultimately have "(y - 1) div k = y div k"
      by (intro int_div_pos_eq [of _ _ _ "y mod k - 1"]) simp_all
    with False show ?thesis by simp
  qed
  have "[1..<13] = [1, 2, 3, 4, 5, 6, 7, 8, 9, 10, 11, 12 :: nat]" by (simp add: upt_rec)
  then have months: "months_before y 13 = 337 + days_in y 2" by (simp add: months_before_def days_in_def)
  have "days_to_year (y + 1) - days_to_year y =
      365 + (y div 4 - (y - 1) div 4) - (y div 100 - (y - 1) div 100) + (y div 400 - (y - 1) div 400)"
    by (simp add: days_to_year_def)
  also have "\<dots> = 365 + (if 4 dvd y then 1 else 0) - (if 100 dvd y then 1 else 0) + (if 400 dvd y then 1 else 0)"
    by (subst (1 2 3) d) simp_all
  also have "\<dots> = 337 + int (days_in y 2)"
  proof -
    have dvd: "100 dvd y \<Longrightarrow> 4 dvd y" "400 dvd y \<Longrightarrow> 100 dvd y"
      by (rule dvd_trans [rotated], assumption, simp)+
    have sums: "(a :: bool) \<or> \<not> b \<Longrightarrow> b \<or> \<not> c \<Longrightarrow>
        365 + (if a then 1 else 0) - (if b then 1 else 0) + (if c then 1 else 0) =
        337 + int (if a \<and> (\<not> b \<or> c) then 29 else 28)" for a b c
      by auto
    have "days_in y 2 = (if 4 dvd y \<and> (\<not> 100 dvd y \<or> 400 dvd y) then 29 else 28)"
      unfolding days_in_def is_leap_def by simp
    then show ?thesis by (simp only:) (rule sums; use dvd in blast)
  qed
  finally show ?thesis by (simp add: months)
qed

lemma civil_month_spec:
  "1 \<le> m \<Longrightarrow> m \<le> 12 \<Longrightarrow> months_before y m + r < months_before y 13 \<Longrightarrow> civil_month y m r = (m', d) \<Longrightarrow>
   1 \<le> m' \<and> m' \<le> 12 \<and> 1 \<le> d \<and> d \<le> days_in y m' \<and> months_before y m' + d = months_before y m + r + 1"
proof (induction y m r rule: civil_month.induct)
  case (1 y m r)
  show ?case
  proof (cases "12 \<le> m \<or> r < days_in y m")
    case True
    then have "m' = m" "d = Suc r" using 1(5) by (simp_all add: civil_month.simps [of y m r])
    moreover have "r < days_in y m"
    proof (cases "r < days_in y m")
      case False
      with True 1(3) have "m = 12" by simp
      with 1(4) months_before_Suc [of 12 y] show ?thesis by simp
    qed
    ultimately show ?thesis using 1(2,3) by simp
  next
    case False
    then have "civil_month y (Suc m) (r - days_in y m) = (m', d)" using 1(5) by (simp add: civil_month.simps [of y m r])
    moreover have "months_before y (Suc m) + (r - days_in y m) = months_before y m + r"
      using False months_before_Suc [OF 1(2)] by simp
    ultimately show ?thesis using 1(1) [OF False] 1(2,4) False by simp
  qed
qed

text \<open>The date is a date of the calendar, and it is the one with that day number.\<close>

lemma civil_spec:
  assumes "civil n = (y, m, d)"
  shows "days_to y m d = n" "1 \<le> m" "m \<le> 12" "1 \<le> d" "d \<le> days_in y m" "y = civil_year n"
proof -
  from assms have y: "y = civil_year n" and m: "civil_month y 1 (nat (n - days_to_year y)) = (m, d)"
    unfolding civil_def Let_def by blast+
  have n: "days_to_year y \<le> n" "n < days_to_year (y + 1)" using civil_year_spec [of n] y by simp_all
  then have "months_before y 1 + nat (n - days_to_year y) < months_before y 13"
    using year_length [of y] by (simp add: months_before_def)
  from civil_month_spec [OF _ _ this m] have
    md: "1 \<le> m \<and> m \<le> 12 \<and> 1 \<le> d \<and> d \<le> days_in y m"
    "months_before y m + d = nat (n - days_to_year y) + 1" by (simp_all add: months_before_def)
  then show "1 \<le> m" "m \<le> 12" "1 \<le> d" "d \<le> days_in y m" by simp_all
  have "int (months_before y m) + int d = n - days_to_year y + 1" using md(2) n(1) by linarith
  then show "days_to y m d = n" by (simp add: days_to_def months_before_def)
  show "y = civil_year n" by (rule y)
qed

subsection \<open>The text\<close>

definition fraction_text :: "nat \<Rightarrow> bytes" where
  "fraction_text ns = (if ns = 0 then [] else CHR ''.'' # strip_zeros (append_int 9 ns))"

text \<open>The offset is cut to minutes, towards zero.\<close>

definition zone_text :: "int \<Rightarrow> bytes" where
  "zone_text off =
     (if off = 0 then ''Z''
      else let z = nat \<bar>off\<bar> div 60 in
        (if off < 0 \<and> z \<noteq> 0 then CHR ''-'' else CHR ''+'') #
        append_int 2 (z div 60) @ CHR '':'' # append_int 2 (z mod 60))"

definition clock_text :: "nat \<Rightarrow> bytes" where
  "clock_text s =
     append_int 2 (s div 3600) @ CHR '':'' # append_int 2 (s div 60 mod 60) @ CHR '':'' #
     append_int 2 (s mod 60)"

definition format_time :: "Time \<Rightarrow> bytes" where
  "format_time t =
     (let local = tmSec t + tmOffset t; (y, m, d) = civil (local div 86400) in
      append_int 4 (nat y) @ CHR ''-'' # append_int 2 m @ CHR ''-'' # append_int 2 d @
      CHR ''T'' # clock_text (nat (local mod 86400)) @ fraction_text (nat (tmNsec t)) @
      zone_text (tmOffset t))"

text \<open>What the strict form refuses.\<close>

definition time_printable :: "Time \<Rightarrow> bool" where
  "time_printable t \<longleftrightarrow>
     (let y = civil_year ((tmSec t + tmOffset t) div 86400) in 0 \<le> y \<and> y \<le> 9999) \<and>
     \<bar>tmOffset t\<bar> div 3600 < 24"

definition marshal_time :: "Time \<Rightarrow> bytes option" where
  "marshal_time t =
     (if time_printable t then Some (CHR 0x22 # format_time t @ [CHR 0x22]) else None)"

subsection \<open>Reading it back\<close>

lemma two_digits:
  assumes "n < 100"
  shows "getnum b (append_int 2 n @ r) = Some (n, r)"
proof -
  have "length (append_int 2 n) = 2" using append_int_digits(3) [of 2 n] assms by simp
  then obtain c1 c2 where c: "append_int 2 n = [c1, c2]"
    by (auto simp: length_Suc_conv numeral_2_eq_2)
  moreover have "int (10 * digit_val c1 + digit_val c2) = int n"
    using append_int_digits(2) [of 2 n] unfolding c by (simp add: dec_digits_def)
  moreover have "is_digit c1" "is_digit c2" using append_int_digits(1) [of 2 n] unfolding c by simp_all
  ultimately show ?thesis by (simp add: getnum_def)
qed

lemma four_digits: "n < 10000 \<Longrightarrow> get_year (append_int 4 n @ r) = Some (int n, r)"
  using append_int_digits [of 4 n] by (simp add: get_year_def)

lemma expect_Cons [simp]: "expect c (c # r) = Some r"
  by (simp add: expect_def)

lemma zone_no_digit: "zone_text off = c # u \<Longrightarrow> \<not> is_digit c \<and> c \<noteq> CHR ''.'' \<and> c \<noteq> CHR '',''"
  by (auto simp: zone_text_def is_digit_def Let_def split: if_splits)

lemma zone_nonempty: "zone_text off \<noteq> []"
  by (auto simp: zone_text_def Let_def)

lemma get_fraction_text:
  assumes "ns < 1000000000"
  shows "get_fraction (fraction_text ns @ zone_text off) = (int ns, zone_text off)"
proof -
  obtain z u where z: "zone_text off = z # u" using zone_nonempty [of off] by (cases "zone_text off") auto
  note nd = zone_no_digit [OF z]
  show ?thesis
  proof (cases "ns = 0")
    case True
    with z nd show ?thesis by (cases u) (auto simp: fraction_text_def get_fraction_def)
  next
    case False
    let ?ds = "strip_zeros (append_int 9 ns)"
    have a: "length (append_int 9 ns) = 9" "dec_digits (append_int 9 ns) = int ns"
      using append_int_digits(2,3) [of 9 ns] assms by simp_all
    have "?ds \<noteq> []" using strip_zeros_Nil [of "append_int 9 ns"] a(2) False by auto
    moreover have dg: "list_all is_digit ?ds"
      by (rule strip_zeros_digits [OF append_int_digits(1)])
    ultimately obtain d ds where d: "?ds = d # ds" "is_digit d" by (cases ?ds) auto
    have "length ?ds \<le> length (append_int 9 ns)"
      using length_dropWhile_le [of _ "rev (append_int 9 ns)"] by (simp add: strip_zeros_def)
    with a(1) have l: "length ?ds \<le> 9" by simp
    have t: "takeWhile is_digit (?ds @ zone_text off) = ?ds" "dropWhile is_digit (?ds @ zone_text off) = zone_text off"
      using scan_digits_all [OF dg, of "zone_text off"] nd z by (simp_all add: scan_digits_def)
    have "dec_digits ?ds * 10 ^ (9 - length ?ds) = int ns"
      using dec_digits_strip(1) [of "append_int 9 ns"] a by simp
    with t l d False show ?thesis
      by (simp add: fraction_text_def get_fraction_def Let_def)
  qed
qed

definition whole_minutes :: "Time \<Rightarrow> bool" where
  "whole_minutes t \<longleftrightarrow> 60 dvd tmOffset t"

lemma get_zone_parts:
  "a < 24 \<Longrightarrow> b < 60 \<Longrightarrow> get_zone (CHR ''+'' # append_int 2 a @ CHR '':'' # append_int 2 b) = Some (int (a * 60 + b) * 60, [])"
  "a < 24 \<Longrightarrow> b < 60 \<Longrightarrow> get_zone (CHR ''-'' # append_int 2 a @ CHR '':'' # append_int 2 b) = Some (- int (a * 60 + b) * 60, [])"
  using two_digits [of b True "[]"] by (simp_all add: get_zone_def two_digits)

lemma get_zone_text:
  assumes "60 dvd off" "\<bar>off\<bar> div 3600 < 24"
  shows "get_zone (zone_text off) = Some (off, [])"
proof (cases "off = 0")
  case False
  let ?z = "nat \<bar>off\<bar> div 60"
  obtain k where k: "off = 60 * k" using assms(1) by (elim dvdE)
  then have z: "?z = nat \<bar>k\<bar>" by (simp add: abs_mult nat_mult_distrib)
  have "\<bar>k\<bar> div 60 < 24"
    using assms(2) unfolding k by (simp add: abs_mult)
  then have h: "?z div 60 < 24" unfolding z by linarith
  have m: "?z mod 60 < 60" by simp
  have e: "int ((?z div 60) * 60 + ?z mod 60) * 60 = \<bar>off\<bar>"
    unfolding z by (simp add: k abs_mult)
  from k False have nz: "?z \<noteq> 0" unfolding z by simp
  note parts = get_zone_parts [OF h m, unfolded minus_mult_left [symmetric] e]
  show ?thesis
  proof (cases "off < 0")
    case True
    with nz have "zone_text off = CHR ''-'' # append_int 2 (?z div 60) @ CHR '':'' # append_int 2 (?z mod 60)"
      by (simp only: zone_text_def Let_def) simp
    with parts(2) True show ?thesis by (simp only:) simp
  next
    case neg: False
    with False have "zone_text off = CHR ''+'' # append_int 2 (?z div 60) @ CHR '':'' # append_int 2 (?z mod 60)"
      by (simp only: zone_text_def Let_def) simp
    with parts(1) neg show ?thesis by (simp only:) simp
  qed
qed (simp add: zone_text_def get_zone_def)

lemma days_in_small: "days_in y m < 100"
  by (simp add: days_in_def)

lemma parse_time_parts:
  assumes "0 \<le> y" "y \<le> 9999" "1 \<le> m" "m \<le> 12" "1 \<le> d" "d \<le> days_in y m" "h < 24" "mi < 60" "se < 60"
    and f: "get_fraction r = (ns, r')" and z: "get_zone r' = Some (off, [])"
  shows "parse_time (append_int 4 (nat y) @ CHR ''-'' # append_int 2 m @ CHR ''-'' # append_int 2 d @
      CHR ''T'' # append_int 2 h @ CHR '':'' # append_int 2 mi @ CHR '':'' # append_int 2 se @ r) =
    Some \<lparr>tmSec = ((days_to y m d * 24 + int h) * 60 + int mi) * 60 + int se - off, tmNsec = ns, tmOffset = off\<rparr>"
proof -
  have d: "d < 100" using assms(6) days_in_small [of y m] by simp
  have "get_year (append_int 4 (nat y) @ r) = Some (y, r)" for r
    using four_digits [of "nat y" r] assms(1,2) by simp
  then show ?thesis
    using assms d by (simp add: parse_time_def two_digits)
qed

lemma clock_sum: "0 \<le> s \<Longrightarrow> s < 86400 \<Longrightarrow>
  nat s div 3600 < 24 \<and> (int (nat s div 3600) * 60 + int (nat s div 60 mod 60)) * 60 + int (nat s mod 60) = s"
proof -
  assume s: "0 \<le> s" "s < 86400"
  define n where "n = nat s"
  have "n div 3600 = n div 60 div 60" by (simp add: div_mult2_eq)
  moreover have "n div 60 div 60 * 60 + n div 60 mod 60 = n div 60" "n div 60 * 60 + n mod 60 = n" by simp_all
  ultimately have "(n div 3600 * 60 + n div 60 mod 60) * 60 + n mod 60 = n" by simp
  then have "(int (n div 3600) * 60 + int (n div 60 mod 60)) * 60 + int (n mod 60) = int n"
    by (metis of_nat_add of_nat_mult of_nat_numeral)
  moreover have "n < 86400" "int n = s" using s by (simp_all add: n_def)
  ultimately show ?thesis unfolding n_def [symmetric] by simp
qed

text \<open>A time that can be printed, shown in a zone of whole minutes, is read back as it was.\<close>

lemma parse_format_time:
  assumes "time_printable t" "whole_minutes t" "0 \<le> tmNsec t" "tmNsec t < 1000000000"
  shows "parse_time (format_time t) = Some t"
proof -
  let ?l = "tmSec t + tmOffset t"
  obtain y m d where c: "civil (?l div 86400) = (y, m, d)" by (metis prod_cases3)
  note cs = civil_spec [OF c]
  have y: "0 \<le> y" "y \<le> 9999" "\<bar>tmOffset t\<bar> div 3600 < 24"
    using assms(1) cs(6) by (simp_all add: time_printable_def Let_def)
  define s where "s = ?l mod 86400"
  have s: "0 \<le> s" "s < 86400" "?l = ?l div 86400 * 86400 + s" by (simp_all add: s_def)
  note cl = clock_sum [OF s(1,2)]
  have sec: "((?l div 86400 * 24 + int (nat s div 3600)) * 60 + int (nat s div 60 mod 60)) * 60 +
      int (nat s mod 60) - tmOffset t = tmSec t"
    using cl s(3) by (simp add: algebra_simps)
  have z: "get_zone (zone_text (tmOffset t)) = Some (tmOffset t, [])"
    by (rule get_zone_text) (use assms(2) y(3) in \<open>simp_all add: whole_minutes_def\<close>)
  have f: "get_fraction (fraction_text (nat (tmNsec t)) @ zone_text (tmOffset t)) =
      (tmNsec t, zone_text (tmOffset t))"
    using get_fraction_text [of "nat (tmNsec t)"] assms(3,4) by simp
  have ft: "format_time t = append_int 4 (nat y) @ CHR ''-'' # append_int 2 m @ CHR ''-'' # append_int 2 d @
      CHR ''T'' # append_int 2 (nat s div 3600) @ CHR '':'' # append_int 2 (nat s div 60 mod 60) @ CHR '':'' #
      append_int 2 (nat s mod 60) @ fraction_text (nat (tmNsec t)) @ zone_text (tmOffset t)"
    by (simp add: format_time_def clock_text_def Let_def s_def c)
  have "parse_time (format_time t) = Some \<lparr>tmSec = ((days_to y m d * 24 + int (nat s div 3600)) * 60 +
      int (nat s div 60 mod 60)) * 60 + int (nat s mod 60) - tmOffset t,
      tmNsec = tmNsec t, tmOffset = tmOffset t\<rparr>"
    unfolding ft
    by (rule parse_time_parts [OF y(1,2) cs(2-5) _ _ _ f z]) (use cl in simp_all)
  then show ?thesis by (simp only: cs(1) sec) simp
qed

lemma dec_marshal_time:
  assumes "marshal_time t = Some b" "whole_minutes t" "0 \<le> tmNsec t" "tmNsec t < 1000000000"
  shows "dec_time b v x = Some t"
proof -
  from assms(1) have b: "b = CHR 0x22 # format_time t @ [CHR 0x22]" and p: "time_printable t"
    by (auto simp: marshal_time_def split: if_splits)
  show ?thesis
    using parse_format_time [OF p assms(2-4)] by (simp add: dec_time_def b)
qed

end
