(* ===== verification/FloatText.thy ===== *)
theory FloatText
  imports NumberText
begin

text \<open>
  A \<open>float64\<close> as \<open>encoding/json\<close> writes it: the shortest decimal that rounds back, in exponent
  form when it is very small or very large. Seventeen digits always round back, so the search
  for the shortest decimal never fails, and what is written is read as the same number.
\<close>

subsection \<open>Powers and logarithms\<close>

lemma pow_rat_powi: "2 \<le> b \<Longrightarrow> pow_rat b e = of_int b powi e"
  by (simp add: pow_rat_def power_int_def power_one_over inverse_eq_divide)

lemma pow_rat_pos: "2 \<le> b \<Longrightarrow> 0 < pow_rat b e"
  by (simp add: pow_rat_powi)

lemma pow_rat_add: "2 \<le> b \<Longrightarrow> pow_rat b (d + e) = pow_rat b d * pow_rat b e"
  by (simp add: pow_rat_powi power_int_add)

lemma pow_rat_mono: "2 \<le> b \<Longrightarrow> d \<le> e \<Longrightarrow> pow_rat b d \<le> pow_rat b e"
  by (simp add: pow_rat_powi power_int_increasing)

lemma pow_rat_less: "2 \<le> b \<Longrightarrow> pow_rat b d < pow_rat b e \<Longrightarrow> d < e"
  using pow_rat_mono [of b e d] by (meson leD not_le_imp_less)

lemma pow_rat_nat: "pow_rat b (int n) = of_int b ^ n"
  by (simp add: pow_rat_def)

lemma pow_rat_neg: "2 \<le> b \<Longrightarrow> pow_rat b (- e) = 1 / pow_rat b e"
  by (simp add: pow_rat_powi power_int_minus inverse_eq_divide)

lemma digit_count_spec:
  "2 \<le> b \<Longrightarrow> 1 \<le> n \<Longrightarrow>
   1 \<le> digit_count b n \<and> b ^ (digit_count b n - 1) \<le> n \<and> n < b ^ digit_count b n"
proof (induction b n rule: digit_count.induct)
  case (1 b n)
  show ?case
  proof (cases "n < b")
    case True
    with 1 show ?thesis by (simp add: digit_count.simps [of b n])
  next
    case False
    have b: "0 < b" using 1 by simp
    have q: "1 \<le> n div b" using False b by (simp add: pos_imp_zdiv_pos_iff int_one_le_iff_zero_less)
    have IH: "1 \<le> digit_count b (n div b)" "b ^ (digit_count b (n div b) - 1) \<le> n div b"
      "n div b < b ^ digit_count b (n div b)"
      using 1(1) [OF _ 1(2) q] False 1(2) by auto
    have c: "digit_count b n = Suc (digit_count b (n div b))" using False 1 by (simp add: digit_count.simps [of b n])
    have n: "b * (n div b) \<le> n" "n < b * (n div b + 1)"
      using pos_mod_sign [OF b, of n] pos_mod_bound [OF b, of n] mult_div_mod_eq [of b n]
      unfolding distrib_left by linarith+
    obtain j where j: "digit_count b (n div b) = Suc j" using IH(1) by (cases "digit_count b (n div b)") auto
    have "b * b ^ j \<le> b * (n div b)" using IH(2) b j by (intro mult_left_mono) simp_all
    moreover have "b * (n div b + 1) \<le> b * b ^ Suc j" using IH(3) b j by (intro mult_left_mono) simp_all
    ultimately have "b * b ^ j \<le> n" "n < b * b ^ Suc j" using n by linarith+
    then show ?thesis by (simp add: c j)
  qed
qed

lemma floor_log_spec:
  assumes "2 \<le> b" "0 < x"
  shows "pow_rat b (floor_log_rat b x) \<le> x" "x < pow_rat b (floor_log_rat b x + 1)"
proof -
  obtain n d where nd: "quotient_of x = (n, d)" by fastforce
  have x: "x = of_int n / of_int d" by (rule quotient_of_div [OF nd])
  have d: "0 < d" by (rule quotient_of_denom_pos [OF nd])
  with assms(2) x have n: "0 < n" by (simp add: zero_less_divide_iff)
  let ?p = "digit_count b n" and ?q = "digit_count b d"
  note N = digit_count_spec [OF assms(1), of n] and D = digit_count_spec [OF assms(1), of d]
  let ?k = "int ?p - int ?q"
  have bn: "(of_int (b ^ (?p - 1)) :: rat) \<le> of_int n" "(of_int n :: rat) < of_int (b ^ ?p)"
    "(of_int (b ^ (?q - 1)) :: rat) \<le> of_int d" "(of_int d :: rat) < of_int (b ^ ?q)"
    using N D n d by (simp_all only: of_int_le_iff of_int_less_iff)
  have e: "pow_rat b (int j) = of_int (b ^ j)" for j by (simp add: pow_rat_nat)
  have up: "x < pow_rat b (?k + 1)"
  proof -
    have "pow_rat b (?k + 1) * pow_rat b (int (?q - 1)) = pow_rat b (int ?p)"
      using D d by (simp add: pow_rat_add [OF assms(1), symmetric] of_nat_diff)
    moreover have "pow_rat b (?k + 1) * pow_rat b (int (?q - 1)) \<le> pow_rat b (?k + 1) * of_int d"
      using bn(3) e pow_rat_pos [OF assms(1), of "?k + 1"] by (intro mult_left_mono) simp_all
    ultimately have "of_int n < pow_rat b (?k + 1) * of_int d"
      using bn(2) unfolding e [symmetric] by simp
    then show ?thesis using d by (simp add: x divide_less_eq)
  qed
  have lo: "pow_rat b (?k - 1) \<le> x"
  proof -
    have "pow_rat b (?k - 1) * pow_rat b (int ?q) = pow_rat b (int (?p - 1))"
      using N n by (simp add: pow_rat_add [OF assms(1), symmetric] of_nat_diff)
    moreover have "pow_rat b (?k - 1) * of_int d \<le> pow_rat b (?k - 1) * pow_rat b (int ?q)"
      using bn(4) e pow_rat_pos [OF assms(1), of "?k - 1"] by (intro mult_left_mono) simp_all
    ultimately have "pow_rat b (?k - 1) * of_int d \<le> of_int n"
      using bn(1) unfolding e [symmetric] by simp
    then show ?thesis using d by (simp add: x le_divide_eq)
  qed
  show "pow_rat b (floor_log_rat b x) \<le> x" "x < pow_rat b (floor_log_rat b x + 1)"
    using up lo by (auto simp: floor_log_rat_def nd Let_def)
qed

lemma floor_log_le: "2 \<le> b \<Longrightarrow> 0 < x \<Longrightarrow> x < pow_rat b (e + 1) \<Longrightarrow> floor_log_rat b x \<le> e"
  using floor_log_spec(1) [of b x] pow_rat_less [of b "floor_log_rat b x" "e + 1"] by simp

lemma floor_log_ge: "2 \<le> b \<Longrightarrow> 0 < x \<Longrightarrow> pow_rat b e \<le> x \<Longrightarrow> e \<le> floor_log_rat b x"
  using floor_log_spec(2) [of b x] pow_rat_less [of b e "floor_log_rat b x + 1"] by simp

subsection \<open>Rounding to the nearest\<close>

lemma round_half_even_near:
  assumes "\<bar>q - of_int m\<bar> < 1 / 2"
  shows "round_half_even q = m"
proof (cases "of_int m \<le> q")
  case True
  then have "\<lfloor>q\<rfloor> = m" using assms by (intro floor_unique) simp_all
  moreover have "q - of_int m < 1 / 2" using assms by linarith
  ultimately show ?thesis by (simp add: round_half_even_def Let_def)
next
  case False
  have l: "1 / 2 < q - (of_int m - 1)" using assms by linarith
  with False have "\<lfloor>q\<rfloor> = m - 1" by (intro floor_unique) simp_all
  with l show ?thesis by (simp add: round_half_even_def Let_def)
qed

text \<open>The unit in the last place, and the significand in it.\<close>

definition ulp_exp :: "rat \<Rightarrow> int" where
  "ulp_exp x = max (floor_log_rat 2 x - 52) (- 1074)"

lemma round_pos_exact:
  assumes "round_pos x = Fin x" "0 < x"
  obtains m where "x = of_int m * pow_rat 2 (ulp_exp x)" "0 < m" "m < 2 ^ 53" "x < pow_rat 2 1024"
    "ulp_exp x = - 1074 \<or> 2 ^ 52 \<le> m"
proof -
  let ?u = "pow_rat 2 (ulp_exp x)"
  define m where "m = round_half_even (x / ?u)"
  have x: "x = of_int m * ?u" "x < pow_rat 2 1024"
    using assms(1) by (auto simp: round_pos_def ulp_exp_def Let_def m_def split: if_splits)
  have u: "0 < ?u" by (simp add: pow_rat_pos)
  have m: "0 < m" using x(1) assms(2) u zero_less_mult_pos2 [of "of_int m" ?u] by simp
  have "x < pow_rat 2 (floor_log_rat 2 x + 1)" by (rule floor_log_spec) (use assms in simp_all)
  also have "\<dots> \<le> pow_rat 2 (53 + ulp_exp x)" by (rule pow_rat_mono) (simp_all add: ulp_exp_def)
  also have "\<dots> = 2 ^ 53 * ?u" using pow_rat_nat [of 2 53] by (simp add: pow_rat_add)
  finally have "of_int m * ?u < 2 ^ 53 * ?u" using x(1) by simp
  then have "(of_int m :: rat) < of_int (2 ^ 53)" using u by simp
  then have lt: "m < 2 ^ 53" by (simp only: of_int_less_iff)
  have "2 ^ 52 \<le> m" if "ulp_exp x \<noteq> - 1074"
  proof -
    have "2 ^ 52 * ?u = pow_rat 2 (52 + ulp_exp x)" using pow_rat_nat [of 2 52] by (simp add: pow_rat_add)
    also have "52 + ulp_exp x = floor_log_rat 2 x" using that by (simp add: ulp_exp_def max_def split: if_splits)
    also have "pow_rat 2 (floor_log_rat 2 x) \<le> x" by (rule floor_log_spec) (use assms in simp_all)
    finally have "2 ^ 52 * ?u \<le> of_int m * ?u" using x(1) by simp
    then have "(of_int (2 ^ 52) :: rat) \<le> of_int m" using u by simp
    then show ?thesis by (simp only: of_int_le_iff)
  qed
  with that x m lt show ?thesis by blast
qed

lemma round_posI:
  assumes "ulp_exp y = e" "\<bar>y / pow_rat 2 e - of_int m\<bar> < 1 / 2" "of_int m * pow_rat 2 e < pow_rat 2 1024"
  shows "round_pos y = Fin (of_int m * pow_rat 2 e)"
proof -
  have "round_half_even (y / pow_rat 2 e) = m" by (rule round_half_even_near [OF assms(2)])
  then show ?thesis using assms(1,3) by (simp add: round_pos_def ulp_exp_def Let_def)
qed

text \<open>A number within half of seventeen digits' precision of a \<open>float64\<close> rounds to it.\<close>

lemma round_pos_near:
  assumes x: "round_pos x = Fin x" "0 < x" and near: "\<bar>y - x\<bar> * (2 * 10 ^ 16) \<le> x"
  shows "round_pos y = Fin x"
proof -
  from x obtain m where m: "x = of_int m * pow_rat 2 (ulp_exp x)" "0 < m" "m < 2 ^ 53"
    "x < pow_rat 2 1024" "ulp_exp x = - 1074 \<or> 2 ^ 52 \<le> m" by (rule round_pos_exact)
  define e where "e = ulp_exp x"
  define u where "u = pow_rat 2 e"
  define z where "z = y / u"
  have u: "0 < u" by (simp add: u_def pow_rat_pos)
  have xu: "x = of_int m * u" using m(1) by (simp add: u_def e_def)
  have y: "y = z * u" using u by (simp add: z_def)
  have "\<bar>z - of_int m\<bar> * u = \<bar>y - x\<bar>"
    using u unfolding xu y left_diff_distrib [symmetric] by (simp add: abs_mult)
  then have "(\<bar>z - of_int m\<bar> * (2 * 10 ^ 16)) * u \<le> of_int m * u"
    using near xu by (simp add: algebra_simps)
  then have dz: "\<bar>z - of_int m\<bar> * (2 * 10 ^ 16) \<le> of_int m" using u by simp
  have ms: "(of_int m :: rat) \<le> 2 ^ 53 - 1" "1 \<le> (of_int m :: rat)"
  proof -
    have "m \<le> 2 ^ 53 - 1" "1 \<le> m" using m(2,3) by simp_all
    then have "of_int m \<le> (of_int (2 ^ 53 - 1) :: rat)" "of_int 1 \<le> (of_int m :: rat)"
      by (simp_all only: of_int_le_iff)
    then show "(of_int m :: rat) \<le> 2 ^ 53 - 1" "1 \<le> (of_int m :: rat)" by simp_all
  qed
  have half: "\<bar>z - of_int m\<bar> < 1 / 2" using dz ms by simp
  have zpos: "0 < z" using half ms by linarith
  then have ypos: "0 < y" using u y by simp
  have pw: "pow_rat 2 (int k + e) = 2 ^ k * u" for k by (simp add: pow_rat_add u_def pow_rat_nat)
  have "z < 2 ^ 53" using half ms by linarith
  then have "y < pow_rat 2 ((52 + e) + 1)" using pw [of 53] u by (simp add: y add.commute)
  then have top: "floor_log_rat 2 y \<le> 52 + e" by (intro floor_log_le [OF _ ypos]) simp_all
  have same: ?thesis if "ulp_exp y = e"
    using round_posI [OF that, of m] half m(4) xu by (simp add: z_def u_def)
  show ?thesis
  proof (cases "e = - 1074 \<or> 2 ^ 52 \<le> z")
    case True
    have "ulp_exp y = e"
    proof (cases "e = - 1074")
      case False
      with True have "2 ^ 52 * u \<le> z * u" using u by simp
      then have "52 + e \<le> floor_log_rat 2 y"
        using pw [of 52] by (intro floor_log_ge [OF _ ypos]) (simp_all add: y)
      moreover have "- 1074 \<le> e" by (simp add: e_def ulp_exp_def)
      ultimately show ?thesis using top by (simp add: ulp_exp_def)
    qed (use top in \<open>simp add: ulp_exp_def\<close>)
    then show ?thesis by (rule same)
  next
    case False
    then have e: "- 1074 < e" "2 ^ 52 \<le> m" using m(5) by (auto simp: e_def ulp_exp_def)
    have "(of_int m :: rat) < 2 ^ 52 + 1" using half False by linarith
    also have "\<dots> = of_int (2 ^ 52 + 1)" by simp
    finally have "m < 2 ^ 52 + 1" by (simp only: of_int_less_iff)
    then have m52: "m = 2 ^ 52" using e(2) by simp
    have quarter: "\<bar>z - 2 ^ 52\<bar> < 1 / 4" using dz by (simp add: m52)
    have u2: "u = 2 * pow_rat 2 (e - 1)" using pow_rat_add [of 2 1 "e - 1"] by (simp add: u_def pow_rat_def)
    have "2 ^ 51 \<le> z" using quarter unfolding abs_less_iff by simp
    then have "2 ^ 51 * u \<le> z * u" using u by (intro mult_right_mono) simp_all
    then have "51 + e \<le> floor_log_rat 2 y"
      using pw [of 51] by (intro floor_log_ge [OF _ ypos]) (simp_all add: y)
    moreover have "y < pow_rat 2 ((51 + e) + 1)" using pw [of 52] u False by (simp add: y add.commute)
    then have "floor_log_rat 2 y \<le> 51 + e" by (intro floor_log_le [OF _ ypos]) simp_all
    ultimately have ey: "ulp_exp y = e - 1" using e(1) by (simp add: ulp_exp_def)
    have "y / pow_rat 2 (e - 1) = 2 * z" using pow_rat_pos [of 2 "e - 1"] by (simp add: y u2)
    then have "\<bar>y / pow_rat 2 (e - 1) - of_int (2 ^ 53)\<bar> < 1 / 2"
      using quarter unfolding abs_less_iff by simp
    moreover have "of_int (2 ^ 53) * pow_rat 2 (e - 1) = x" by (simp add: xu m52 u2)
    ultimately show ?thesis using round_posI [OF ey, of "2 ^ 53"] m(4) by simp
  qed
qed

subsection \<open>The shortest decimal\<close>

lemma shortest_at_sound:
  assumes "shortest_at x k = Some (c, p)" "0 < x" "1 \<le> k"
  shows "round_pos (of_int c / pow_rat 10 p) = Fin x" "0 < c"
proof -
  define q where "q = x * pow_rat 10 p"
  from assms(1) have p: "p = k - 1 - floor_log_rat 10 x"
    by (auto simp: shortest_at_def Let_def split: if_splits)
  have "1 \<le> pow_rat 10 (k - 1)" using pow_rat_mono [of 10 0 "k - 1"] assms(3) by (simp add: pow_rat_def)
  also have "\<dots> = pow_rat 10 (floor_log_rat 10 x) * pow_rat 10 p" by (simp add: pow_rat_add [symmetric] p)
  also have "\<dots> \<le> q"
    unfolding q_def using floor_log_spec(1) [of 10 x] assms(2) pow_rat_pos [of 10 p]
    by (intro mult_right_mono) simp_all
  finally have "1 \<le> \<lfloor>q\<rfloor>" by (simp add: le_floor_iff)
  with assms(1) show "round_pos (of_int c / pow_rat 10 p) = Fin x" "0 < c"
    unfolding p q_def by (auto simp: shortest_at_def Let_def split: if_splits)
qed

lemma shortest_at_17:
  assumes "round_pos x = Fin x" "0 < x"
  shows "shortest_at x 17 \<noteq> None"
proof -
  define p where "p = 16 - floor_log_rat 10 x"
  define q where "q = x * pow_rat 10 p"
  define c where "c = (if q - of_int \<lfloor>q\<rfloor> \<le> of_int (\<lfloor>q\<rfloor> + 1) - q then \<lfloor>q\<rfloor> else \<lfloor>q\<rfloor> + 1)"
  have P: "0 < pow_rat 10 p" by (simp add: pow_rat_pos)
  have "10 ^ 16 = pow_rat 10 (floor_log_rat 10 x) * pow_rat 10 p"
    using pow_rat_nat [of 10 16] by (simp add: pow_rat_add [symmetric] p_def)
  also have "\<dots> \<le> q"
    unfolding q_def using floor_log_spec(1) [of 10 x] assms(2) P by (intro mult_right_mono) simp_all
  finally have q: "10 ^ 16 \<le> q" .
  have c: "\<bar>of_int c - q\<bar> * 2 \<le> 1"
  proof -
    have f: "of_int \<lfloor>q\<rfloor> \<le> q" "q < of_int \<lfloor>q\<rfloor> + 1" by linarith+
    have "c = \<lfloor>q\<rfloor> \<and> q - of_int \<lfloor>q\<rfloor> \<le> of_int \<lfloor>q\<rfloor> + 1 - q \<or>
        c = \<lfloor>q\<rfloor> + 1 \<and> \<not> q - of_int \<lfloor>q\<rfloor> \<le> of_int \<lfloor>q\<rfloor> + 1 - q" by (simp add: c_def)
    then show ?thesis
    proof
      assume a: "c = \<lfloor>q\<rfloor> \<and> q - of_int \<lfloor>q\<rfloor> \<le> of_int \<lfloor>q\<rfloor> + 1 - q"
      then have "\<bar>of_int c - q\<bar> = q - of_int \<lfloor>q\<rfloor>" using f(1) by simp
      with conjunct2 [OF a] show ?thesis by simp
    next
      assume "c = \<lfloor>q\<rfloor> + 1 \<and> \<not> q - of_int \<lfloor>q\<rfloor> \<le> of_int \<lfloor>q\<rfloor> + 1 - q"
      then have "of_int c = of_int \<lfloor>q\<rfloor> + (1 :: rat)" "\<not> q - of_int \<lfloor>q\<rfloor> \<le> of_int \<lfloor>q\<rfloor> + 1 - q" by simp_all
      moreover from this(1) have "\<bar>of_int c - q\<bar> = of_int c - q" using f(2) by simp
      ultimately show ?thesis by simp
    qed
  qed
  have "(of_int c / pow_rat 10 p - x) * pow_rat 10 p = of_int c - q"
    using P by (simp add: left_diff_distrib q_def)
  then have "\<bar>of_int c / pow_rat 10 p - x\<bar> * pow_rat 10 p = \<bar>of_int c - q\<bar>"
    using P by (metis abs_mult abs_of_pos)
  then have "(\<bar>of_int c / pow_rat 10 p - x\<bar> * (2 * 10 ^ 16)) * pow_rat 10 p = \<bar>of_int c - q\<bar> * 2 * 10 ^ 16"
    by (simp add: algebra_simps)
  also have "\<dots> \<le> x * pow_rat 10 p" using c q unfolding q_def [symmetric] by simp
  finally have "\<bar>of_int c / pow_rat 10 p - x\<bar> * (2 * 10 ^ 16) \<le> x" using P by simp
  from round_pos_near [OF assms this] show ?thesis
    by (auto simp: shortest_at_def Let_def p_def q_def c_def)
qed

lemma shortest_from_finds:
  "k \<in> set ks \<Longrightarrow> shortest_at x k \<noteq> None \<Longrightarrow>
   \<exists>j\<in>set ks. shortest_at x j = Some (shortest_from x ks)"
  by (induction ks) (auto split: option.splits)

text \<open>The search over one to seventeen digits finds a decimal, and it rounds back.\<close>

lemma shortest_from_sound:
  assumes "round_pos x = Fin x" "0 < x" "shortest_from x [1 .. 17] = (c, p)"
  shows "round_pos (of_int c / pow_rat 10 p) = Fin x" "0 < c"
proof -
  from shortest_from_finds [of 17 "[1 .. 17]" x] shortest_at_17 [OF assms(1,2)] assms(3)
  obtain j where "j \<in> set [1 .. 17]" "shortest_at x j = Some (c, p)" by auto
  then show "round_pos (of_int c / pow_rat 10 p) = Fin x" "0 < c"
    using shortest_at_sound [of x j c p] assms(2) by simp_all
qed

subsection \<open>Number literals from their parts\<close>

definition frac_part :: "bytes \<Rightarrow> bytes" where
  "frac_part f = (if f = [] then [] else CHR ''.'' # f)"

definition exp_part :: "char \<Rightarrow> bytes \<Rightarrow> bytes" where
  "exp_part c x = (if x = [] then [] else CHR ''e'' # c # x)"

lemma scan_frac_part:
  assumes "list_all is_digit f" "r = [] \<or> \<not> is_digit (hd r) \<and> hd r \<noteq> CHR ''.''"
  shows "scan_frac (frac_part f @ r) = Some (frac_part f, r)"
proof (cases "f = []")
  case True
  with assms(2) show ?thesis by (cases r) (auto simp: scan_frac_def frac_part_def)
next
  case False
  from assms(2) have "r = [] \<or> \<not> is_digit (hd r)" by auto
  from scan_digits_all [OF assms(1) this] False show ?thesis
    by (simp add: scan_frac_def frac_part_def)
qed

lemma digits_no_sign: "list_all is_digit x \<Longrightarrow> x \<noteq> [] \<Longrightarrow> c \<in> set ''+-'' \<Longrightarrow> exp_sign (c # x) = [c]"
  by (cases x) (auto simp: exp_sign_def)

lemma scan_exp_part:
  assumes "list_all is_digit x" "c \<in> set ''+-''"
  shows "scan_exp (exp_part c x) = Some (exp_part c x, [])"
  using assms scan_digits_all [OF assms(1), of "[]"] digits_no_sign [OF assms(1) _ assms(2)]
  by (auto simp: scan_exp_def exp_part_def)

lemma exp_part_end: "exp_part c x = [] \<or> \<not> is_digit (hd (exp_part c x)) \<and> hd (exp_part c x) \<noteq> CHR ''.''"
  by (simp add: exp_part_def is_digit_def)

lemma frac_exp_end: "frac_part f @ exp_part c x = [] \<or> \<not> is_digit (hd (frac_part f @ exp_part c x))"
  by (simp add: frac_part_def exp_part_def is_digit_def)

lemma number_parts:
  assumes "sg \<in> {[], ''-''}" "list_all is_digit i" "i \<noteq> []" "hd i \<noteq> CHR ''0'' \<or> i = ''0''"
    and f: "list_all is_digit f" and x: "list_all is_digit x" "c \<in> set ''+-''"
  shows "scan_number (sg @ i @ frac_part f @ exp_part c x) = Some (sg @ i @ frac_part f @ exp_part c x, [])"
    and "decimal_value (sg @ i @ frac_part f @ exp_part c x) =
      (if sg = [] then 1 else - 1) * (of_int (dec_digits (i @ f)) *
        pow_rat 10 ((if c = CHR ''-'' then - dec_digits x else dec_digits x) - int (length f)))"
proof -
  let ?r = "frac_part f @ exp_part c x"
  have sg: "scan_sign (sg @ i @ ?r) = (sg, i @ ?r)"
  proof (cases "sg = []")
    case True
    with scan_sign_digits [OF assms(2,3), of ?r] show ?thesis by simp
  next
    case False
    with assms(1) show ?thesis by (simp add: scan_sign_def)
  qed
  have i: "scan_int (i @ ?r) = Some (i, ?r)" by (rule scan_int_digits [OF assms(2-4) frac_exp_end])
  have fr: "scan_frac ?r = Some (frac_part f, exp_part c x)" by (rule scan_frac_part [OF f exp_part_end])
  show "scan_number (sg @ i @ frac_part f @ exp_part c x) = Some (sg @ i @ frac_part f @ exp_part c x, [])"
    using scan_exp_part [OF x] by (simp add: scan_number_def sg i fr)
  have d: "scan_digits (i @ ?r) = (i, ?r)" by (rule scan_digits_all [OF assms(2) frac_exp_end])
  have ff: "(case ?r of c' # r \<Rightarrow> if c' = CHR ''.'' then fst (scan_digits r) else [] | [] \<Rightarrow> []) = f"
    "(case ?r of c' # r \<Rightarrow> if c' = CHR ''.'' then snd (scan_digits r) else ?r | [] \<Rightarrow> []) = exp_part c x"
    using scan_digits_all [OF f, of "exp_part c x"] exp_part_end [of c x]
    by (auto simp: frac_part_def exp_part_def)
  have e: "(case exp_part c x of [] \<Rightarrow> 0 | c' # r \<Rightarrow>
      if exp_sign r = ''-'' then - dec_digits (drop (length (exp_sign r)) r)
      else dec_digits (drop (length (exp_sign r)) r)) = (if c = CHR ''-'' then - dec_digits x else dec_digits x)"
  proof (cases "x = []")
    case False
    with digits_no_sign [OF x(1) False x(2)] show ?thesis
      by (cases "c = CHR ''-''") (simp_all add: exp_part_def Let_def)
  qed (simp add: exp_part_def)
  show "decimal_value (sg @ i @ frac_part f @ exp_part c x) =
      (if sg = [] then 1 else - 1) * (of_int (dec_digits (i @ f)) *
        pow_rat 10 ((if c = CHR ''-'' then - dec_digits x else dec_digits x) - int (length f)))"
    unfolding decimal_value_def sg prod.case d Let_def ff e using assms(1) by auto
qed

subsection \<open>The text of a float\<close>

text \<open>The encoder's clean-up of \<open>e-09\<close> to \<open>e-9\<close>.\<close>

definition clean_exp :: "bytes \<Rightarrow> bytes" where
  "clean_exp b =
     (case rev b of
        d # z # m # e # r \<Rightarrow>
          if e = CHR ''e'' \<and> m = CHR ''-'' \<and> z = CHR ''0'' then rev (d # m # e # r) else b
      | _ \<Rightarrow> b)"

definition json_float_pos :: "rat \<Rightarrow> bytes" where
  "json_float_pos x =
     (let (ds, dp) = shortest_digits x in
      if f64_less (Fin x) (f64_of_rat (1 / 10 ^ 6)) \<or> \<not> f64_less (Fin x) (f64_of_rat (10 ^ 21))
      then clean_exp (format_e ds dp) else format_f ds dp)"

text \<open>Infinities and NaN are an error.\<close>

fun json_float :: "float64 \<Rightarrow> bytes option" where
  "json_float (Fin x) =
     Some (if x = 0 then ''0'' else if x < 0 then CHR ''-'' # json_float_pos (- x) else json_float_pos x)"
| "json_float _ = None"

lemma clean_exp_digits:
  assumes "list_all is_digit x" "x \<noteq> []"
  shows "\<exists>x'. clean_exp (b @ CHR ''e'' # c # x) = b @ CHR ''e'' # c # x' \<and>
    list_all is_digit x' \<and> x' \<noteq> [] \<and> dec_digits x' = dec_digits x"
proof -
  obtain u d where u: "x = u @ [d]" using assms(2) by (cases x rule: rev_cases) auto
  have dg: "z \<noteq> CHR ''-''" "z \<noteq> CHR ''e''" if "z \<in> set x" for z
  proof -
    have "\<not> is_digit (CHR ''-'')" "\<not> is_digit (CHR ''e'')" by (simp_all add: is_digit_def)
    moreover have "is_digit z" using assms(1) that by (simp add: list_all_iff)
    ultimately show "z \<noteq> CHR ''-''" "z \<noteq> CHR ''e''" by blast+
  qed
  show ?thesis
  proof (cases "u = ''0'' \<and> c = CHR ''-''")
    case True
    then have "clean_exp (b @ CHR ''e'' # c # x) = b @ CHR ''e'' # c # [d]"
      by (simp add: clean_exp_def u)
    moreover have "dec_digits x = dec_digits [d]"
      using True by (simp add: u dec_digits_def digit_val_def byte_of_def)
    ultimately show ?thesis using assms(1) by (intro exI [of _ "[d]"]) (simp add: u list_all_append)
  next
    case False
    have "clean_exp (b @ CHR ''e'' # c # x) = b @ CHR ''e'' # c # x"
    proof (cases u rule: rev_cases)
      case Nil
      show ?thesis by (cases "rev b") (auto simp: clean_exp_def u Nil dest: dg split: list.split)
    next
      case (snoc v z)
      show ?thesis
      proof (cases v rule: rev_cases)
        case Nil
        with False snoc show ?thesis by (auto simp: clean_exp_def u)
      next
        case (snoc w y)
        then have "y \<noteq> CHR ''-''" using dg(1) [of y] \<open>u = v @ [z]\<close> u by simp
        with snoc \<open>u = v @ [z]\<close> show ?thesis
          by (cases w rule: rev_cases) (simp_all add: clean_exp_def u)
      qed
    qed
    with assms show ?thesis by blast
  qed
qed

lemma show_nat_no_zero: "0 < n \<Longrightarrow> strip_zeros (show_nat n) \<noteq> [] \<and> hd (strip_zeros (show_nat n)) \<noteq> CHR ''0''"
proof
  assume n: "0 < n"
  then show ne: "strip_zeros (show_nat n) \<noteq> []"
    using strip_zeros_Nil [of "show_nat n"] show_nat_digits [of n] by auto
  obtain k where "show_nat n = strip_zeros (show_nat n) @ zeros k"
    using dec_digits_strip(2) [of "show_nat n"] by blast
  then have "hd (show_nat n) = hd (strip_zeros (show_nat n))" using ne by (metis hd_append2)
  then show "hd (strip_zeros (show_nat n)) \<noteq> CHR ''0''" using show_nat_digits [of n] n by simp
qed

lemma zero_digit: "is_digit (CHR ''0'')" "dec_digits ''0'' = 0" "dec_digits (CHR ''0'' # ds) = dec_digits ds"
  by (simp_all add: is_digit_def dec_digits_def digit_val_def byte_of_def)

text \<open>Both formats write the digits at the decimal point they are given.\<close>

definition reads_as :: "bytes \<Rightarrow> rat \<Rightarrow> bool" where
  "reads_as b v \<longleftrightarrow>
     (\<forall>sg\<in>{[], ''-''}. scan_number (sg @ b) = Some (sg @ b, []) \<and> decimal_value (sg @ b) = (if sg = [] then v else - v))"

lemma reads_parts:
  assumes "list_all is_digit i" "i \<noteq> []" "hd i \<noteq> CHR ''0'' \<or> i = ''0''" "list_all is_digit f"
    "list_all is_digit x" "c \<in> set ''+-''"
  shows "reads_as (i @ frac_part f @ exp_part c x) (of_int (dec_digits (i @ f)) *
    pow_rat 10 ((if c = CHR ''-'' then - dec_digits x else dec_digits x) - int (length f)))"
  unfolding reads_as_def using number_parts [OF _ assms] by auto

lemma format_f_reads:
  assumes "list_all is_digit ds" "ds \<noteq> []" "hd ds \<noteq> CHR ''0''"
  shows "reads_as (format_f ds dp) (of_int (dec_digits ds) * pow_rat 10 (dp - int (length ds)))"
proof -
  have plain: "exp_part (CHR ''+'') [] = []" by (simp add: exp_part_def)
  note R = reads_parts [of _ _ "[]" "CHR ''+''", unfolded plain append_Nil2]
  consider (small) "dp \<le> 0" | (whole) "0 < dp" "int (length ds) \<le> dp"
    | (split) "0 < dp" "dp < int (length ds)" by linarith
  then show ?thesis
  proof cases
    case small
    have "dec_digits (''0'' @ zeros (nat (- dp)) @ ds) = dec_digits ds"
      by (simp add: dec_digits_append zeros_digits zero_digit)
    moreover have "format_f ds dp = ''0'' @ frac_part (zeros (nat (- dp)) @ ds)"
      using small assms(2) by (simp add: format_f_def frac_part_def)
    ultimately show ?thesis
      using R [of "''0''" "zeros (nat (- dp)) @ ds"] small assms(1)
      by (simp add: zeros_digits list_all_append zero_digit)
  next
    case whole
    then have z: "int (nat dp - length ds) = dp - int (length ds)" by linarith
    have "pow_rat 10 (dp - int (length ds)) = 10 ^ (nat dp - length ds)"
      unfolding z [symmetric] by (simp add: pow_rat_nat)
    moreover have "format_f ds dp = (ds @ zeros (nat dp - length ds)) @ frac_part []"
      using whole by (simp add: format_f_def frac_part_def)
    ultimately show ?thesis
      using R [of "ds @ zeros (nat dp - length ds)" "[]"] assms
      by (simp add: zeros_digits list_all_append dec_digits_append pow_rat_def)
  next
    case split
    then have l: "nat dp \<noteq> 0" "nat dp < length ds" by linarith+
    have t: "list_all is_digit (take (nat dp) ds)" "list_all is_digit (drop (nat dp) ds)"
      using assms(1) by (metis append_take_drop_id list_all_append)+
    have "hd (take (nat dp) ds) = hd ds" using l(1) assms(2) by (cases ds; cases "nat dp") simp_all
    moreover have "format_f ds dp = take (nat dp) ds @ frac_part (drop (nat dp) ds)"
      using split l by (simp add: format_f_def frac_part_def)
    moreover have "int (length (drop (nat dp) ds)) = int (length ds) - dp" using split l by simp
    ultimately show ?thesis
      using R [of "take (nat dp) ds" "drop (nat dp) ds"] t l assms(2,3) by simp
  qed
qed

lemma format_e_reads:
  assumes "list_all is_digit ds" "ds \<noteq> []" "hd ds \<noteq> CHR ''0''"
  shows "reads_as (clean_exp (format_e ds dp)) (of_int (dec_digits ds) * pow_rat 10 (dp - int (length ds)))"
proof -
  obtain d ds' where ds: "ds = d # ds'" using assms(2) by (cases ds) auto
  define x where "x = (let a = show_nat (nat \<bar>dp - 1\<bar>) in if length a < 2 then ''0'' @ a else a)"
  define c where "c = (if dp - 1 < 0 then CHR ''-'' else CHR ''+'')"
  have x: "list_all is_digit x" "x \<noteq> []" "dec_digits x = \<bar>dp - 1\<bar>"
    using show_nat_digits [of "nat \<bar>dp - 1\<bar>"] by (simp_all add: x_def Let_def zero_digit)
  have "format_e ds dp = (take 1 ds @ frac_part (drop 1 ds)) @ CHR ''e'' # c # x"
    by (simp add: format_e_def x_def c_def ds frac_part_def Let_def)
  moreover obtain x' where c':
    "clean_exp ((take 1 ds @ frac_part (drop 1 ds)) @ CHR ''e'' # c # x) =
      (take 1 ds @ frac_part (drop 1 ds)) @ CHR ''e'' # c # x'"
    "list_all is_digit x'" "x' \<noteq> []" "dec_digits x' = dec_digits x"
    using clean_exp_digits [OF x(1,2)] by blast
  ultimately have x': "clean_exp (format_e ds dp) = take 1 ds @ frac_part (drop 1 ds) @ exp_part c x'"
    "list_all is_digit x'" "dec_digits x' = \<bar>dp - 1\<bar>"
    using x(3) by (simp_all add: exp_part_def)
  have "(if c = CHR ''-'' then - dec_digits x' else dec_digits x') - int (length ds') = dp - int (length ds)"
    by (simp add: c_def x'(3) ds)
  moreover have "c \<in> set ''+-''" by (simp add: c_def)
  ultimately show ?thesis
    using reads_parts [of "take 1 ds" "drop 1 ds" x' c] x' assms by (simp add: ds diff_diff_eq)
qed

lemma json_float_pos_reads:
  assumes "round_pos x = Fin x" "0 < x"
  shows "\<exists>v. reads_as (json_float_pos x) v \<and> 0 < v \<and> round_pos v = Fin x"
proof -
  obtain c p where cp: "shortest_from x [1 .. 17] = (c, p)" by fastforce
  note c = shortest_from_sound [OF assms cp]
  let ?a = "show_nat (nat c)"
  define ds dp where "ds = strip_zeros ?a" and "dp = int (length ?a) - p"
  have sd: "shortest_digits x = (ds, dp)" by (simp add: shortest_digits_def cp ds_def dp_def Let_def)
  have ds: "list_all is_digit ds" "ds \<noteq> []" "hd ds \<noteq> CHR ''0''"
    using strip_zeros_digits [of ?a] show_nat_digits [of "nat c"] show_nat_no_zero [of "nat c"] c(2)
    by (simp_all add: ds_def)
  obtain k where k: "?a = ds @ zeros k" using dec_digits_strip(2) [of ?a] ds_def by auto
  have "c = dec_digits ?a" using show_nat_digits [of "nat c"] c(2) by simp
  then have ck: "c = dec_digits ds * 10 ^ k" by (simp add: k dec_digits_append zeros_digits)
  have "dp - int (length ds) = int k + - p" by (simp add: dp_def k zeros_digits)
  then have "pow_rat 10 (dp - int (length ds)) = 10 ^ k / pow_rat 10 p"
    using pow_rat_add [of 10 "int k" "- p"] by (simp add: pow_rat_nat pow_rat_neg)
  then have v: "of_int (dec_digits ds) * pow_rat 10 (dp - int (length ds)) = of_int c / pow_rat 10 p"
    by (simp add: ck)
  have "reads_as (json_float_pos x) (of_int c / pow_rat 10 p)"
    using format_e_reads [OF ds, of dp] format_f_reads [OF ds, of dp] v
    by (simp add: json_float_pos_def sd)
  moreover have "0 < (of_int c :: rat) / pow_rat 10 p" using c(2) pow_rat_pos [of 10 p] by simp
  ultimately show ?thesis using c(1) by blast
qed

text \<open>A finite \<open>float64\<close> is a rational that rounds to itself; it is read back as it was.\<close>

fun float_ok :: "float64 \<Rightarrow> bool" where
  "float_ok (Fin x) \<longleftrightarrow> f64_of_rat x = Fin x"
| "float_ok _ \<longleftrightarrow> True"

lemma parse_json_float:
  assumes "json_float f = Some b" "float_ok f"
  shows "scan_number b = Some (b, []) \<and> parse_float b = Some f"
proof -
  from assms(1) obtain x where f: "f = Fin x" by (cases f) auto
  have x: "f64_of_rat x = Fin x" using assms(2) f by simp
  consider "x = 0" | "0 < x" | "x < 0" by linarith
  then show ?thesis
  proof cases
    case 1
    then have "b = ''0''" "f = Fin 0" using assms(1) f by simp_all
    moreover have "reads_as (''0'' @ frac_part [] @ exp_part (CHR ''+'') []) 0"
      using reads_parts [of "''0''" "[]" "[]" "CHR ''+''"]
      by (simp add: zero_digit)
    ultimately show ?thesis
      by (simp add: reads_as_def frac_part_def exp_part_def parse_float_def f64_of_rat_def)
  next
    case 2
    then have "round_pos x = Fin x" using x by (simp add: f64_of_rat_def)
    from json_float_pos_reads [OF this 2] obtain v where
      "reads_as (json_float_pos x) v" "0 < v" "round_pos v = Fin x" by blast
    with assms(1) 2 show ?thesis by (auto simp: f reads_as_def parse_float_def f64_of_rat_def)
  next
    case 3
    then have "round_pos (- x) = Fin (- x)"
      using x by (auto simp: f64_of_rat_def split: float64.splits)
    from json_float_pos_reads [OF this] 3 obtain v where
      "reads_as (json_float_pos (- x)) v" "0 < v" "round_pos v = Fin (- x)" by auto
    with assms(1) 3 show ?thesis by (auto simp: f reads_as_def parse_float_def f64_of_rat_def)
  qed
qed

end
