(* ===== verification/Marshal.thy ===== *)
theory Marshal
  imports JsonEncode TimeText FloatText ParseFiles
begin

text \<open>
  \<open>Statement.Marshal\<close> of \<open>attestation/statement.go\<close>: the statement as \<open>json.MarshalIndent\<close> writes
  it, and a newline. \<open>None\<close> is the error. The encoders follow the struct tags; \<open>nil\<close> says of
  a field's name whether the field is nil when it is an empty slice or map, which is written
  as \<open>null\<close>; what is shown holds for every such function.
\<close>

subsection \<open>The struct tags\<close>

definition enc_subject :: "(string \<Rightarrow> bool) \<Rightarrow> Subject encoder" where
  "enc_subject nil s = enc_struct
     [(''name'', member enc_string (sName s)),
      (''digest'', member (enc_map (nil ''digest'') enc_string) (sDigest s))]"

definition enc_identity :: "ServerIdentity encoder" where
  "enc_identity s = enc_struct
     [(''name'', omitempty (siName s = []) enc_string (siName s)),
      (''version'', omitempty (siVersion s = []) enc_string (siVersion s)),
      (''protocolVersion'', omitempty (siProtocol s = []) enc_string (siProtocol s))]"

definition enc_target :: "Target encoder" where
  "enc_target t = enc_struct
     [(''transport'', member enc_string (tTransport t)),
      (''endpoint'', member enc_string (tEndpoint t)),
      (''server'', omitempty (tServer t = None) (enc_ptr enc_identity) (tServer t))]"

definition enc_basis :: "Basis encoder" where
  "enc_basis b = enc_struct
     [(''specRevision'', omitempty (SpecRevision b = []) enc_string (SpecRevision b)),
      (''rubric'', omitempty (Rubric b = []) enc_string (Rubric b)),
      (''checkInventory'', omitempty (CheckInventory b = []) enc_string (CheckInventory b))]"

definition enc_instrument :: "Instrument encoder" where
  "enc_instrument i = enc_struct
     [(''name'', member enc_string (iName i)),
      (''version'', member enc_string (iVersion i)),
      (''reportSchemaVersion'', member enc_int (iSchemaVersion i))]"

definition enc_verdict :: "Verdict encoder" where
  "enc_verdict v = enc_struct
     [(''id'', member enc_string (vID v)),
      (''phase'', member enc_string (vPhase v)),
      (''status'', member enc_string (vStatus v)),
      (''severity'', omitempty (vSeverity v = []) enc_string (vSeverity v)),
      (''evidence'', omitempty (vEvidence v = []) (enc_list False enc_string) (vEvidence v)),
      (''doc'', omitempty (vDoc v = []) enc_string (vDoc v))]"

definition enc_counts :: "Counts encoder" where
  "enc_counts c = enc_struct
     [(''pass'', member enc_int (nPass c)),
      (''warn'', member enc_int (nWarn c)),
      (''fail'', member enc_int (nFail c)),
      (''skip'', member enc_int (nSkip c)),
      (''info'', member enc_int (nInfo c))]"

definition enc_score :: "Score encoder" where
  "enc_score s = enc_struct
     [(''total'', member json_float (scTotal s)),
      (''grade'', member enc_string (scGrade s)),
      (''categoriesAssessed'', member enc_int (scAssessed s)),
      (''categoriesTotal'', member enc_int (scOf s)),
      (''byCategory'', omitempty (scBy s = []) (enc_map False json_float) (scBy s))]"

definition enc_plan :: "(string \<Rightarrow> bool) \<Rightarrow> Plan encoder" where
  "enc_plan nil p = enc_struct
     [(''spec'', member (enc_raw (nil ''spec'')) (plSpec p)),
      (''credentials'', member enc_string (plCredentials p)),
      (''credentialsByValue'', omitempty (plByValue p = []) (enc_list False enc_string) (plByValue p)),
      (''os'', member enc_string (plOS p)),
      (''arch'', member enc_string (plArch p)),
      (''kernel'', omitempty (plKernel p = []) enc_string (plKernel p))]"

definition enc_evaluation :: "(string \<Rightarrow> bool) \<Rightarrow> Evaluation encoder" where
  "enc_evaluation nil e = enc_struct
     [(''subjectKind'', member enc_string (SubjectKind e)),
      (''target'', member enc_target (EvTarget e)),
      (''judgedAgainst'', member enc_basis (JudgedAgainst e)),
      (''instrument'', member enc_instrument (EvInstrument e)),
      (''ranAt'', member marshal_time (RanAt e)),
      (''took'', member enc_string (Took e)),
      (''verdicts'', member (enc_list (nil ''verdicts'') enc_verdict) (Verdicts e)),
      (''counts'', member enc_counts (EvCounts e)),
      (''score'', omitempty (EvScore e = None) (enc_ptr enc_score) (EvScore e)),
      (''blocked'', omitempty (Blocked e = []) enc_string (Blocked e)),
      (''traceId'', omitempty (TraceID e = []) enc_string (TraceID e)),
      (''plan'', omitempty (EvPlan e = None) (enc_ptr (enc_plan nil)) (EvPlan e))]"

definition enc_statement :: "(string \<Rightarrow> bool) \<Rightarrow> Statement encoder" where
  "enc_statement nil s = enc_struct
     [(''_type'', member enc_string (stType s)),
      (''subject'', member (enc_list (nil ''subject'') (enc_subject nil)) (stSubject s)),
      (''predicateType'', member enc_string (stPredicateType s)),
      (''predicate'', member (enc_evaluation nil) (Predicate s))]"

definition Marshal :: "(string \<Rightarrow> bool) \<Rightarrow> Statement \<Rightarrow> bytes option" where
  "Marshal nil s =
     (case enc_statement nil s of
        None \<Rightarrow> None
      | Some c \<Rightarrow>
          (case Indent c of
             None \<Rightarrow> None
           | Some b \<Rightarrow> Some (b @ [CHR 0x0A])))"

subsection \<open>What survives\<close>

text \<open>
  The values that are written as they are: strings are UTF-8 (ill-formed bytes are written as
  the replacement character), integers are of 64 bits and floats are \<open>float64\<close>s, a map has one
  value per key, the zone of the time is a whole number of minutes.
\<close>

definition time_ok :: "Time \<Rightarrow> bool" where
  "time_ok t \<longleftrightarrow> whole_minutes t \<and> 0 \<le> tmNsec t \<and> tmNsec t < 1000000000"

definition subject_plain :: "Subject \<Rightarrow> bool" where
  "subject_plain s \<longleftrightarrow> utf8 (sName s) \<and> entries_ok utf8 (sDigest s)"

definition identity_plain :: "ServerIdentity \<Rightarrow> bool" where
  "identity_plain s \<longleftrightarrow> utf8 (siName s) \<and> utf8 (siVersion s) \<and> utf8 (siProtocol s)"

definition target_plain :: "Target \<Rightarrow> bool" where
  "target_plain t \<longleftrightarrow> utf8 (tTransport t) \<and> utf8 (tEndpoint t) \<and> pred_option identity_plain (tServer t)"

definition basis_plain :: "Basis \<Rightarrow> bool" where
  "basis_plain b \<longleftrightarrow> utf8 (SpecRevision b) \<and> utf8 (Rubric b) \<and> utf8 (CheckInventory b)"

definition instrument_plain :: "Instrument \<Rightarrow> bool" where
  "instrument_plain i \<longleftrightarrow> utf8 (iName i) \<and> utf8 (iVersion i) \<and> int64 (iSchemaVersion i)"

definition verdict_plain :: "Verdict \<Rightarrow> bool" where
  "verdict_plain v \<longleftrightarrow> utf8 (vID v) \<and> utf8 (vPhase v) \<and> utf8 (vStatus v) \<and> utf8 (vSeverity v) \<and>
     list_all utf8 (vEvidence v) \<and> utf8 (vDoc v)"

definition counts_plain :: "Counts \<Rightarrow> bool" where
  "counts_plain c \<longleftrightarrow> int64 (nPass c) \<and> int64 (nWarn c) \<and> int64 (nFail c) \<and> int64 (nSkip c) \<and> int64 (nInfo c)"

definition score_plain :: "Score \<Rightarrow> bool" where
  "score_plain s \<longleftrightarrow> float_ok (scTotal s) \<and> utf8 (scGrade s) \<and> int64 (scAssessed s) \<and> int64 (scOf s) \<and>
     entries_ok float_ok (scBy s)"

definition plan_plain :: "Plan \<Rightarrow> bool" where
  "plan_plain p \<longleftrightarrow> utf8 (plCredentials p) \<and> list_all utf8 (plByValue p) \<and> utf8 (plOS p) \<and> utf8 (plArch p) \<and>
     utf8 (plKernel p)"

definition evaluation_plain :: "Evaluation \<Rightarrow> bool" where
  "evaluation_plain e \<longleftrightarrow> utf8 (SubjectKind e) \<and> target_plain (EvTarget e) \<and> basis_plain (JudgedAgainst e) \<and>
     instrument_plain (EvInstrument e) \<and> time_ok (RanAt e) \<and> utf8 (Took e) \<and> list_all verdict_plain (Verdicts e) \<and>
     counts_plain (EvCounts e) \<and> pred_option score_plain (EvScore e) \<and> utf8 (Blocked e) \<and> utf8 (TraceID e) \<and>
     pred_option plan_plain (EvPlan e)"

definition plain :: "Statement \<Rightarrow> bool" where
  "plain s \<longleftrightarrow> utf8 (stType s) \<and> list_all subject_plain (stSubject s) \<and> utf8 (stPredicateType s) \<and>
     evaluation_plain (Predicate s)"

text \<open>
  A statement as it comes back: its maps sorted by key, the plan's specification laid out for
  the place it stands at.
\<close>

definition back_subject :: "nat \<Rightarrow> Subject \<Rightarrow> Subject" where
  "back_subject k s = s\<lparr>sDigest := sort_key fst (sDigest s)\<rparr>"

definition back_score :: "nat \<Rightarrow> Score \<Rightarrow> Score" where
  "back_score k s = s\<lparr>scBy := sort_key fst (scBy s)\<rparr>"

definition back_plan :: "nat \<Rightarrow> Plan \<Rightarrow> Plan" where
  "back_plan k p = p\<lparr>plSpec := laid_out (Suc k) (plSpec p)\<rparr>"

definition back_evaluation :: "nat \<Rightarrow> Evaluation \<Rightarrow> Evaluation" where
  "back_evaluation k e =
     e\<lparr>EvScore := map_option (back_score (Suc k)) (EvScore e),
       EvPlan := map_option (back_plan (Suc k)) (EvPlan e)\<rparr>"

definition back_statement :: "nat \<Rightarrow> Statement \<Rightarrow> Statement" where
  "back_statement k s =
     s\<lparr>stSubject := map (back_subject (Suc (Suc k))) (stSubject s),
       Predicate := back_evaluation (Suc k) (Predicate s)\<rparr>"

end
