(* ===== verification/MarshalProps.thy ===== *)
theory MarshalProps
  imports Marshal
begin

text \<open>
  What \<open>Marshal\<close> writes is what \<open>Parse\<close> reads: the contract \<open>codec\<close> for every type of the
  statement, from its parts.
\<close>

subsection \<open>The scalars the types use\<close>

definition plain_char :: "char \<Rightarrow> bool" where
  "plain_char c \<longleftrightarrow> c \<noteq> CHR 0x22 \<and> c \<noteq> CHR 0x5C \<and> \<not> byte_of c < 0x20"

lemma plain_body: "list_all plain_char s \<Longrightarrow> string_body s"
  by (induction s) (simp_all add: plain_char_def string_body_plain)

lemma digit_plain: "is_digit c \<Longrightarrow> plain_char c"
proof -
  have "list_all plain_char ''0123456789''" by (simp add: plain_char_def byte_of_def)
  then show "is_digit c \<Longrightarrow> plain_char c" by (auto simp: is_digit_def)
qed

lemma digits_plain: "list_all is_digit s \<Longrightarrow> list_all plain_char s"
  by (induction s) (simp_all add: digit_plain)

lemma format_time_plain: "list_all plain_char (format_time t)"
proof -
  have d: "list_all plain_char (append_int w n)" "list_all plain_char (strip_zeros (append_int w n))" for w n
    by (rule digits_plain, simp add: append_int_digits strip_zeros_digits)+
  have p: "list_all plain_char ''-:T.Z+''" by (simp add: plain_char_def byte_of_def)
  then have p: "plain_char (CHR ''-'')" "plain_char (CHR '':'')" "plain_char (CHR ''T'')" "plain_char (CHR ''.'')"
    "plain_char (CHR ''Z'')" "plain_char (CHR ''+'')" by simp_all
  have "list_all plain_char (fraction_text n)" "list_all plain_char (clock_text n)" "list_all plain_char (zone_text z)"
    for n z by (simp_all add: fraction_text_def clock_text_def zone_text_def Let_def list_all_append d p)
  then show ?thesis
    by (simp add: format_time_def Let_def list_all_append d p split: prod.split)
qed

lemma time_codec: "codec marshal_time dec_time zero_time time_ok (\<lambda>k t. t) (\<lambda>t. 0)"
proof
  fix t b
  assume t: "time_ok t" "marshal_time t = Some b"
  then have b: "b = CHR 0x22 # format_time t @ [CHR 0x22]" by (auto simp: marshal_time_def split: if_splits)
  have "well_formed (OLit b)" using plain_body [OF format_time_plain [of t]] b by (auto simp: string_lit_def)
  moreover have "dec_time b v zero_time = Some t" for v
    using dec_marshal_time [OF t(2)] t(1) by (simp add: time_ok_def)
  ultimately show "\<exists>u. well_formed u \<and> fits 0 u \<and> b = compact_text u \<and>
      (\<forall>k. dec_time (tree_text k u) (value_of k u) zero_time = Some t)"
    by (intro exI [of _ "OLit b"]) (simp add: compact_text_simps tree_text_def)
qed

interpretation float_codec: codec json_float dec_float 0 float_ok "\<lambda>k x. x" "\<lambda>x. 0"
proof
  fix f b
  assume f: "float_ok f" "json_float f = Some b"
  then have w: "scan_number b = Some (b, [])" "parse_float b = Some f" using parse_json_float [OF f(2,1)] by simp_all
  with number_tree [OF w(1)] show "\<exists>t. well_formed t \<and> fits 0 t \<and> b = compact_text t \<and>
      (\<forall>k. dec_float (tree_text k t) (value_of k t) 0 = Some f)"
    by (intro exI [of _ "OLit b"]) simp
qed

subsection \<open>The structs\<close>

lemma utf8_ascii_Cons: "\<not> digit7 c \<Longrightarrow> utf8 (c # s) \<longleftrightarrow> utf8 s"
  by (rule utf8_ascii) (cases c, simp add: byte_of_def)

lemma pair_ident [simp]: "(\<lambda>(n, v). (n, v)) = (\<lambda>x. x)"
  by (simp add: fun_eq_iff)

named_theorems codecs \<open>the contract of each type\<close>

lemma strings_codec:
  "codec (enc_list nil enc_string) (dec_list [] dec_string) [] (list_all utf8) (\<lambda>k xs. xs) (\<lambda>xs. Suc 0)"
  using text_codec.list_codec [of 0 nil] by simp

lemma string_map_codec:
  "codec (enc_map nil enc_string) (dec_map [] dec_string) m_empty
     (entries_ok utf8) (\<lambda>k. sort_key fst) (\<lambda>m. Suc 0)"
  using text_codec.map_codec [of 0 nil] by simp

lemma float_map_codec:
  "codec (enc_map nil json_float) (dec_map 0 dec_float) m_empty
     (entries_ok float_ok) (\<lambda>k. sort_key fst) (\<lambda>m. Suc 0)"
  using float_codec.map_codec [of 0 nil] by simp

lemmas [codecs] = text_codec.codec_axioms int_codec.codec_axioms float_codec.codec_axioms time_codec
  raw_codec strings_codec string_map_codec float_map_codec

lemmas names_eval = utf8_ascii_Cons

lemma subject_codec [codecs]:
  "codec (enc_subject nil) dec_subject zero_subject subject_plain back_subject (\<lambda>x. Suc (Suc 0))"
  unfolding enc_subject_def [abs_def] dec_subject_def
  by (rule struct_codec)
    (((rule fills_field, rule codecs, (rule field_here | (rule field_later, simp))+, simp add: names_eval,
        simp add: subject_plain_def, simp add: zero_subject_def, simp split: option.split)
      | (rule fills_omit, rule codecs, (rule field_here | (rule field_later, simp))+, simp add: names_eval,
        simp add: subject_plain_def, simp add: zero_subject_def, simp split: option.split, simp add: zero_subject_def))+,
      rule fills_end, simp add: zero_subject_def back_subject_def)

lemma identity_codec [codecs]:
  "codec enc_identity dec_identity zero_identity identity_plain (\<lambda>k x. x) (\<lambda>x. Suc (0))"
  unfolding enc_identity_def [abs_def] dec_identity_def
  by (rule struct_codec)
    (((rule fills_field, rule codecs, (rule field_here | (rule field_later, simp))+, simp add: names_eval,
        simp add: identity_plain_def, simp add: zero_identity_def, simp split: option.split)
      | (rule fills_omit, rule codecs, (rule field_here | (rule field_later, simp))+, simp add: names_eval,
        simp add: identity_plain_def, simp add: zero_identity_def, simp split: option.split, simp add: zero_identity_def))+,
      rule fills_end, simp add: zero_identity_def)

lemma identity_pointer [codecs]:
  "codec (enc_ptr enc_identity) (dec_opt zero_identity dec_identity) None (pred_option identity_plain) (\<lambda>k. map_option (\<lambda>x. x))
     (\<lambda>x. case x of None \<Rightarrow> 0 | Some x \<Rightarrow> Suc (0))"
  by (rule codec.pointer_codec [OF identity_codec]) (auto simp: enc_identity_def dest: enc_struct_brace)

lemma target_codec [codecs]:
  "codec enc_target dec_target (EvTarget zero_evaluation) target_plain (\<lambda>k x. x) (\<lambda>x. Suc (Suc 0))"
  unfolding enc_target_def [abs_def] dec_target_def
  by (rule struct_codec)
    (((rule fills_field, rule codecs, (rule field_here | (rule field_later, simp))+, simp add: names_eval,
        simp add: target_plain_def, simp add: zero_evaluation_def option.map_ident, simp split: option.split)
      | (rule fills_omit, rule codecs, (rule field_here | (rule field_later, simp))+, simp add: names_eval,
        simp add: target_plain_def, simp add: zero_evaluation_def option.map_ident, simp split: option.split, simp add: zero_evaluation_def option.map_ident))+,
      rule fills_end, simp add: zero_evaluation_def option.map_ident)

lemma basis_codec [codecs]:
  "codec enc_basis dec_basis (JudgedAgainst zero_evaluation) basis_plain (\<lambda>k x. x) (\<lambda>x. Suc (0))"
  unfolding enc_basis_def [abs_def] dec_basis_def
  by (rule struct_codec)
    (((rule fills_field, rule codecs, (rule field_here | (rule field_later, simp))+, simp add: names_eval,
        simp add: basis_plain_def, simp add: zero_evaluation_def, simp split: option.split)
      | (rule fills_omit, rule codecs, (rule field_here | (rule field_later, simp))+, simp add: names_eval,
        simp add: basis_plain_def, simp add: zero_evaluation_def, simp split: option.split, simp add: zero_evaluation_def))+,
      rule fills_end, simp add: zero_evaluation_def)

lemma instrument_codec [codecs]:
  "codec enc_instrument dec_instrument (EvInstrument zero_evaluation) instrument_plain (\<lambda>k x. x) (\<lambda>x. Suc (0))"
  unfolding enc_instrument_def [abs_def] dec_instrument_def
  by (rule struct_codec)
    (((rule fills_field, rule codecs, (rule field_here | (rule field_later, simp))+, simp add: names_eval,
        simp add: instrument_plain_def, simp add: zero_evaluation_def, simp split: option.split)
      | (rule fills_omit, rule codecs, (rule field_here | (rule field_later, simp))+, simp add: names_eval,
        simp add: instrument_plain_def, simp add: zero_evaluation_def, simp split: option.split, simp add: zero_evaluation_def))+,
      rule fills_end, simp add: zero_evaluation_def)

lemma verdict_codec [codecs]:
  "codec enc_verdict dec_verdict new_verdict verdict_plain (\<lambda>k x. x) (\<lambda>x. Suc (Suc 0))"
  unfolding enc_verdict_def [abs_def] dec_verdict_def dec_strings_def
  by (rule struct_codec)
    (((rule fills_field, rule codecs, (rule field_here | (rule field_later, simp))+, simp add: names_eval,
        simp add: verdict_plain_def, simp add: new_verdict_def, simp split: option.split)
      | (rule fills_omit, rule codecs, (rule field_here | (rule field_later, simp))+, simp add: names_eval,
        simp add: verdict_plain_def, simp add: new_verdict_def, simp split: option.split, simp add: new_verdict_def))+,
      rule fills_end, simp add: new_verdict_def)

lemma counts_codec [codecs]:
  "codec enc_counts dec_counts zero_counts counts_plain (\<lambda>k x. x) (\<lambda>x. Suc (0))"
  unfolding enc_counts_def [abs_def] dec_counts_def
  by (rule struct_codec)
    (((rule fills_field, rule codecs, (rule field_here | (rule field_later, simp))+, simp add: names_eval,
        simp add: counts_plain_def, simp add: zero_counts_def, simp split: option.split)
      | (rule fills_omit, rule codecs, (rule field_here | (rule field_later, simp))+, simp add: names_eval,
        simp add: counts_plain_def, simp add: zero_counts_def, simp split: option.split, simp add: zero_counts_def))+,
      rule fills_end, simp add: zero_counts_def)

lemma score_codec [codecs]:
  "codec enc_score dec_score zero_score score_plain back_score (\<lambda>x. Suc (Suc 0))"
  unfolding enc_score_def [abs_def] dec_score_def
  by (rule struct_codec)
    (((rule fills_field, rule codecs, (rule field_here | (rule field_later, simp))+, simp add: names_eval,
        simp add: score_plain_def, simp add: zero_score_def m_empty_def, simp split: option.split)
      | (rule fills_omit, rule codecs, (rule field_here | (rule field_later, simp))+, simp add: names_eval,
        simp add: score_plain_def, simp add: zero_score_def m_empty_def, simp split: option.split, simp add: zero_score_def m_empty_def))+,
      rule fills_end, simp add: zero_score_def m_empty_def back_score_def)

lemma score_pointer [codecs]:
  "codec (enc_ptr enc_score) (dec_opt zero_score dec_score) None (pred_option score_plain) (\<lambda>k. map_option (back_score k))
     (\<lambda>x. case x of None \<Rightarrow> 0 | Some x \<Rightarrow> Suc (Suc 0))"
  by (rule codec.pointer_codec [OF score_codec]) (auto simp: enc_score_def dest: enc_struct_brace)

lemma plan_codec [codecs]:
  "codec (enc_plan nil) dec_plan zero_plan plan_plain back_plan (\<lambda>x. Suc (max (Suc 0) (raw_depth (plSpec x))))"
  unfolding enc_plan_def [abs_def] dec_plan_def dec_strings_def
  by (rule struct_codec)
    (((rule fills_field, rule codecs, (rule field_here | (rule field_later, simp))+, simp add: names_eval,
        simp add: plan_plain_def, simp add: zero_plan_def, simp split: option.split)
      | (rule fills_omit, rule codecs, (rule field_here | (rule field_later, simp))+, simp add: names_eval,
        simp add: plan_plain_def, simp add: zero_plan_def, simp split: option.split, simp add: zero_plan_def))+,
      rule fills_end, simp add: zero_plan_def back_plan_def)

lemma plan_pointer [codecs]:
  "codec (enc_ptr (enc_plan nil)) (dec_opt zero_plan dec_plan) None (pred_option plan_plain) (\<lambda>k. map_option (back_plan k))
     (\<lambda>x. case x of None \<Rightarrow> 0 | Some x \<Rightarrow> Suc (max (Suc 0) (raw_depth (plSpec x))))"
  by (rule codec.pointer_codec [OF plan_codec]) (auto simp: enc_plan_def dest: enc_struct_brace)

lemma verdicts_codec [codecs]:
  "codec (enc_list nil enc_verdict) (dec_list new_verdict dec_verdict) [] (list_all verdict_plain) (\<lambda>k vs. vs)
     (\<lambda>vs. Suc (Suc (Suc 0)))"
  using codec.list_codec [OF verdict_codec, of "Suc (Suc 0)"] by simp

lemmas [codecs] = codec.list_codec [OF subject_codec, of "Suc (Suc 0)", OF order_refl]

text \<open>The nesting of an evaluation comes from the plan's specification, if that is deep at all.\<close>

definition plan_depth :: "Plan option \<Rightarrow> nat" where
  "plan_depth p = (case p of None \<Rightarrow> 0 | Some x \<Rightarrow> Suc (max (Suc 0) (raw_depth (plSpec x))))"

lemma evaluation_codec [codecs]:
  "codec (enc_evaluation nil) dec_evaluation zero_evaluation evaluation_plain back_evaluation (\<lambda>x. Suc (max (Suc (Suc (Suc 0))) (plan_depth (EvPlan x))))"
  unfolding enc_evaluation_def [abs_def] dec_evaluation_def
  by (rule struct_codec)
    (((rule fills_field, rule codecs, (rule field_here | (rule field_later, simp))+, simp add: names_eval,
        simp add: evaluation_plain_def, simp add: zero_evaluation_def, simp add: plan_depth_def le_max_iff_disj split: option.split)
      | (rule fills_omit, rule codecs, (rule field_here | (rule field_later, simp))+, simp add: names_eval,
        simp add: evaluation_plain_def, simp add: zero_evaluation_def, simp add: plan_depth_def le_max_iff_disj split: option.split, simp add: zero_evaluation_def))+,
      rule fills_end, simp add: zero_evaluation_def back_evaluation_def option.map_ident)

lemma statement_codec [codecs]:
  "codec (enc_statement nil) dec_statement zero_statement plain back_statement (\<lambda>x. Suc (Suc (max (Suc (Suc (Suc 0))) (plan_depth (EvPlan (Predicate x))))))"
  unfolding enc_statement_def [abs_def] dec_statement_def
  by (rule struct_codec)
    (((rule fills_field, rule codecs, (rule field_here | (rule field_later, simp))+, simp add: names_eval,
        simp add: plain_def, simp add: zero_statement_def, simp split: option.split)
      | (rule fills_omit, rule codecs, (rule field_here | (rule field_later, simp))+, simp add: names_eval,
        simp add: plain_def, simp add: zero_statement_def, simp split: option.split, simp add: zero_statement_def))+,
      rule fills_end, simp add: zero_statement_def back_statement_def)

subsection \<open>The statement\<close>

text \<open>Reading back is not told apart by \<open>Validate\<close>: it looks at maps by key.\<close>

lemma m_str_sorted: "wf_map m \<Longrightarrow> m_str (sort_key fst m) k = m_str m k"
  using m_get_permuted(1) [of m "sort_key fst m"] by (simp add: m_str_def)

lemma subject_digest_back: "wf_map (sDigest s) \<Longrightarrow> subject_digest (back_subject k s) = subject_digest s"
  by (simp add: subject_digest_def back_subject_def m_str_sorted)

lemma Validate_back:
  assumes "plain s"
  shows "Validate (back_statement k s) = Validate s"
proof -
  have e: "stType (back_statement k s) = stType s" "stPredicateType (back_statement k s) = stPredicateType s"
    "EvTarget (back_evaluation j e) = EvTarget e" "SubjectKind (back_evaluation j e) = SubjectKind e"
    "EvInstrument (back_evaluation j e) = EvInstrument e" "RanAt (back_evaluation j e) = RanAt e"
    "Verdicts (back_evaluation j e) = Verdicts e" "JudgedAgainst (back_evaluation j e) = JudgedAgainst e"
    "EvCounts (back_evaluation j e) = EvCounts e" "EvScore (back_evaluation j e) = None \<longleftrightarrow> EvScore e = None"
    "Predicate (back_statement k s) = back_evaluation (Suc k) (Predicate s)"
    "sName (back_subject j u) = sName u"
    "stSubject (back_statement k s) = map (back_subject (Suc (Suc k))) (stSubject s)" for j e u
    by (simp_all add: back_statement_def back_evaluation_def back_subject_def)
  have d: "u \<in> set (stSubject s) \<Longrightarrow> subject_digest (back_subject j u) = subject_digest u" for j u
    using assms subject_digest_back [of u j] by (auto simp: plain_def list_all_iff subject_plain_def entries_ok_def)
  have "check_subject (back_statement k s) = check_subject s"
    using d by (simp add: check_subject_def e Let_def split: list.split)
  moreover have "check_types (back_statement k s) = check_types s" by (simp add: check_types_def e)
  moreover have "check_target (back_evaluation j v) = check_target v" "check_run (back_evaluation j v) = check_run v"
    "check_basis (back_evaluation j v) = check_basis v" "check_verdicts (back_evaluation j v) = check_verdicts v"
    for j v
    by (simp_all only: check_target_def check_run_def check_basis_def check_verdicts_def e)
  ultimately show ?thesis by (simp add: Validate_def problems_def e(11))
qed

lemma Marshal_tree:
  assumes "plain s" "enc_statement nil s = Some c"
  obtains t where "Indent c = (if fits max_depth t then Some (tree_text 0 t) else None)"
    "fits (Suc (Suc (max (Suc (Suc (Suc 0))) (plan_depth (EvPlan (Predicate s)))))) t"
    "\<And>w. fits max_depth t \<Longrightarrow> skip_ws w = [] \<Longrightarrow>
       unmarshal_statement (tree_text 0 t @ w) = Some (back_statement 0 s)"
proof -
  from codec.law [OF statement_codec assms] obtain t where t: "well_formed t"
    "fits (Suc (Suc (max (Suc (Suc (Suc 0))) (plan_depth (EvPlan (Predicate s)))))) t" "c = compact_text t"
    "dec_statement (tree_text 0 t) (value_of 0 t) zero_statement = Some (back_statement 0 s)" by blast
  show thesis
    by (rule that [of t]) (use Indent_compact [OF t(1)] t in \<open>simp_all add: unmarshal_statement_def value_of_def\<close>)
qed

lemma unmarshal_Marshal:
  assumes "plain s" "Marshal nil s = Some b"
  shows "unmarshal_statement b = Some (back_statement 0 s)"
proof -
  from assms(2) obtain c where c: "enc_statement nil s = Some c"
    by (auto simp: Marshal_def split: option.splits)
  from Marshal_tree [OF assms(1) c] obtain t where t:
    "Indent c = (if fits max_depth t then Some (tree_text 0 t) else None)"
    "\<And>w. fits max_depth t \<Longrightarrow> skip_ws w = [] \<Longrightarrow>
       unmarshal_statement (tree_text 0 t @ w) = Some (back_statement 0 s)" by blast
  with assms(2) c have "fits max_depth t" "b = tree_text 0 t @ [CHR 0x0A]"
    by (auto simp: Marshal_def split: if_splits)
  with t(2) [of "[CHR 0x0A]"] show ?thesis by (simp add: skip_ws_def is_ws_def)
qed

lemma Marshal_shallow:
  assumes "plain s" "enc_statement nil s = Some c" "plan_depth (EvPlan (Predicate s)) \<le> 9998"
  shows "Marshal nil s = Some (indent_go False False False 0 c @ [CHR 0x0A])"
proof -
  from codec.law [OF statement_codec assms(1,2)] obtain t where t: "well_formed t"
    "fits (Suc (Suc (max (Suc (Suc (Suc 0))) (plan_depth (EvPlan (Predicate s)))))) t" "c = compact_text t" by blast
  have "fits max_depth t" by (rule fits_mono [OF t(2)]) (use assms(3) in \<open>simp add: max_depth_def\<close>)
  with Indent_compact(1) [OF t(1)] indent_compact [OF t(1), of 0] assms(2) t(3) show ?thesis
    by (simp add: Marshal_def)
qed

subsection \<open>When it fails\<close>

definition score_finite :: "Score \<Rightarrow> bool" where
  "score_finite s \<longleftrightarrow> is_finite (scTotal s) \<and> (\<forall>(n, v)\<in>set (scBy s). is_finite v)"

text \<open>
  What the encoder accepts: a time with a four-digit year in a zone less than a day from UTC,
  finite scores, a specification that is JSON.
\<close>

definition writable :: "(string \<Rightarrow> bool) \<Rightarrow> Statement \<Rightarrow> bool" where
  "writable nil s \<longleftrightarrow>
     time_printable (RanAt (Predicate s)) \<and> pred_option score_finite (EvScore (Predicate s)) \<and>
     pred_option (\<lambda>p. plSpec p = [] \<and> nil ''spec'' \<or> parse_whole (plSpec p) \<noteq> None) (EvPlan (Predicate s))"

lemma those_None: "those xs = None \<longleftrightarrow> None \<in> set xs"
  by (induction xs) (auto split: option.splits)

lemma enc_struct_None: "enc_struct es = None \<longleftrightarrow> (\<exists>(n, m)\<in>set es. m = Some None)"
  by (force simp: enc_struct_eq struct_members_def those_None key_value_def split: option.splits)

lemma enc_list_None: "enc_list nil e xs = None \<longleftrightarrow> (\<exists>x\<in>set xs. e x = None)"
  by (auto simp: enc_list_def those_None image_iff eq_commute [of None])

lemma enc_map_None: "enc_map nil e m = None \<longleftrightarrow> (\<exists>(n, x)\<in>set m. e x = None)"
  by (force simp: enc_map_def enc_object_def those_None key_value_def)

lemma json_float_None: "json_float x = None \<longleftrightarrow> \<not> is_finite x"
  by (cases x) (auto simp: is_finite_def)

lemma enc_plain: "enc_string s \<noteq> None" "enc_int i \<noteq> None"
  by (simp_all add: enc_string_def enc_int_def)

lemmas none_eval = enc_struct_None enc_list_None enc_map_None json_float_None enc_plain member_def omitempty_def

lemma enc_identity_None: "enc_identity y \<noteq> None"
  by (auto simp: enc_identity_def none_eval)

lemma enc_ptr_None: "enc_ptr e x = None \<longleftrightarrow> (\<exists>y. x = Some y \<and> e y = None)"
  by (cases x) (simp_all add: enc_ptr_def)

lemma never_None:
  "enc_subject nil u \<noteq> None" "enc_target t \<noteq> None" "enc_basis b \<noteq> None"
  "enc_instrument i \<noteq> None" "enc_verdict v \<noteq> None" "enc_counts c \<noteq> None"
  unfolding enc_subject_def enc_target_def enc_basis_def enc_instrument_def enc_verdict_def enc_counts_def
  by (auto simp: enc_ptr_None enc_identity_None none_eval)

lemma enc_score_None: "enc_score s = None \<longleftrightarrow> \<not> score_finite s"
  by (auto simp: enc_score_def none_eval score_finite_def)

lemma enc_plan_None: "enc_plan nil p = None \<longleftrightarrow> \<not> (plSpec p = [] \<and> nil ''spec'' \<or> parse_whole (plSpec p) \<noteq> None)"
  by (auto simp: enc_plan_def none_eval enc_raw_def Compact_def)

lemma enc_statement_None: "enc_statement nil s = None \<longleftrightarrow> \<not> writable nil s"
proof -
  have "enc_evaluation nil e = None \<longleftrightarrow> \<not> time_printable (RanAt e) \<or> \<not> pred_option score_finite (EvScore e) \<or>
      \<not> pred_option (\<lambda>p. enc_plan nil p \<noteq> None) (EvPlan e)" for e
    by (cases "EvScore e"; cases "EvPlan e")
      (simp_all add: enc_evaluation_def none_eval never_None enc_score_None enc_ptr_def marshal_time_def)
  then show ?thesis
    by (simp add: enc_statement_def none_eval never_None writable_def enc_plan_None)
qed


text \<open>
  C7. What \<open>Marshal\<close> writes of a plain statement (its strings are UTF-8, its numbers are in range,
  its zone is of whole minutes, its maps have one value per key), \<open>Parse\<close> reads as that
  statement with its maps sorted and the plan's specification laid out, \<open>back_statement 0 s\<close>,
  and accepts exactly when the statement is valid; otherwise it reports the same problems.
\<close>

theorem Parse_Marshal:
  assumes "plain s" "Marshal nil s = Some b"
  shows "Parse b = (case Validate s of None \<Rightarrow> Inr (back_statement 0 s) | Some ps \<Rightarrow> Inl (Invalid ps))"
  using unmarshal_Marshal [OF assms] Validate_back [OF assms(1)] by (simp add: Parse_def)

end
