(* ===== verification/MarshalParse.thy ===== *)
theory MarshalParse
  imports MarshalProps
begin

text \<open>
  What \<open>Parse\<close> returns survives being written: its strings are UTF-8, its numbers are in range and
  its times have whole minutes. Writing an accepted statement again therefore loses nothing.
\<close>

subsection \<open>Rounding twice\<close>

lemma round_half_even_bounds: "\<lfloor>q\<rfloor> \<le> round_half_even q" "round_half_even q \<le> \<lfloor>q\<rfloor> + 1"
  by (simp_all add: round_half_even_def Let_def)

lemma round_pos_again:
  assumes "round_pos q = Fin x" "0 < q" "x \<noteq> 0"
  shows "0 < x" "round_pos x = Fin x"
proof -
  define e where "e = ulp_exp q"
  define u where "u = pow_rat 2 e"
  define m where "m = round_half_even (q / u)"
  have u: "0 < u" by (simp add: u_def pow_rat_pos)
  have x: "x = of_int m * u" "x < pow_rat 2 1024"
    using assms(1) by (auto simp: round_pos_def ulp_exp_def Let_def m_def u_def e_def split: if_splits)
  have pw: "pow_rat 2 (int k + e) = 2 ^ k * u" for k by (simp add: pow_rat_add u_def pow_rat_nat)
  have "0 \<le> q / u" using u assms(2) by simp
  then have "0 \<le> m" using round_half_even_bounds(1) [of "q / u"] unfolding m_def by linarith
  with x(1) assms(3) have m: "1 \<le> m" by (cases "m = 0") simp_all
  then show x0: "0 < x" using u by (simp add: x(1))
  have "q < pow_rat 2 (floor_log_rat 2 q + 1)" by (rule floor_log_spec) (use assms in simp_all)
  also have "\<dots> \<le> pow_rat 2 (int 53 + e)" by (rule pow_rat_mono) (simp_all add: e_def ulp_exp_def)
  finally have "q / u < 2 ^ 53" using u pw [of 53] by (simp add: divide_less_eq)
  then have "\<lfloor>q / u\<rfloor> < 2 ^ 53" by (simp add: floor_less_iff)
  then have top: "m \<le> 2 ^ 53" using round_half_even_bounds(2) [of "q / u"] unfolding m_def by linarith
  have low: "2 ^ 52 \<le> m" if "e \<noteq> - 1074"
  proof -
    have "2 ^ 52 * u = pow_rat 2 (int 52 + e)" using pw [of 52] by simp
    also have "int 52 + e = floor_log_rat 2 q" using that by (simp add: e_def ulp_exp_def max_def split: if_splits)
    also have "pow_rat 2 (floor_log_rat 2 q) \<le> q" by (rule floor_log_spec) (use assms in simp_all)
    finally have "2 ^ 52 \<le> q / u" using u by (simp add: le_divide_eq)
    then have "2 ^ 52 \<le> \<lfloor>q / u\<rfloor>" by (simp add: le_floor_iff)
    then show ?thesis using round_half_even_bounds(1) [of "q / u"] unfolding m_def by linarith
  qed
  have e: "- 1074 \<le> e" by (simp add: e_def ulp_exp_def)
  show "round_pos x = Fin x"
  proof (cases "m = 2 ^ 53")
    case True
    have x53: "x = pow_rat 2 (int 53 + e)" using pw [of 53] by (simp add: x(1) True)
    have "floor_log_rat 2 x = 53 + e"
    proof (rule antisym)
      have "x < pow_rat 2 ((53 + e) + 1)" using pow_rat_add [of 2 "53 + e" 1] x0 x53 by (simp add: pow_rat_def)
      then show "floor_log_rat 2 x \<le> 53 + e" by (intro floor_log_le [OF _ x0]) simp_all
      show "53 + e \<le> floor_log_rat 2 x" by (rule floor_log_ge [OF _ x0]) (simp_all add: x53)
    qed
    then have ux: "ulp_exp x = e + 1" using e by (simp add: ulp_exp_def)
    have "x = of_int (2 ^ 52) * pow_rat 2 (e + 1)"
      using pow_rat_add [of 2 e 1] by (simp add: x(1) True u_def pow_rat_def)
    with round_posI [OF ux, of "2 ^ 52"] x(2) pow_rat_pos [of 2 "e + 1"] show ?thesis by simp
  next
    case False
    with top have "m < 2 ^ 53" by simp
    then have "(of_int m :: rat) < of_int (2 ^ 53)" by (simp only: of_int_less_iff)
    then have "x < pow_rat 2 ((52 + e) + 1)" using pw [of 53] u by (simp add: x(1) add.commute)
    then have le: "floor_log_rat 2 x \<le> 52 + e" by (intro floor_log_le [OF _ x0]) simp_all
    have ge: "52 + e \<le> floor_log_rat 2 x" if "e \<noteq> - 1074"
    proof -
      have "(of_int (2 ^ 52) :: rat) \<le> of_int m" using low [OF that] by (simp only: of_int_le_iff)
      then show ?thesis using pw [of 52] u by (intro floor_log_ge [OF _ x0]) (simp_all add: x(1))
    qed
    have ux: "ulp_exp x = e" using le ge e by (cases "e = - 1074") (simp_all add: ulp_exp_def)
    from round_posI [OF ux, of m] u x show ?thesis by (simp add: u_def)
  qed
qed

lemma f64_of_rat_again: "f64_of_rat q = Fin x \<Longrightarrow> f64_of_rat x = Fin x"
proof -
  assume q: "f64_of_rat q = Fin x"
  consider "q = 0" | "0 < q" | "q < 0" by linarith
  then show ?thesis
  proof cases
    case 1
    with q show ?thesis by (auto simp: f64_of_rat_def)
  next
    case 2
    with q have "round_pos q = Fin x" by (simp add: f64_of_rat_def)
    with round_pos_again [OF this 2] show ?thesis by (cases "x = 0") (simp_all add: f64_of_rat_def)
  next
    case 3
    with q have "round_pos (- q) = Fin (- x)" by (auto simp: f64_of_rat_def split: float64.splits)
    with round_pos_again [OF this] 3 show ?thesis by (cases "x = 0") (simp_all add: f64_of_rat_def)
  qed
qed

subsection \<open>What the decoders give\<close>

lemma keeps_int64 [keep_rules]: "keeps int64 dec_int"
  by (rule keepsI, elim dec_int.elims)
    (auto simp: parse_int_def int64_def Let_def split: prod.splits if_splits)

lemma keeps_float_ok [keep_rules]: "keeps float_ok dec_float"
  by (rule keepsI, elim dec_float.elims)
    (auto simp: parse_float_def f64_of_rat_again split: float64.splits)

lemma dec_digits_bounds: "list_all is_digit ds \<Longrightarrow> 0 \<le> dec_digits ds \<and> dec_digits ds < 10 ^ length ds"
proof (induction ds rule: rev_induct)
  case (snoc c ds)
  have "digit_val c < 10" using snoc.prems by (auto simp: is_digit_def digit_val_def byte_of_def)
  with snoc show ?case by (simp add: dec_digits_snoc list_all_append)
qed simp

lemma get_fraction_bounds: "get_fraction s = (ns, r) \<Longrightarrow> 0 \<le> ns \<and> ns < 1000000000"
proof -
  have all: "0 \<le> dec_digits ds * 10 ^ (9 - length ds) \<and> dec_digits ds * 10 ^ (9 - length ds) < 10 ^ 9"
    if "list_all is_digit ds" "length ds \<le> 9" for ds
  proof -
    note b = dec_digits_bounds [OF that(1)]
    have "dec_digits ds * 10 ^ (9 - length ds) < 10 ^ length ds * 10 ^ (9 - length ds)"
      using b by (intro mult_strict_right_mono) simp_all
    also have "\<dots> = 10 ^ 9" using that(2) by (simp flip: power_add)
    finally show ?thesis using b by simp
  qed
  have "list_all is_digit (take 9 (takeWhile is_digit u))" for u
    by (auto simp: list_all_iff dest!: in_set_takeD set_takeWhileD)
  then have frac: "0 \<le> dec_digits (take 9 (takeWhile is_digit u)) * 10 ^ (9 - length (take 9 (takeWhile is_digit u))) \<and>
      dec_digits (take 9 (takeWhile is_digit u)) * 10 ^ (9 - length (take 9 (takeWhile is_digit u))) < 10 ^ 9" for u
    by (rule all) simp
  assume g: "get_fraction s = (ns, r)"
  show "0 \<le> ns \<and> ns < 1000000000"
  proof (cases "ns = 0")
    case False
    then obtain c d v where "s = c # d # v"
      using g by (cases s; cases "tl s") (auto simp: get_fraction_def)
    with g False have "ns = dec_digits (take 9 (takeWhile is_digit (d # v))) *
        10 ^ (9 - length (take 9 (takeWhile is_digit (d # v))))"
      by (auto simp only: get_fraction_def list.case Let_def prod.inject split: if_splits)
    with frac [of "d # v"] show ?thesis by simp
  qed simp
qed

lemma get_zone_minutes: "get_zone s = Some (off, r) \<Longrightarrow> 60 dvd off"
  by (auto simp: get_zone_def split: list.splits if_splits bind_splits)

lemma parse_time_ok: "parse_time s = Some t \<Longrightarrow> time_ok t"
  by (auto simp: parse_time_def time_ok_def whole_minutes_def Let_def split: bind_splits prod.splits if_splits
      dest: get_zone_minutes get_fraction_bounds)

lemma keeps_time_ok [keep_rules]: "keeps time_ok dec_time"
  by (rule keepsI) (auto simp: dec_time_def split: if_splits dest: parse_time_ok)

lemma keeps_entries [keep_rules]:
  assumes "keeps P d" "P z"
  shows "keeps (entries_ok P) (dec_map z d)"
proof -
  have "entries_ok P = map_all P"
    by (auto simp: map_all_def wf_map_def m_get_def entries_ok_def list_all_iff fun_eq_iff)
  with keeps_map [OF assms] show ?thesis by simp
qed

lemmas keeps_strings [keep_rules] = keeps_list [OF keeps_utf8 utf8_Nil]

lemma float_ok_0 [simp]: "float_ok 0"
  by (simp add: zero_float64_def f64_of_rat_def)

lemma int64_0 [simp]: "int64 0"
  by (simp add: int64_def)

lemma keeps_pointer: "keeps P d \<Longrightarrow> P z \<Longrightarrow> keeps (pred_option P) (dec_opt z d)"
  by (rule keeps_opt)

lemmas fields =
  keeps_fld [OF keeps_utf8] keeps_fld [OF keeps_int64] keeps_fld [OF keeps_float_ok]
  keeps_fld [OF keeps_time_ok] keeps_fld [OF keeps_strings]
  keeps_fld [OF keeps_entries [OF keeps_utf8 utf8_Nil]]
  keeps_fld [OF keeps_entries [OF keeps_float_ok float_ok_0]] keeps_fld_other

lemma keeps_subject_plain: "keeps subject_plain dec_subject"
  unfolding dec_subject_def
  by (intro keeps_struct) (auto intro: fields simp: subject_plain_def)

lemma keeps_identity_plain: "keeps identity_plain dec_identity"
  unfolding dec_identity_def
  by (intro keeps_struct) (auto intro: fields simp: identity_plain_def)

lemma keeps_target_plain: "keeps target_plain dec_target"
  unfolding dec_target_def
  by (intro keeps_struct)
    (auto intro: fields keeps_fld [OF keeps_pointer [OF keeps_identity_plain]]
      simp: target_plain_def identity_plain_def zero_identity_def)

lemma keeps_basis_plain: "keeps basis_plain dec_basis"
  unfolding dec_basis_def
  by (intro keeps_struct) (auto intro: fields simp: basis_plain_def)

lemma keeps_instrument_plain: "keeps instrument_plain dec_instrument"
  unfolding dec_instrument_def
  by (intro keeps_struct) (auto intro: fields simp: instrument_plain_def)

lemma keeps_verdict_plain: "keeps verdict_plain dec_verdict"
  unfolding dec_verdict_def dec_strings_def
  by (intro keeps_struct) (auto intro: fields simp: verdict_plain_def)

lemma keeps_counts_plain: "keeps counts_plain dec_counts"
  unfolding dec_counts_def
  by (intro keeps_struct) (auto intro: fields simp: counts_plain_def)

lemma keeps_score_plain: "keeps score_plain dec_score"
  unfolding dec_score_def
  by (intro keeps_struct) (auto intro: fields simp: score_plain_def)

lemma keeps_plan_plain: "keeps plan_plain dec_plan"
  unfolding dec_plan_def dec_strings_def
  by (intro keeps_struct) (auto intro: fields simp: plan_plain_def)

lemma keeps_evaluation_plain: "keeps evaluation_plain dec_evaluation"
proof -
  have v: "verdict_plain new_verdict" by (simp add: verdict_plain_def new_verdict_def)
  have s: "score_plain zero_score" by (simp add: score_plain_def zero_score_def entries_ok_def wf_map_def m_empty_def)
  have p: "plan_plain zero_plan" by (simp add: plan_plain_def zero_plan_def)
  show ?thesis
    unfolding dec_evaluation_def
    by (intro keeps_struct)
      (auto intro: fields keeps_fld [OF keeps_target_plain] keeps_fld [OF keeps_basis_plain]
        keeps_fld [OF keeps_instrument_plain] keeps_fld [OF keeps_list [OF keeps_verdict_plain v]]
        keeps_fld [OF keeps_counts_plain] keeps_fld [OF keeps_pointer [OF keeps_score_plain s]]
        keeps_fld [OF keeps_pointer [OF keeps_plan_plain p]] simp: evaluation_plain_def)
qed

lemma keeps_plain: "keeps plain dec_statement"
proof -
  have u: "subject_plain zero_subject" by (simp add: subject_plain_def zero_subject_def entries_ok_def wf_map_def m_empty_def)
  show ?thesis
    unfolding dec_statement_def
    by (intro keeps_struct)
      (auto intro: fields keeps_fld [OF keeps_evaluation_plain] keeps_fld [OF keeps_list [OF keeps_subject_plain u]]
        simp: plain_def)
qed

lemma plain_zero: "plain zero_statement"
  by (simp add: plain_def zero_statement_def evaluation_plain_def zero_evaluation_def target_plain_def
      basis_plain_def instrument_plain_def time_ok_def whole_minutes_def zero_time_def counts_plain_def
      zero_counts_def)

lemma unmarshal_plain: "unmarshal_statement b = Some s \<Longrightarrow> plain s"
  unfolding unmarshal_statement_def
  by (auto split: option.splits dest: parse_whole_sound intro: keepsD [OF keeps_plain] plain_zero)

lemma Parse_plain: "Parse b = Inr s \<Longrightarrow> plain s"
  by (auto simp: Parse_Inr dest: unmarshal_plain)

subsection \<open>Writing it again\<close>

lemma sort_key_again: "sort_key f (sort_key f xs) = sort_key f xs"
  by (rule sort_key_id_if_sorted) simp

lemma sort_key_Nil_iff [simp]: "sort_key f xs = [] \<longleftrightarrow> xs = []"
  by (metis set_empty set_sort)

lemma enc_map_sorted: "enc_map nil e (sort_key fst m) = enc_map nil e m"
  by (simp add: enc_map_def sort_key_again)

lemma enc_raw_laid_out: "enc_raw nil b = Some c \<Longrightarrow> enc_raw nil (laid_out k b) = Some c"
proof (cases "b = []")
  case True
  moreover assume "enc_raw nil b = Some c"
  moreover have "parse_whole [] = None"
    by (simp add: parse_whole_def parse_fuel_def skip_ws_def parse_value.simps numeral_2_eq_2)
  ultimately have c: "c = ''null''" by (auto simp: enc_raw_def Compact_def split: if_splits)
  have "Compact ''null'' = Some ''null''"
    by (simp add: Compact_def parse_whole_def parse_fuel_def skip_ws_def is_ws_def parse_value.simps
        scalar_def literal_def html_byte_def Let_def numeral_eq_Suc)
  with c True show ?thesis by (simp add: enc_raw_def laid_out_def)
next
  case False
  assume "enc_raw nil b = Some c"
  with False have c: "Compact b = Some c" by (simp add: enc_raw_def)
  then have "laid_out k b = indent_go False False False k c"
    using False by (auto simp: laid_out_def Compact_def split: if_splits)
  moreover have "Compact (laid_out k b) = Some c" using Compact_again [OF c] calculation by simp
  moreover have "Compact [] = None"
    by (simp add: Compact_def parse_whole_def parse_fuel_def skip_ws_def parse_value.simps numeral_2_eq_2)
  ultimately show ?thesis by (auto simp: enc_raw_def)
qed

lemma enc_struct_member: "enc_struct es = Some b \<Longrightarrow> (n, Some v) \<in> set es \<Longrightarrow> \<exists>c. v = Some c"
proof (induction es arbitrary: b)
  case (Cons e es)
  obtain bs where "struct_members (e # es) = Some bs" using Cons.prems(1) by (auto simp: enc_struct_eq)
  then have "snd e \<noteq> Some None \<and> struct_members es \<noteq> None"
    by (cases "snd e"; cases e) (auto simp: struct_members_def key_value_def split: option.splits)
  moreover from this obtain b' where "enc_struct es = Some b'" by (auto simp: enc_struct_eq)
  ultimately show ?case using Cons.IH Cons.prems(2) by (cases v) auto
qed simp

lemma enc_subject_again: "enc_subject nil (back_subject k s) = enc_subject nil s"
  by (simp add: enc_subject_def back_subject_def member_def enc_map_sorted)

lemma enc_score_again: "enc_score (back_score k s) = enc_score s"
  by (simp add: enc_score_def back_score_def omitempty_def enc_map_sorted)

lemma enc_plan_again: "enc_plan nil p = Some b \<Longrightarrow> enc_plan nil (back_plan k p) = Some b"
proof -
  assume b: "enc_plan nil p = Some b"
  then obtain c where "enc_raw (nil ''spec'') (plSpec p) = Some c"
    unfolding enc_plan_def by (auto simp: member_def dest: enc_struct_member)
  with b enc_raw_laid_out [OF this] show ?thesis by (simp add: enc_plan_def back_plan_def member_def)
qed

lemma enc_evaluation_again:
  assumes "enc_evaluation nil e = Some b"
  shows "enc_evaluation nil (back_evaluation k e) = Some b"
proof -
  have "\<exists>c. enc_plan nil p = Some c" if "EvPlan e = Some p" for p
    using enc_struct_member [OF assms [unfolded enc_evaluation_def], of "''plan''" "enc_plan nil p"] that
    by (simp add: omitempty_def enc_ptr_def)
  then have "enc_ptr (enc_plan nil) (map_option (back_plan (Suc k)) (EvPlan e)) = enc_ptr (enc_plan nil) (EvPlan e)"
    using enc_plan_again by (cases "EvPlan e") (fastforce simp: enc_ptr_def)+
  moreover have "enc_ptr enc_score (map_option (back_score (Suc k)) (EvScore e)) = enc_ptr enc_score (EvScore e)"
    by (simp add: enc_ptr_def enc_score_again split: option.split)
  ultimately have
    plan: "omitempty (EvPlan e = None) (enc_ptr (enc_plan nil)) (map_option (back_plan (Suc k)) (EvPlan e)) =
      omitempty (EvPlan e = None) (enc_ptr (enc_plan nil)) (EvPlan e)" and
    score: "omitempty (EvScore e = None) (enc_ptr enc_score) (map_option (back_score (Suc k)) (EvScore e)) =
      omitempty (EvScore e = None) (enc_ptr enc_score) (EvScore e)"
    by (simp_all add: omitempty_def)
  then show ?thesis
    using assms by (simp add: enc_evaluation_def back_evaluation_def plan score)
qed

lemma Marshal_again: "Marshal nil s = Some b \<Longrightarrow> Marshal nil (back_statement k s) = Some b"
proof -
  assume b: "Marshal nil s = Some b"
  then obtain c where c: "enc_statement nil s = Some c" by (auto simp: Marshal_def split: option.splits)
  then obtain d where "enc_evaluation nil (Predicate s) = Some d"
    unfolding enc_statement_def by (auto simp: member_def dest: enc_struct_member)
  then have "enc_evaluation nil (back_evaluation (Suc k) (Predicate s)) = enc_evaluation nil (Predicate s)"
    by (simp add: enc_evaluation_again)
  moreover have "enc_list (nil ''subject'') (enc_subject nil) (map (back_subject (Suc (Suc k))) (stSubject s)) =
      enc_list (nil ''subject'') (enc_subject nil) (stSubject s)"
    by (simp add: enc_list_def comp_def enc_subject_again)
  ultimately have "enc_statement nil (back_statement k s) = enc_statement nil s"
    by (simp add: enc_statement_def back_statement_def member_def)
  with b show ?thesis by (simp add: Marshal_def)
qed


end
