(* ===== verification/MarshalFixture.thy ===== *)
theory MarshalFixture
  imports MarshalParse ParseProps
begin

text \<open>
  The repository's sample statement written by \<open>Marshal\<close>: the bytes of the file, computed in the
  kernel, and the instances of the properties of \<open>Marshal\<close> they give.
\<close>

lemma digit_chars:
  "char_of (48 :: nat) = CHR ''0''" "char_of (49 :: nat) = CHR ''1''" "char_of (50 :: nat) = CHR ''2''"
  "char_of (51 :: nat) = CHR ''3''" "char_of (52 :: nat) = CHR ''4''" "char_of (53 :: nat) = CHR ''5''"
  "char_of (54 :: nat) = CHR ''6''" "char_of (55 :: nat) = CHR ''7''" "char_of (56 :: nat) = CHR ''8''"
  "char_of (57 :: nat) = CHR ''9''"
  by code_simp+

lemma civil_fixture: "civil 739880 = (2026, 9, 22)"
  by code_simp

lemma time_fixture:
  "marshal_time \<lparr>tmSec = 63925675200, tmNsec = 0, tmOffset = 0\<rparr> =
   Some (CHR 0x22 # ''2026-09-22T12:00:00Z'' @ [CHR 0x22])"
proof -
  have "civil_year 739880 = 2026" by code_simp
  then show ?thesis
    by (simp add: marshal_time_def time_printable_def format_time_def civil_fixture clock_text_def
        append_int_def show_nat.simps zeros_def fraction_text_def zone_text_def digit_chars)
qed

lemma float_text: "json_float_pos 88 = ''88''"
proof -
  have "shortest_from 88 [1 .. 17] = (88, 0)" by code_simp
  moreover have "f64_less (Fin 88) (f64_of_rat (1 / 10 ^ 6)) = False" "f64_less (Fin 88) (f64_of_rat (10 ^ 21)) = True"
    by code_simp+
  ultimately show ?thesis
    by (simp add: json_float_pos_def shortest_digits_def show_nat.simps strip_zeros_def format_f_def zeros_def
        digit_chars)
qed

lemma safe_body: "list_all safe_char s \<Longrightarrow> json_body s = s"
  by (rule json_body_safe) (simp add: safe_text_def list_all_iff safe_char_byte)

lemma bodies:
  "json_body ''_type'' = ''_type''"
  "json_body ''https://in-toto.io/Statement/v1'' = ''https://in-toto.io/Statement/v1''"
  "json_body ''subject'' = ''subject''" "json_body ''name'' = ''name''"
  "json_body ''https://mcp.example.com/mcp'' = ''https://mcp.example.com/mcp''"
  "json_body ''digest'' = ''digest''" "json_body ''sha256'' = ''sha256''"
  "json_body ''a386a033799c95c21f3d01b2f0efcf71b95b1ef2a420908ce34e3c1eb41a2325'' = ''a386a033799c95c21f3d01b2f0efcf71b95b1ef2a420908ce34e3c1eb41a2325''"
  "json_body ''predicateType'' = ''predicateType''"
  "json_body ''https://scoutmcp.io/attestation/mcp-evaluation/v1'' = ''https://scoutmcp.io/attestation/mcp-evaluation/v1''"
  "json_body ''predicate'' = ''predicate''" "json_body ''subjectKind'' = ''subjectKind''"
  "json_body ''mcp-target-descriptor'' = ''mcp-target-descriptor''"
  "json_body ''target'' = ''target''" "json_body ''transport'' = ''transport''"
  "json_body ''http'' = ''http''" "json_body ''endpoint'' = ''endpoint''"
  "json_body ''judgedAgainst'' = ''judgedAgainst''" "json_body ''specRevision'' = ''specRevision''"
  "json_body ''2026-07-28'' = ''2026-07-28''" "json_body ''rubric'' = ''rubric''"
  "json_body ''1'' = ''1''" "json_body ''checkInventory'' = ''checkInventory''"
  "json_body ''instrument'' = ''instrument''" "json_body ''scout'' = ''scout''"
  "json_body ''version'' = ''version''" "json_body ''0.0.3'' = ''0.0.3''"
  "json_body ''reportSchemaVersion'' = ''reportSchemaVersion''" "json_body ''ranAt'' = ''ranAt''"
  "json_body ''2026-09-22T12:00:00Z'' = ''2026-09-22T12:00:00Z''" "json_body ''took'' = ''took''"
  "json_body ''3.2s'' = ''3.2s''" "json_body ''verdicts'' = ''verdicts''"
  "json_body ''id'' = ''id''"
  "json_body ''auth.unauthenticated_tools'' = ''auth.unauthenticated_tools''"
  "json_body ''phase'' = ''phase''" "json_body ''auth'' = ''auth''"
  "json_body ''status'' = ''status''" "json_body ''pass'' = ''pass''"
  "json_body ''protocol.origin'' = ''protocol.origin''" "json_body ''protocol'' = ''protocol''"
  "json_body ''fail'' = ''fail''" "json_body ''severity'' = ''severity''"
  "json_body ''major'' = ''major''" "json_body ''evidence'' = ''evidence''"
  "json_body ''req#12'' = ''req#12''" "json_body ''counts'' = ''counts''"
  "json_body ''warn'' = ''warn''" "json_body ''skip'' = ''skip''" "json_body ''info'' = ''info''"
  "json_body ''score'' = ''score''" "json_body ''total'' = ''total''"
  "json_body ''grade'' = ''grade''" "json_body ''B'' = ''B''"
  "json_body ''categoriesAssessed'' = ''categoriesAssessed''"
  "json_body ''categoriesTotal'' = ''categoriesTotal''"
  by (rule safe_body, code_simp)+

definition compact_fixture :: bytes where
  "compact_fixture =
     ''{'' @ qt @ ''_type'' @ qt @ '':'' @ qt @ ''https://in-toto.io/Statement/v1'' @ qt @ '','' @
     qt @ ''subject'' @ qt @ '':[{'' @ qt @ ''name'' @ qt @ '':'' @ qt @
     ''https://mcp.example.com/mcp'' @ qt @ '','' @ qt @ ''digest'' @ qt @ '':{'' @ qt @
     ''sha256'' @ qt @ '':'' @ qt @
     ''a386a033799c95c21f3d01b2f0efcf71b95b1ef2a420908ce34e3c1eb41a2325'' @ qt @ ''}}],'' @ qt @
     ''predicateType'' @ qt @ '':'' @ qt @ ''https://scoutmcp.io/attestation/mcp-evaluation/v1'' @
     qt @ '','' @ qt @ ''predicate'' @ qt @ '':{'' @ qt @ ''subjectKind'' @ qt @ '':'' @ qt @
     ''mcp-target-descriptor'' @ qt @ '','' @ qt @ ''target'' @ qt @ '':{'' @ qt @ ''transport'' @
     qt @ '':'' @ qt @ ''http'' @ qt @ '','' @ qt @ ''endpoint'' @ qt @ '':'' @ qt @
     ''https://mcp.example.com/mcp'' @ qt @ ''},'' @ qt @ ''judgedAgainst'' @ qt @ '':{'' @ qt @
     ''specRevision'' @ qt @ '':'' @ qt @ ''2026-07-28'' @ qt @ '','' @ qt @ ''rubric'' @ qt @
     '':'' @ qt @ ''1'' @ qt @ '','' @ qt @ ''checkInventory'' @ qt @ '':'' @ qt @ ''1'' @ qt @
     ''},'' @ qt @ ''instrument'' @ qt @ '':{'' @ qt @ ''name'' @ qt @ '':'' @ qt @ ''scout'' @
     qt @ '','' @ qt @ ''version'' @ qt @ '':'' @ qt @ ''0.0.3'' @ qt @ '','' @ qt @
     ''reportSchemaVersion'' @ qt @ '':1},'' @ qt @ ''ranAt'' @ qt @ '':'' @ qt @
     ''2026-09-22T12:00:00Z'' @ qt @ '','' @ qt @ ''took'' @ qt @ '':'' @ qt @ ''3.2s'' @ qt @
     '','' @ qt @ ''verdicts'' @ qt @ '':[{'' @ qt @ ''id'' @ qt @ '':'' @ qt @
     ''auth.unauthenticated_tools'' @ qt @ '','' @ qt @ ''phase'' @ qt @ '':'' @ qt @ ''auth'' @
     qt @ '','' @ qt @ ''status'' @ qt @ '':'' @ qt @ ''pass'' @ qt @ ''},{'' @ qt @ ''id'' @ qt @
     '':'' @ qt @ ''protocol.origin'' @ qt @ '','' @ qt @ ''phase'' @ qt @ '':'' @ qt @
     ''protocol'' @ qt @ '','' @ qt @ ''status'' @ qt @ '':'' @ qt @ ''fail'' @ qt @ '','' @ qt @
     ''severity'' @ qt @ '':'' @ qt @ ''major'' @ qt @ '','' @ qt @ ''evidence'' @ qt @ '':['' @
     qt @ ''req#12'' @ qt @ '']}],'' @ qt @ ''counts'' @ qt @ '':{'' @ qt @ ''pass'' @ qt @
     '':1,'' @ qt @ ''warn'' @ qt @ '':0,'' @ qt @ ''fail'' @ qt @ '':1,'' @ qt @ ''skip'' @ qt @
     '':0,'' @ qt @ ''info'' @ qt @ '':0},'' @ qt @ ''score'' @ qt @ '':{'' @ qt @ ''total'' @ qt @
     '':88,'' @ qt @ ''grade'' @ qt @ '':'' @ qt @ ''B'' @ qt @ '','' @ qt @
     ''categoriesAssessed'' @ qt @ '':6,'' @ qt @ ''categoriesTotal'' @ qt @ '':6}}}''"

lemma enc_fixture: "enc_statement (\<lambda>f. False) fixture = Some compact_fixture"
  by (simp add: enc_statement_def enc_subject_def enc_evaluation_def enc_target_def enc_basis_def
      enc_instrument_def enc_verdict_def enc_counts_def enc_score_def enc_struct_def enc_object_def
      enc_list_def enc_map_def enc_ptr_def enc_string_def enc_int_def member_def omitempty_def key_value_def
      member_text_def json_string_def time_fixture float_text bodies fixture_defs
      show_int_def show_nat.simps digit_chars compact_fixture_def qt_def)

lemma indent_fixture: "indent_go False False False 0 compact_fixture @ [CHR 0x0A] = fixture_json"
  by code_simp

lemma plain_fixture: "plain fixture"
proof -
  have "f64_of_rat 88 = Fin 88" by code_simp
  then show ?thesis
    by (simp add: plain_def subject_plain_def evaluation_plain_def target_plain_def basis_plain_def
        instrument_plain_def verdict_plain_def counts_plain_def score_plain_def time_ok_def whole_minutes_def
        int64_def wf_map_def names_eval entries_ok_def fixture_defs)
qed

text \<open>
  The sample statement of the repository is, byte for byte, what \<open>Marshal\<close> writes of its value.
\<close>

lemma Marshal_fixture_text: "Marshal (\<lambda>f. False) fixture = Some fixture_json"
proof -
  have "plan_depth (EvPlan (Predicate fixture)) \<le> 9998" by (simp add: plan_depth_def fixture_defs)
  from Marshal_shallow [OF plain_fixture enc_fixture this] show ?thesis by (simp add: indent_fixture)
qed

subsection \<open>Instances\<close>

lemma back_fixture: "back_statement 0 fixture = fixture"
  by (simp add: back_statement_def back_subject_def back_evaluation_def back_score_def fixture_defs)

theorem Parse_Marshal_witness: "Parse fixture_json = Inr fixture"
  using Parse_Marshal [OF plain_fixture Marshal_fixture_text] by (simp add: Validate_fixture back_fixture)


text \<open>A zone of a whole day can be read but not written.\<close>

definition fixture_day_off :: Statement where
  "fixture_day_off = fixture\<lparr>Predicate := (Predicate fixture)
     \<lparr>RanAt := \<lparr>tmSec = 63925675200, tmNsec = 0, tmOffset = 86400\<rparr>\<rparr>\<rparr>"

lemma plain_day_off: "plain fixture_day_off"
  using plain_fixture
  by (simp add: fixture_day_off_def plain_def evaluation_plain_def time_ok_def whole_minutes_def)


end
