(* ===== verification/Published.thy ===== *)
theory Published
  imports MarshalFixture StoreProps
begin

text \<open>
  From the producer to the gate: a statement that \<open>Marshal\<close> wrote to where a configured target's
  attestation is read from is the one the store holds, and is decided on as the producer's own
  value would be.
\<close>

lemma Covers_back:
  assumes "plain s"
  shows "Covers (back_statement k s) tr ep = Covers s tr ep"
proof -
  have d: "u \<in> set (stSubject s) \<Longrightarrow> subject_digest (back_subject j u) = subject_digest u" for j u
    using assms subject_digest_back [of u j] by (auto simp: plain_def list_all_iff subject_plain_def entries_ok_def)
  have "stSubject (back_statement k s) = map (back_subject (Suc (Suc k))) (stSubject s)"
    by (simp add: back_statement_def)
  then show ?thesis using d by (simp add: Covers_def split: list.split)
qed

lemma Evaluate_back:
  fixes s :: Statement
  defines "e st \<equiv> Some \<lparr>eStatement = Some st, eReason = []\<rparr>"
  shows "Allow (Evaluate p n (e (back_statement k s))) = Allow (Evaluate p n (e s))"
    and "Reason (Evaluate p n (e (back_statement k s))) = Reason (Evaluate p n (e s))"
proof -
  have "EvScore (Predicate (back_statement k s)) = map_option (back_score (Suc (Suc k))) (EvScore (Predicate s))"
    "Verdicts (Predicate (back_statement k s)) = Verdicts (Predicate s)"
    by (simp_all add: back_statement_def back_evaluation_def)
  moreover have "scTotal (back_score j sc) = scTotal sc" "scGrade (back_score j sc) = scGrade sc" for j sc
    by (simp_all add: back_score_def)
  moreover from this have "score_denial p n (map_option (back_score j) sc) = score_denial p n sc" for j sc
    by (simp add: score_denial_def split: option.split)
  ultimately show "Allow (Evaluate p n (e (back_statement k s))) = Allow (Evaluate p n (e s))"
    and "Reason (Evaluate p n (e (back_statement k s))) = Reason (Evaluate p n (e s))"
    by (simp_all add: Evaluate_def e_def allow_def deny_def Let_def split: option.split)
qed

lemma Parse_written: "plain s \<Longrightarrow> Marshal nil s = Some b \<Longrightarrow> Validate s = None \<Longrightarrow> Parse b = Inr (back_statement 0 s)"
  using unmarshal_Marshal [of s nil b] by (simp add: Parse_Inr Validate_back)

text \<open>
  C6. What a producer publishes, the gate decides on. When a plain and valid statement is written by
  \<open>Marshal\<close> to the source of a configured target it covers, and the source answers with those
  bytes, no more than the cap (which is not the largest integer), when the target is loaded,
  then the snapshot built holds under the target's name that statement with its maps sorted
  and the plan's specification laid out, and the gate allows or denies the target, for the
  same reason, as it would on the producer's own value.
\<close>

theorem published_is_decided:
  assumes s: "plain s" "Validate s = None" "Marshal nil s = Some b"
    and cfg: "wf_map (Targets cfg)" "m_get (Targets cfg) n = Some t" "Covers s (transport t) (ctEndpoint t)"
    and src: "served (ws (turn cfg n)) (timeout_of l) (ctAttestation t) = Some \<lparr>stBytes = b, stError = None\<rparr>"
    and cap: "int (length b) \<le> sint (maxBytes l)" "maxBytes l \<noteq> max_int64"
    and built: "Build cfg l ws = Inr sn"
  shows "m_get (Statements sn) n = Some (back_statement 0 s) \<and>
    Allow (Decide sn n) = Allow (Evaluate (cfPolicy cfg) n (Some \<lparr>eStatement = Some s, eReason = []\<rparr>)) \<and>
    Reason (Decide sn n) = Reason (Evaluate (cfPolicy cfg) n (Some \<lparr>eStatement = Some s, eReason = []\<rparr>))"
proof -
  have "Load (ws (turn cfg n)) l (ctAttestation t) = Inr b"
    using src capped_accepts [OF cap] by (auto simp: Load_Inr)
  then have "verify (ws (turn cfg n)) l t = Inr (back_statement 0 s)"
    using cfg(3) by (simp add: verify_Inr Parse_written [OF s(1,3,2)] Covers_back [OF s(1)])
  then have "slot sn n = (Some \<lparr>eStatement = Some (back_statement 0 s), eReason = []\<rparr>, Some (back_statement 0 s), None)"
    using Build_slots [OF built cfg(1), of n] cfg(2) by (simp add: entry_for_def slot_of_def)
  moreover have "snConfig sn = cfg" using Build_other [OF built] by simp
  ultimately show ?thesis by (simp add: slot_def Decide_def Evaluate_back)
qed

theorem published_is_decided_witness:
  "m_get (Statements site_snapshot) ''search'' = Some (back_statement 0 fixture) \<and>
   Allow (Decide site_snapshot ''search'') =
     Allow (Evaluate site_policy ''search'' (Some \<lparr>eStatement = Some fixture, eReason = []\<rparr>))"
proof -
  have t: "m_get (Targets site_config) ''search'' = Some site_target"
    by (simp add: site_config_def m_get_def)
  have c: "Covers fixture (transport site_target) (ctEndpoint site_target)"
    using Covers_site by (simp add: site_target_def transport_def)
  have v: "served site_world (timeout_of zero_loader) (ctAttestation site_target) =
      Some \<lparr>stBytes = fixture_json, stError = None\<rparr>"
    by (simp add: served_def site_world_def site_target_def https_prefix_def scheme_sep_def)
  have l: "int (length fixture_json) \<le> sint (maxBytes zero_loader)"
    by (simp add: length_fixture_json maxBytes_zero_loader sint_DefaultMaxBytes)
  from published_is_decided [OF plain_fixture Validate_fixture Marshal_fixture_text wf_site t c v l
      small_cap(2) Build_site]
  show ?thesis by (simp add: site_config_def)
qed

end
