(* ===== verification/Spec2Isabelle.thy ===== *)
theory Spec2Isabelle
  imports ValidateProps DiffProps AdmissionProps Loading ParseProps StoreProps GateProps
    DaemonProps CompletionProps SpecgenProps VerifyExample SpdxSweep Apidoc Published
begin

text \<open>
  A verification library of scout-reporting: the attestation format of the package
  \<open>attestation\<close>, the admission gate \<open>integrations/agentgateway-extmcp\<close> built on it, and the
  small programs around them.

  \<^bold>\<open>The program.\<close> A statement is a JSON document in which scout says what it measured of an MCP
  server. \<open>attestation\<close> parses and validates statements, tells whether one is about a given
  target, and compares two of them. The gate is a gRPC server: a configuration file names, per
  backend, where its statement comes from; a store loads and verifies them all into one
  immutable snapshot; every request of the gateway is decided on one snapshot by a policy; and
  SIGHUP or a timer make the store load again while requests are served.

  \<^bold>\<open>The theories\<close>, in the order the code calls each other.

  \<^item> \<open>Prelude\<close>, \<open>GoMap\<close>, \<open>GoStrings\<close>, \<open>Float64\<close>, \<open>Sha256\<close>: what the program uses of Go and its
    library. Strings are byte lists; a map with string keys is an association list whose order
    stands for the order one run ranges over it (interface \<open>finite_map\<close>, interpreted as
    \<open>gm\<close>); \<open>float64\<close> is the finite rationals, two infinities and NaN, the two zeros being one
    value; SHA-256 is computed on 32-bit words.
  \<^item> \<open>Attestation\<close>, \<open>Validate\<close>, \<open>ValidateProps\<close>, \<open>Fixture\<close>: \<open>statement.go\<close> and \<open>verify.go\<close> but for
    JSON. \<open>Validate\<close> collects values of \<open>problem\<close>, whose text is \<open>problem_text\<close>;
    \<open>interpretable\<close> is its specification. \<open>Fixture\<close> is the sample statement as a value.
  \<^item> \<open>Diff\<close>, \<open>DiffProps\<close>: \<open>diff.go\<close>. \<open>compare_step\<close> is the body of the loop; the lemmas
    characterise every list of the delta by the verdicts of the two statements.
  \<^item> \<open>Json\<close>, \<open>JsonPrefix\<close>, \<open>JsonDecode\<close>, \<open>GoTime\<close>, \<open>ParseFiles\<close>, \<open>Samples\<close>, \<open>ParseProps\<close>: reading
    JSON as \<open>encoding/json\<close> does, into each struct by its tags; \<open>Parse\<close>, \<open>ParseConfig\<close>,
    \<open>ReadConfig\<close>; the repository's two sample files, byte for byte, decoded in the kernel.
  \<^item> \<open>JsonText\<close>, \<open>JsonWrite\<close>, \<open>JsonRead\<close>, \<open>JsonSound\<close>: the text of JSON. \<open>Compact\<close> and \<open>Indent\<close> are
    the two byte loops of \<open>encoding/json\<close>; an \<open>otree\<close> is a document before it has a layout, and
    every layout of it parses to its value. What the parser returns is UTF-8 (\<open>sound\<close>).
  \<^item> \<open>NumberText\<close>, \<open>FloatText\<close>, \<open>TimeText\<close>: printing integers, the shortest digits of a \<open>float64\<close>
    and RFC 3339 times, each with the parser that reads it back.
  \<^item> \<open>JsonEncode\<close>, \<open>Marshal\<close>, \<open>MarshalProps\<close>, \<open>MarshalParse\<close>, \<open>MarshalFixture\<close>: \<open>Statement.Marshal\<close> of
    \<open>statement.go\<close>. The interface \<open>codec\<close> relates the encoder of a type to its decoder; slices,
    maps, pointers and structs get it from their parts, and it is interpreted on the encoders
    the statement uses. \<open>plain\<close> says what a statement needs to be written without loss.
  \<^item> \<open>ConfigFile\<close>, \<open>Admission\<close>, \<open>AdmissionProps\<close>: \<open>config.go\<close> and \<open>policy.go\<close>. A reason is a
    constructor with its text in \<open>reason_text\<close>; \<open>usable\<close> and \<open>admissible\<close> are the
    specifications of a configuration and of a statement under a policy.
  \<^item> \<open>Loading\<close>: \<open>load.go\<close>. The size cap is a 64-bit word, so its overflow is in the model.
  \<^item> \<open>SnapshotStore\<close>, \<open>Site\<close>, \<open>StoreProps\<close>: \<open>store.go\<close>. \<open>snapshot_ok\<close> and \<open>store_ok\<close> are the
    invariants of what \<open>Build\<close> and \<open>Reload\<close> make. \<open>Site\<close> is a small installation, the input
    of the witnesses.
  \<^item> \<open>Published\<close>: the two packages together, from \<open>Marshal\<close> to the gate's decision.
  \<^item> \<open>GateServer\<close>, \<open>GateProps\<close>: \<open>server.go\<close> and the two getters and the enumeration of the
    generated code it uses. The interface \<open>gate\<close> says what the handler needs of the store's
    decisions and is interpreted on \<open>Decide\<close> as \<open>sg\<close>.
  \<^item> \<open>FlagParse\<close>, \<open>FlagProps\<close>: the command line. \<open>parse_flags\<close> is the flag package's \<open>Parse\<close> on the
    seven flags, with the integers and durations they take; \<open>spells\<close> is the grammar of what it
    accepts and \<open>options_of\<close> the options that stand for it.
  \<^item> \<open>Completion\<close>, \<open>CompletionProps\<close>, \<open>Daemon\<close>, \<open>DaemonProps\<close>: the command. \<open>run\<close> is the start-up,
    \<open>reloadOn\<close> the loop over the wake-ups (interface \<open>reloadable\<close>, interpreted on \<open>Reload\<close> as
    \<open>rl\<close>), and \<open>step\<close> the process, in which signals, ticks, reloads, handlers and
    cancellation interleave. Sending to a full channel drops, a handler reads the snapshot
    in one step and answers in a later one, and a reload answers to a context that has ended.
    The process records the reloads it carried out, so that its states are compared with
    \<open>reloadOn\<close> on those very reloads.
  \<^item> \<open>JsonPrint\<close>, \<open>Specgen\<close>, \<open>SpecgenProps\<close>: \<open>scripts/specgen\<close>, with the attestation's types as
    \<open>reflect\<close> shows them and the published schema line by line.
  \<^item> \<open>VerifyExample\<close>, \<open>SpdxSweep\<close>, \<open>Apidoc\<close>: \<open>examples/verify\<close>, \<open>scripts/spdx_sweep.go\<close> and
    \<open>scripts/apidoc\<close>.

  \<^bold>\<open>What is shown.\<close> A call that passes names only backends whose statement is valid, covers the
  configured endpoint and satisfies the policy, or that have none where the policy asks for
  none; a denial is the first denied backend's; every answer of the running process is the
  gate's on the verified store that was in force when the request read it; the process
  refines the sequential reload loop, reload by reload; a reload that fails changes nothing
  and, while the loop runs, no SIGHUP is lost. A snapshot holds exactly the statements that load, parse, validate and cover.
  What the parsers accept is well-formed for any bytes. Validation is equivalent to its
  specification, a valid statement covers its target and, SHA-256 not colliding, no other.
  The drift lists are exact, ordered, disjoint, mirror-symmetric and compose along a chain. The
  loader never truncates below the largest cap. The published schema is the one the source
  generates, and the generator ends exactly on types that do not go round without a struct.
  What \<open>Marshal\<close> writes of a plain statement \<open>Parse\<close> reads back, whatever \<open>Parse\<close> accepts is written
  without loss and in a normal form, the gate decides on a published statement as on the
  producer's own value, and \<open>Marshal\<close> fails on a plain statement that is not nested too deep
  only for a number, a time or a raw value that JSON cannot hold. A command line is accepted exactly when it spells readable values of the flags.

  \<^bold>\<open>The outside.\<close> Files, the network, the context, the text of a JSON syntax error and the table
  of printable runes are the fields of \<open>World\<close>; a load is given one world per target, so the
  outside may change while a snapshot is built. No law is assumed of any of them.

  \<^bold>\<open>Fuel.\<close> The JSON parser runs on twice the input's length plus two, which is always enough
  (\<open>parse_fuel_enough\<close>, \<open>parse_value_fuel\<close>). The walk over the Go types has fuel too; a type that
  goes round without a struct spends any amount of it, as the program would run on, every
  other type has enough (\<open>types_end\<close>), more does not change a result, and 40 is enough for the
  attestation's. The redirects of an HTTP request are bounded by the client's own ten.

  \<^bold>\<open>Writing.\<close> An empty slice or map is written as \<open>null\<close> when it is nil in Go; \<open>Marshal\<close> takes
  a function that tells, by the name of the field. A negative zero is written as zero. The
  limit of 10000 nested values counts when a statement is indented, so the plan's
  specification may be 9998 deep where \<open>Marshal\<close> is said to succeed.

  \<^bold>\<open>Not modelled.\<close> The opening of the listener, whose outcome is an argument of \<open>run\<close>; log
  lines and the usage text of the flags; the gRPC server, its graceful stop and the generated
  protocol code; the protobuf struct of the pass's metadata, an argument of \<open>pass\<close>; the
  injected HTTP client and the request's headers; what \<open>go/parser\<close> and \<open>go/doc\<close> make of a
  directory, an argument of \<open>check\<close>; the embedding of the schema in \<open>spec\<close>. A key given three
  times in one JSON object may, in Go, reuse the backing array of a slice; the decoder here
  always starts from what it decoded last. The error of the writer of a completion script, and
  that of writing the schema file, are left out.
\<close>

end
